(* ===== verification/KG_Prelude.thy ===== *)
theory KG_Prelude
  imports Main "HOL-Library.AList" "HOL-Library.Sublist" "HOL-Library.Multiset"
    "HOL-Library.List_Lexorder" "HOL-Library.Char_ord" "HOL-Library.Word"
begin

text \<open>
  Shared vocabulary of the development: the outcome of a Go call (a value, an error
  value, or a panic), effectful calls as functions on an explicit state, the loops Go
  writes over slices, and the generic lemmas on lists and association lists that the
  component theories use. Go maps are association lists with distinct keys throughout:
  an update replaces an entry in place or appends it.
\<close>

section \<open>Outcomes and errors\<close>

text \<open>
  A Go \<open>error\<close> is a message, a message wrapped with \<open>%w\<close>, or the one sentinel
  value the storage layer compares against (\<open>badger.ErrKeyNotFound\<close>).
\<close>

datatype gerr = Msg string | Wrap string gerr | KeyNotFound

fun error_text :: "gerr \<Rightarrow> string" where
  "error_text (Msg s) = s"
| "error_text (Wrap p e) = p @ '': '' @ error_text e"
| "error_text KeyNotFound = ''Key not found''"

text \<open>
  \<open>Panic\<close> is a run-time panic of the goroutine (here always an assignment to an entry of
  a nil map). It is not an error value: no \<open>if err != nil\<close> ever sees it.
\<close>

datatype 'a outcome = Ok 'a | Err gerr | Panic

type_synonym ('s, 'a) go = "'s \<Rightarrow> 'a outcome \<times> 's"

definition go_ret :: "'a \<Rightarrow> ('s, 'a) go" where
  "go_ret x = (\<lambda>s. (Ok x, s))"

definition go_raise :: "gerr \<Rightarrow> ('s, 'a) go" where
  "go_raise e = (\<lambda>s. (Err e, s))"

definition go_panic :: "('s, 'a) go" where
  "go_panic = (\<lambda>s. (Panic, s))"

text \<open>\<open>x, err := m; if err != nil { return err }; f x\<close>: effects before the error stay.\<close>

definition go_bind :: "('s, 'a) go \<Rightarrow> ('a \<Rightarrow> ('s, 'b) go) \<Rightarrow> ('s, 'b) go" where
  "go_bind m f = (\<lambda>s. case m s of
      (Ok x, s') \<Rightarrow> f x s'
    | (Err e, s') \<Rightarrow> (Err e, s')
    | (Panic, s') \<Rightarrow> (Panic, s'))"

text \<open>\<open>x, err := m\<close> where the code goes on to inspect \<open>err\<close> itself.\<close>

definition go_try :: "('s, 'a) go \<Rightarrow> ('s, gerr + 'a) go" where
  "go_try m = (\<lambda>s. case m s of
      (Ok x, s') \<Rightarrow> (Ok (Inr x), s')
    | (Err e, s') \<Rightarrow> (Ok (Inl e), s')
    | (Panic, s') \<Rightarrow> (Panic, s'))"

text \<open>\<open>fmt.Errorf("p: %w", err)\<close> around a failing call.\<close>

definition go_wrap :: "string \<Rightarrow> ('s, 'a) go \<Rightarrow> ('s, 'a) go" where
  "go_wrap p m = (\<lambda>s. case m s of
      (Err e, s') \<Rightarrow> (Err (Wrap p e), s')
    | r \<Rightarrow> r)"

text \<open>A call whose error is discarded (\<open>_, _ = f()\<close>).\<close>

definition go_ignore :: "('s, 'a) go \<Rightarrow> ('s, unit) go" where
  "go_ignore m = go_bind (go_try m) (\<lambda>_. go_ret ())"

text \<open>\<open>for _, x := range xs { body }\<close>, left at the first error the body returns.\<close>

fun go_for :: "'a list \<Rightarrow> ('a \<Rightarrow> ('s, unit) go) \<Rightarrow> ('s, unit) go" where
  "go_for [] body = go_ret ()"
| "go_for (x # xs) body = go_bind (body x) (\<lambda>_. go_for xs body)"

text \<open>The same loop collecting what each iteration appends to a result slice.\<close>

fun go_collect :: "'a list \<Rightarrow> ('a \<Rightarrow> ('s, 'b list) go) \<Rightarrow> ('s, 'b list) go" where
  "go_collect [] body = go_ret []"
| "go_collect (x # xs) body =
     go_bind (body x) (\<lambda>ys. go_bind (go_collect xs body) (\<lambda>zs. go_ret (ys @ zs)))"

named_theorems go_simps \<open>evaluation of effectful calls\<close>

lemma go_ret_apply [go_simps]: "go_ret x s = (Ok x, s)"
  by (simp add: go_ret_def)

lemma go_raise_apply [go_simps]: "go_raise e s = (Err e, s)"
  by (simp add: go_raise_def)

lemma go_panic_apply [go_simps]: "go_panic s = (Panic, s)"
  by (simp add: go_panic_def)

lemma go_bind_Ok [go_simps]: "m s = (Ok x, s') \<Longrightarrow> go_bind m f s = f x s'"
  by (simp add: go_bind_def)

lemma go_bind_Err [go_simps]: "m s = (Err e, s') \<Longrightarrow> go_bind m f s = (Err e, s')"
  by (simp add: go_bind_def)

lemma go_bind_Panic [go_simps]: "m s = (Panic, s') \<Longrightarrow> go_bind m f s = (Panic, s')"
  by (simp add: go_bind_def)

lemma go_try_Ok [go_simps]: "m s = (Ok x, s') \<Longrightarrow> go_try m s = (Ok (Inr x), s')"
  by (simp add: go_try_def)

lemma go_try_Err [go_simps]: "m s = (Err e, s') \<Longrightarrow> go_try m s = (Ok (Inl e), s')"
  by (simp add: go_try_def)

lemma go_wrap_Ok [go_simps]: "m s = (Ok x, s') \<Longrightarrow> go_wrap p m s = (Ok x, s')"
  by (simp add: go_wrap_def)

lemma go_wrap_Err [go_simps]: "m s = (Err e, s') \<Longrightarrow> go_wrap p m s = (Err (Wrap p e), s')"
  by (simp add: go_wrap_def)

lemma go_bind_OkE:
  assumes "go_bind m f s = (Ok y, t)"
  obtains x s' where "m s = (Ok x, s')" and "f x s' = (Ok y, t)"
  using assms by (auto simp: go_bind_def split: prod.splits outcome.splits)

lemma go_wrap_OkD: "go_wrap p m s = (Ok x, t) \<Longrightarrow> m s = (Ok x, t)"
  by (auto simp: go_wrap_def split: prod.splits outcome.splits)

lemma go_wrap_snd [simp]: "snd (go_wrap p m s) = snd (m s)"
  by (auto simp: go_wrap_def split: prod.splits outcome.splits)

lemma go_try_snd [simp]: "snd (go_try m s) = snd (m s)"
  by (auto simp: go_try_def split: prod.splits outcome.splits)

text \<open>
  An invariant of the state is kept by a composed call when every part keeps it, whatever
  the outcome: errors leave the effects of the earlier calls behind.
\<close>

definition go_keeps :: "('s \<Rightarrow> bool) \<Rightarrow> ('s, 'a) go \<Rightarrow> bool" where
  "go_keeps P m \<longleftrightarrow> (\<forall>s. P s \<longrightarrow> P (snd (m s)))"

lemma go_keepsI [intro?]: "(\<And>s. P s \<Longrightarrow> P (snd (m s))) \<Longrightarrow> go_keeps P m"
  by (simp add: go_keeps_def)

lemma go_keepsD: "go_keeps P m \<Longrightarrow> P s \<Longrightarrow> P (snd (m s))"
  by (simp add: go_keeps_def)

named_theorems keeps \<open>compositional invariant preservation\<close>

lemma go_keeps_ret [keeps]: "go_keeps P (go_ret x)"
  by (simp add: go_keeps_def go_ret_def)

lemma go_keeps_raise [keeps]: "go_keeps P (go_raise e)"
  by (simp add: go_keeps_def go_raise_def)

lemma go_keeps_bind [keeps]:
  assumes "go_keeps P m" and "\<And>x. go_keeps P (f x)"
  shows "go_keeps P (go_bind m f)"
proof (rule go_keepsI)
  fix s assume "P s"
  obtain r s' where r: "m s = (r, s')" by fastforce
  with go_keepsD [OF assms(1) \<open>P s\<close>] have "P s'" by simp
  with r show "P (snd (go_bind m f s))"
    using go_keepsD [OF assms(2)] by (cases r) (auto simp: go_bind_def)
qed

lemma go_keeps_try [keeps]: "go_keeps P m \<Longrightarrow> go_keeps P (go_try m)"
  by (simp add: go_keeps_def)

lemma go_keeps_wrap [keeps]: "go_keeps P m \<Longrightarrow> go_keeps P (go_wrap p m)"
  by (simp add: go_keeps_def)

lemma go_keeps_ignore [keeps]: "go_keeps P m \<Longrightarrow> go_keeps P (go_ignore m)"
  unfolding go_ignore_def by (intro keeps)

lemma go_keeps_for [keeps]: "(\<And>x. go_keeps P (body x)) \<Longrightarrow> go_keeps P (go_for xs body)"
  by (induction xs) (auto intro: keeps)

lemma go_keeps_collect [keeps]:
  "(\<And>x. go_keeps P (body x)) \<Longrightarrow> go_keeps P (go_collect xs body)"
  by (induction xs) (auto intro: keeps)

section \<open>Lists and association lists\<close>

lemma distinct_keys_update [simp]:
  "distinct (map fst al) \<Longrightarrow> distinct (map fst (AList.update k v al))"
  by (rule distinct_update)

lemma map_of_update [simp]: "map_of (AList.update k v al) = (map_of al)(k \<mapsto> v)"
  by (rule update_conv')

text \<open>\<open>maps.Copy(dst, src)\<close>: the entries of the source overwrite those of the target.\<close>

definition copy_into :: "('k \<times> 'v) list \<Rightarrow> ('k \<times> 'v) list \<Rightarrow> ('k \<times> 'v) list" where
  "copy_into src dst = foldl (\<lambda>m (k, v). AList.update k v m) dst src"

lemma copy_into_Nil [simp]: "copy_into [] dst = dst"
  by (simp add: copy_into_def)

lemma copy_into_Cons [simp]:
  "copy_into ((k, v) # src) dst = copy_into src (AList.update k v dst)"
  by (simp add: copy_into_def)

lemma distinct_copy_into [simp]:
  "distinct (map fst dst) \<Longrightarrow> distinct (map fst (copy_into src dst))"
proof (induction src arbitrary: dst)
  case (Cons kv src)
  then show ?case by (cases kv) simp
qed simp

lemma map_of_copy_into:
  "distinct (map fst src) \<Longrightarrow> map_of (copy_into src dst) = map_of dst ++ map_of src"
proof (induction src arbitrary: dst)
  case (Cons kv src)
  obtain k v where kv: "kv = (k, v)" by fastforce
  from Cons.prems kv have "k \<notin> dom (map_of src)"
    by (simp add: dom_map_of_conv_image_fst)
  then show ?case
    using Cons by (auto simp: kv fun_eq_iff map_add_def domIff split: option.splits)
qed simp

lemma update_fresh: "k \<notin> set (map fst al) \<Longrightarrow> AList.update k v al = al @ [(k, v)]"
  by (induction al) auto

lemma copy_into_disjoint:
  "distinct (map fst (dst @ src)) \<Longrightarrow> copy_into src dst = dst @ src"
proof (induction src arbitrary: dst)
  case (Cons kv src)
  obtain k v where kv: "kv = (k, v)" by fastforce
  from Cons.prems have "k \<notin> set (map fst dst)" by (auto simp: kv)
  with Cons.prems Cons.IH [of "dst @ [(k, v)]"] show ?case by (simp add: kv update_fresh)
qed simp

text \<open>Copying the same entries twice is copying them once.\<close>

lemma copy_into_absorb:
  assumes "map_of src \<subseteq>\<^sub>m map_of dst" and "distinct (map fst src)"
  shows "copy_into src dst = dst"
  using assms
proof (induction src)
  case (Cons kv src)
  obtain k v where kv: "kv = (k, v)" by fastforce
  from Cons.prems(1) have "map_of dst k = Some v"
    by (auto simp: kv map_le_def dest: bspec [where x = k])
  moreover have "map_of src \<subseteq>\<^sub>m map_of dst"
  proof (unfold map_le_def, intro ballI)
    fix a assume a: "a \<in> dom (map_of src)"
    with Cons.prems(2) have "a \<noteq> k"
      by (auto simp: kv dom_map_of_conv_image_fst)
    with Cons.prems(1) a show "map_of src a = map_of dst a"
      by (auto simp: kv map_le_def dest: bspec [where x = a])
  qed
  ultimately show ?case
    using Cons.IH Cons.prems(2) by (simp add: kv update_triv)
qed simp

lemma copy_into_twice:
  "distinct (map fst src) \<Longrightarrow> copy_into src (copy_into src dst) = copy_into src dst"
  by (rule copy_into_absorb) (simp_all add: map_of_copy_into)

lemma ex_upd_fresh:
  assumes "f k = None"
  shows "(\<exists>j m. (f(k \<mapsto> n)) j = Some m \<and> P j m) \<longleftrightarrow> P k n \<or> (\<exists>j m. f j = Some m \<and> P j m)"
proof
  assume "\<exists>j m. (f(k \<mapsto> n)) j = Some m \<and> P j m"
  then obtain j m where "(f(k \<mapsto> n)) j = Some m" "P j m" by blast
  then show "P k n \<or> (\<exists>j m. f j = Some m \<and> P j m)" by (cases "j = k") auto
next
  assume "P k n \<or> (\<exists>j m. f j = Some m \<and> P j m)"
  then show "\<exists>j m. (f(k \<mapsto> n)) j = Some m \<and> P j m"
  proof
    assume "P k n" then show ?thesis by (intro exI [of _ k] exI [of _ n]) simp
  next
    assume "\<exists>j m. f j = Some m \<and> P j m"
    then obtain j m where jm: "f j = Some m" "P j m" by blast
    with assms have "j \<noteq> k" by auto
    with jm show ?thesis by (intro exI [of _ j] exI [of _ m]) simp
  qed
qed

text \<open>A derived key set after one document and its key are removed.\<close>

lemma derived_key_del:
  assumes doc: "f k = Some n"
    and uniq: "\<And>j m. f j = Some m \<Longrightarrow> K j m = K k n \<Longrightarrow> j = k"
    and mirror: "w \<noteq> None \<longleftrightarrow> (\<exists>j m. f j = Some m \<and> r = K j m)"
  shows "(if r = K k n then None else w) \<noteq> None \<longleftrightarrow>
    (\<exists>j m. (f(k := None)) j = Some m \<and> r = K j m)"
proof (cases "r = K k n")
  case True
  have "\<not> (\<exists>j m. (f(k := None)) j = Some m \<and> r = K j m)"
  proof
    assume "\<exists>j m. (f(k := None)) j = Some m \<and> r = K j m"
    then obtain j m where jm: "(f(k := None)) j = Some m" "r = K j m" by blast
    then have "j \<noteq> k" and "f j = Some m" by (auto split: if_splits)
    with uniq [of j m] True jm(2) show False by simp
  qed
  with True show ?thesis by simp
next
  case False
  have "(\<exists>j m. (f(k := None)) j = Some m \<and> r = K j m) \<longleftrightarrow> (\<exists>j m. f j = Some m \<and> r = K j m)"
  proof
    assume "\<exists>j m. f j = Some m \<and> r = K j m"
    then obtain j m where jm: "f j = Some m" "r = K j m" by blast
    with False doc have "j \<noteq> k" by auto
    with jm show "\<exists>j m. (f(k := None)) j = Some m \<and> r = K j m"
      by (intro exI [of _ j] exI [of _ m]) simp
  qed (auto split: if_splits)
  with False mirror show ?thesis by simp
qed

text \<open>Looking up a list of keys, skipping the absent ones.\<close>

definition lookups :: "('k \<Rightarrow> 'v option) \<Rightarrow> 'k list \<Rightarrow> 'v list" where
  "lookups f ks = concat (map (\<lambda>k. case f k of None \<Rightarrow> [] | Some x \<Rightarrow> [x]) ks)"

lemma lookups_simps [simp]:
  "lookups f [] = []"
  "lookups f (k # ks) = (case f k of None \<Rightarrow> lookups f ks | Some x \<Rightarrow> x # lookups f ks)"
  by (simp_all add: lookups_def split: option.splits)

lemma lookups_keyed:
  assumes id: "\<forall>k x. f k = Some x \<longrightarrow> g x = k" and "distinct ks"
  shows "distinct (map g (lookups f ks))"
    and "set (lookups f ks) = {x. f (g x) = Some x \<and> g x \<in> set ks}"
proof -
  have set: "set (lookups f ks) = {x. \<exists>k \<in> set ks. f k = Some x}" for ks
    by (induction ks) (auto split: option.splits)
  then show "set (lookups f ks) = {x. f (g x) = Some x \<and> g x \<in> set ks}"
    using id by blast
  show "distinct (map g (lookups f ks))"
    using assms(2)
  proof (induction ks)
    case (Cons k ks)
    have "g y \<in> set ks" if "y \<in> set (lookups f ks)" for y
      using that id unfolding set by blast
    with Cons id show ?case by (auto split: option.splits)
  qed simp
qed

text \<open>
  The \<open>seen\<close> map idiom: elements already seen are skipped, so the loop visits each value
  once, at its first position.
\<close>

fun first_seen :: "'a list \<Rightarrow> 'a list \<Rightarrow> 'a list" where
  "first_seen seen [] = []"
| "first_seen seen (x # xs) =
     (if x \<in> set seen then first_seen seen xs else x # first_seen (x # seen) xs)"

lemma set_first_seen: "set (first_seen seen xs) = set xs - set seen"
  by (induction seen xs rule: first_seen.induct) auto

lemma distinct_first_seen: "distinct (first_seen seen xs)"
  by (induction seen xs rule: first_seen.induct) (auto simp: set_first_seen)

text \<open>
  Stable insertion sort by a strict order \<open>lt\<close>, the result \<open>sort.SliceStable\<close>
  produces whenever \<open>lt\<close> is a strict weak order: an element stays behind the ones it
  is not less than.
\<close>

fun insert_by :: "('a \<Rightarrow> 'a \<Rightarrow> bool) \<Rightarrow> 'a \<Rightarrow> 'a list \<Rightarrow> 'a list" where
  "insert_by lt x [] = [x]"
| "insert_by lt x (y # ys) = (if lt y x then y # insert_by lt x ys else x # y # ys)"

fun sort_by :: "('a \<Rightarrow> 'a \<Rightarrow> bool) \<Rightarrow> 'a list \<Rightarrow> 'a list" where
  "sort_by lt [] = []"
| "sort_by lt (x # xs) = insert_by lt x (sort_by lt xs)"

lemma mset_insert_by [simp]: "mset (insert_by lt x xs) = add_mset x (mset xs)"
  by (induction xs) auto

lemma mset_sort_by [simp]: "mset (sort_by lt xs) = mset xs"
  by (induction xs) auto

lemma set_sort_by [simp]: "set (sort_by lt xs) = set xs"
  by (metis mset_sort_by set_mset_mset)

lemma length_sort_by [simp]: "length (sort_by lt xs) = length xs"
  by (metis mset_sort_by size_mset)

lemma distinct_map_sort_by:
  "distinct (map f (sort_by lt xs)) \<longleftrightarrow> distinct (map f xs)"
  by (metis mset_map mset_sort_by mset_eq_imp_distinct_iff)

text \<open>What a strict weak order gives: no element is less than one that stands before it.\<close>

definition strict_weak :: "('a \<Rightarrow> 'a \<Rightarrow> bool) \<Rightarrow> bool" where
  "strict_weak lt \<longleftrightarrow>
     (\<forall>x. \<not> lt x x) \<and> (\<forall>x y. lt x y \<longrightarrow> \<not> lt y x) \<and>
     (\<forall>x y z. \<not> lt y x \<longrightarrow> \<not> lt z y \<longrightarrow> \<not> lt z x)"

lemma set_insert_by [simp]: "set (insert_by lt x xs) = insert x (set xs)"
  by (induction xs) auto

lemma sorted_insert_by:
  assumes "strict_weak lt"
  shows "sorted_wrt (\<lambda>x y. \<not> lt y x) xs \<Longrightarrow>
    sorted_wrt (\<lambda>x y. \<not> lt y x) (insert_by lt x xs)"
proof (induction xs)
  case (Cons y ys)
  show ?case
  proof (cases "lt y x")
    case True
    with assms have "\<not> lt x y" unfolding strict_weak_def by blast
    with True Cons show ?thesis by simp
  next
    case False
    have "\<not> lt z x" if "z \<in> set ys" for z
      using assms False Cons.prems that unfolding strict_weak_def by (metis sorted_wrt.simps(2))
    with False Cons.prems show ?thesis by simp
  qed
qed simp

lemma sorted_sort_by:
  "strict_weak lt \<Longrightarrow> sorted_wrt (\<lambda>x y. \<not> lt y x) (sort_by lt xs)"
  by (induction xs) (auto intro: sorted_insert_by)

lemma sort_by_sorted: "sorted_wrt (\<lambda>x y. \<not> lt y x) xs \<Longrightarrow> sort_by lt xs = xs"
proof (induction xs)
  case (Cons x xs)
  then show ?case by (cases xs) auto
qed simp

lemma strict_weak_key: "strict_weak (\<lambda>x y. f x < (f y :: 'b :: linorder))"
  by (auto simp: strict_weak_def)

lemma strict_weak_converse: "strict_weak lt \<Longrightarrow> strict_weak (\<lambda>x y. lt y x)"
  unfolding strict_weak_def by blast

lemma strict_weak_lex:
  assumes "strict_weak lt" and "strict_weak lu"
  shows "strict_weak (\<lambda>x y. lt x y \<or> \<not> lt y x \<and> lu x y)"
  using assms unfolding strict_weak_def by blast

text \<open>Elements neither of which is less than the other keep their order.\<close>

lemma sort_by_stable:
  assumes sw: "strict_weak lt"
  shows "filter (\<lambda>y. \<not> lt x y \<and> \<not> lt y x) (sort_by lt xs) = filter (\<lambda>y. \<not> lt x y \<and> \<not> lt y x) xs"
proof -
  let ?eq = "\<lambda>y. \<not> lt x y \<and> \<not> lt y x"
  have tr: "\<not> lt b c \<Longrightarrow> \<not> lt a b \<Longrightarrow> \<not> lt a c" for a b c
    using sw unfolding strict_weak_def by blast
  have out: "filter ?eq (insert_by lt y ys) = filter ?eq ys" if "\<not> ?eq y" for y ys
    using that by (induction ys) auto
  have inn: "filter ?eq (insert_by lt y ys) = y # filter ?eq ys" if "?eq y" for y ys
  proof (induction ys)
    case (Cons z zs)
    have "\<not> (lt z y \<and> ?eq z)" using that tr [of x y z] by blast
    with Cons that show ?case by auto
  qed (use that in simp)
  show ?thesis
  proof (induction xs)
    case (Cons y ys)
    then show ?case by (cases "?eq y") (simp_all add: out inn del: insert_by.simps)
  qed simp
qed

end
