(* ===== verification/Go_Text.thy ===== *)
theory Go_Text
  imports KG_Prelude
begin

text \<open>
  The string operations of Go's standard library that the program uses: decimal printing
  and parsing (\<open>%d\<close>, \<open>strconv\<close>), prefixes and joins (\<open>strings\<close>). A Go string is its list
  of bytes, one \<open>char\<close> each.
\<close>

section \<open>Decimal numbers\<close>

definition digit_char :: "nat \<Rightarrow> char" where
  "digit_char d = char_of (48 + d)"

definition is_digit :: "char \<Rightarrow> bool" where
  "is_digit c \<longleftrightarrow> (48::nat) \<le> of_char c \<and> of_char c \<le> (57::nat)"

definition digit_val :: "char \<Rightarrow> nat" where
  "digit_val c = of_char c - 48"

fun show_nat :: "nat \<Rightarrow> string" where
  "show_nat n = (if n < 10 then [digit_char n]
                 else show_nat (n div 10) @ [digit_char (n mod 10)])"

declare show_nat.simps [simp del]

definition show_int :: "int \<Rightarrow> string" where
  "show_int i = (if i < 0 then CHR ''-'' # show_nat (nat (- i)) else show_nat (nat i))"

definition digits_val :: "string \<Rightarrow> nat" where
  "digits_val s = foldl (\<lambda>a c. 10 * a + digit_val c) 0 s"

text \<open>
  \<open>strconv.ParseInt(s, 10, 64)\<close> and, on a 64-bit platform, \<open>strconv.Atoi\<close>: an optional sign
  and at least one digit. On a syntax error the value is 0; out of range it is the nearest
  bound, and in both cases an error accompanies it. The code that discards the error keeps
  the value.
\<close>

definition int64_min :: int where "int64_min = - (2 ^ 63)"
definition int64_max :: int where "int64_max = 2 ^ 63 - 1"

definition parse_int64 :: "string \<Rightarrow> int \<times> bool" where
  "parse_int64 s =
     (let (neg, ds) = (case s of [] \<Rightarrow> (False, [])
                        | c # r \<Rightarrow> if c = CHR ''-'' then (True, r)
                                  else if c = CHR ''+'' then (False, r) else (False, s)) in
      if ds = [] \<or> \<not> list_all is_digit ds then (0, False)
      else let v = (if neg then - int (digits_val ds) else int (digits_val ds)) in
           if v > int64_max then (int64_max, False)
           else if v < int64_min then (int64_min, False) else (v, True))"

lemma of_char_digit_char: "d < 10 \<Longrightarrow> (of_char (digit_char d) :: nat) = 48 + d"
  by (simp add: digit_char_def of_char_of)

lemma digit_val_char [simp]: "d < 10 \<Longrightarrow> digit_val (digit_char d) = d"
  by (simp add: digit_val_def of_char_digit_char)

lemma is_digit_char [simp]: "d < 10 \<Longrightarrow> is_digit (digit_char d)"
  by (simp add: is_digit_def of_char_digit_char)

lemma digits_val_snoc [simp]: "digits_val (s @ [c]) = 10 * digits_val s + digit_val c"
  by (simp add: digits_val_def)

lemma digits_val_show_nat [simp]: "digits_val (show_nat n) = n"
proof (induction n rule: show_nat.induct)
  case (1 n)
  show ?case
  proof (cases "n < 10")
    case True
    then show ?thesis by (subst show_nat.simps) (simp add: digits_val_def)
  next
    case False
    with 1 have "digits_val (show_nat (n div 10)) = n div 10" by blast
    with False show ?thesis by (subst show_nat.simps) simp
  qed
qed

lemma all_digits_show_nat [simp]: "list_all is_digit (show_nat n)"
proof (induction n rule: show_nat.induct)
  case (1 n)
  then show ?case by (subst show_nat.simps) simp
qed

lemma show_nat_not_Nil [simp]: "show_nat n \<noteq> []"
  by (subst show_nat.simps) simp

lemma show_nat_inject [simp]: "show_nat m = show_nat n \<longleftrightarrow> m = n"
  by (metis digits_val_show_nat)

lemma non_digit_notin_show_nat: "\<not> is_digit c \<Longrightarrow> c \<notin> set (show_nat n)"
  using all_digits_show_nat [of n] by (auto simp: list_all_iff)

lemma hd_show_nat_not_sign:
  "\<not> is_digit c \<Longrightarrow> hd (show_nat n) \<noteq> c"
  by (metis hd_in_set non_digit_notin_show_nat show_nat_not_Nil)

lemma sign_show_nat: "CHR ''-'' # s \<noteq> show_nat n"
proof
  assume "CHR ''-'' # s = show_nat n"
  then have "hd (show_nat n) = CHR ''-''" by (metis list.sel(1))
  with hd_show_nat_not_sign [of "CHR ''-''" n] show False by (simp add: is_digit_def)
qed

lemma show_int_inject: "show_int i = show_int j \<longleftrightarrow> i = j"
  by (auto simp: show_int_def sign_show_nat sign_show_nat [symmetric])

lemma parse_int64_show_int:
  assumes "int64_min \<le> i" and "i \<le> int64_max"
  shows "parse_int64 (show_int i) = (i, True)"
proof (cases "i < 0")
  case True
  with assms show ?thesis by (simp add: parse_int64_def show_int_def)
next
  case False
  define n where "n = nat i"
  have i: "i = int n" using False by (simp add: n_def)
  obtain c r where cr: "show_nat n = c # r" by (meson neq_Nil_conv show_nat_not_Nil)
  have "is_digit c" using all_digits_show_nat [of n] by (simp add: cr)
  then have "c \<noteq> CHR ''-''" and "c \<noteq> CHR ''+''" by (auto simp: is_digit_def)
  moreover have "list_all is_digit (c # r)" using all_digits_show_nat [of n] by (simp add: cr)
  moreover have "digits_val (c # r) = n" using digits_val_show_nat [of n] by (simp add: cr)
  ultimately show ?thesis
    using assms False by (simp add: parse_int64_def show_int_def i cr int64_min_def)
qed

section \<open>Prefixes, joins, colons\<close>

definition has_prefix :: "string \<Rightarrow> string \<Rightarrow> bool" where
  "has_prefix p s \<longleftrightarrow> take (length p) s = p"

definition trim_prefix :: "string \<Rightarrow> string \<Rightarrow> string" where
  "trim_prefix p s = (if has_prefix p s then drop (length p) s else s)"

lemma has_prefix_iff: "has_prefix p s \<longleftrightarrow> (\<exists>r. s = p @ r)"
  unfolding has_prefix_def by (metis append_eq_conv_conj append_take_drop_id)

lemma has_prefix_append [simp]: "has_prefix p (p @ r)"
  by (simp add: has_prefix_iff)

lemma trim_prefix_append [simp]: "trim_prefix p (p @ r) = r"
  by (simp add: trim_prefix_def)

fun join_with :: "string \<Rightarrow> string list \<Rightarrow> string" where
  "join_with sep [] = ''''"
| "join_with sep [x] = x"
| "join_with sep (x # y # xs) = x @ sep @ join_with sep (y # xs)"

abbreviation colon :: char where "colon \<equiv> CHR '':''"

text \<open>The number of colons of a string, and strings without one.\<close>

definition colons :: "string \<Rightarrow> nat" where
  "colons s = count_list s colon"

abbreviation colon_free :: "string \<Rightarrow> bool" where
  "colon_free s \<equiv> colons s = 0"

lemma colons_simps [simp]:
  "colons [] = 0"
  "colons (c # s) = (if c = colon then Suc (colons s) else colons s)"
  "colons (s @ t) = colons s + colons t"
  by (simp_all add: colons_def)

lemma colon_free_show_nat [simp]: "colon_free (show_nat n)"
proof -
  have "\<not> is_digit colon" by (simp add: is_digit_def)
  then show ?thesis
    unfolding colons_def by (simp add: count_list_0_iff non_digit_notin_show_nat)
qed

text \<open>
  A composite key \<open>a:b\<close> determines its parts when the second ones have equally many colons,
  or when the first ones have none.
\<close>

lemma split_at_colon:
  assumes "x @ colon # a = y @ colon # b"
  obtains "x = y" "a = b"
  | r where "x = y @ colon # r" "b = r @ colon # a"
  | r where "y = x @ colon # r" "a = r @ colon # b"
proof -
  from assms obtain us where
    "x = y @ us \<and> us @ colon # a = colon # b \<or> x @ us = y \<and> colon # a = us @ colon # b"
    by (auto simp: append_eq_append_conv2)
  then show thesis using that by (cases us) auto
qed

lemma colon_key_eq:
  assumes "colons a = colons b"
  shows "x @ colon # a = y @ colon # b \<longleftrightarrow> x = y \<and> a = b"
proof
  assume "x @ colon # a = y @ colon # b"
  then show "x = y \<and> a = b"
    by (rule split_at_colon) (use assms in auto)
qed simp

lemma colon_label_eq:
  assumes "colon_free x" and "colon_free y"
  shows "x @ colon # a = y @ colon # b \<longleftrightarrow> x = y \<and> a = b"
proof
  assume "x @ colon # a = y @ colon # b"
  then show "x = y \<and> a = b"
    by (rule split_at_colon) (use assms in auto)
qed simp

end
