(* ===== verification/Go_Value.thy ===== *)
theory Go_Value
  imports Go_Text
begin

text \<open>
  The dynamically typed values (\<open>any\<close>) that properties, query rows and Bolt messages
  carry, what a value becomes when it is stored as JSON and read back, and the text
  \<open>fmt.Sprint\<close> makes of it. A float64 is its 64 bits. Strings are assumed to be valid
  UTF-8 where they reach JSON, which is what makes \<open>encoding/json\<close> keep them unchanged.
\<close>

datatype gval =
    VNil
  | VBool bool
  | VInt "64 word"
  | VFloat "64 word"
  | VStr string
  | VNilList
  | VList "gval list"
  | VNilMap
  | VMap "(string \<times> gval) list"
  | VMsg "8 word" "gval list"

text \<open>
  \<open>VInt\<close> stands for both \<open>int\<close> and \<open>int64\<close> (64 bits, read signed), \<open>VNilList\<close> and \<open>VNilMap\<close> for a nil slice
  and a nil map of the dynamic type, \<open>VMsg\<close> for the pointer to a decoded Bolt structure.
\<close>

section \<open>Floating-point bits\<close>

definition f64_exp :: "64 word \<Rightarrow> nat" where
  "f64_exp w = (unat w div 2 ^ 52) mod 2048"

definition f64_finite :: "64 word \<Rightarrow> bool" where
  "f64_finite w \<longleftrightarrow> f64_exp w \<noteq> 2047"

fun bit_len :: "nat \<Rightarrow> nat" where
  "bit_len n = (if n = 0 then 0 else Suc (bit_len (n div 2)))"

declare bit_len.simps [simp del]

text \<open>The float64 nearest to a natural number, ties to even.\<close>

definition f64_sig :: "nat \<Rightarrow> nat \<Rightarrow> nat" where
  "f64_sig n k =
     (if k \<le> 52 then n * 2 ^ (52 - k)
      else let sh = k - 52; q = n div 2 ^ sh; r = n mod 2 ^ sh; h = 2 ^ (sh - 1)
           in if h < r \<or> (r = h \<and> odd q) then q + 1 else q)"

definition f64_of_nat :: "nat \<Rightarrow> nat" where
  "f64_of_nat n = (if n = 0 then 0
     else let k = bit_len n - 1 in (k + 1023) * 2 ^ 52 + (f64_sig n k - 2 ^ 52))"

definition f64_of_int :: "int \<Rightarrow> 64 word" where
  "f64_of_int i = word_of_nat (f64_of_nat (nat \<bar>i\<bar>) + (if i < 0 then 2 ^ 63 else 0))"

lemma bit_len_0 [simp]: "bit_len 0 = 0"
  by (simp add: bit_len.simps)

lemma bit_len_pos: "0 < n \<Longrightarrow> bit_len n = Suc (bit_len (n div 2))"
  by (subst bit_len.simps) simp

lemma bit_len_le: "n < 2 ^ m \<Longrightarrow> bit_len n \<le> m"
proof (induction m arbitrary: n)
  case (Suc m)
  show ?case
  proof (cases "n = 0")
    case False
    from Suc.prems have "n div 2 < 2 ^ m" by (simp add: less_mult_imp_div_less)
    with Suc.IH have "bit_len (n div 2) \<le> m" .
    with False show ?thesis by (simp add: bit_len_pos)
  qed simp
qed simp

lemma less_two_pow_bit_len: "n < 2 ^ bit_len n"
proof (induction n rule: bit_len.induct)
  case (1 n)
  show ?case
  proof (cases "n = 0")
    case False
    with 1 have "n div 2 < 2 ^ bit_len (n div 2)" by blast
    then have "n < 2 * 2 ^ bit_len (n div 2)" by linarith
    with False show ?thesis by (simp add: bit_len_pos)
  qed simp
qed

lemma f64_sig_le:
  assumes "n < 2 ^ (k + 1)"
  shows "f64_sig n k \<le> 2 ^ 53"
proof (cases "k \<le> 52")
  case True
  have "n * 2 ^ (52 - k) \<le> 2 ^ (k + 1) * 2 ^ (52 - k)" using assms by simp
  also have "\<dots> = 2 ^ (53 :: nat)" using True by (simp flip: power_add)
  finally show ?thesis using True by (simp add: f64_sig_def)
next
  case False
  have "2 ^ (k + 1) = (2 :: nat) ^ 53 * 2 ^ (k - 52)"
    using False by (subst power_add [symmetric]) simp
  with assms have "n div 2 ^ (k - 52) < 2 ^ 53"
    by (simp add: less_mult_imp_div_less)
  then show ?thesis using False by (simp add: f64_sig_def Let_def)
qed

lemma f64_of_nat_less:
  assumes "n < 2 ^ 64"
  shows "f64_of_nat n < 2047 * 2 ^ 52"
proof (cases "n = 0")
  case False
  define k where "k = bit_len n - 1"
  from bit_len_le [OF assms] have "k \<le> 63" by (simp add: k_def)
  then have "(k + 1023) * 2 ^ 52 \<le> 1086 * 2 ^ (52 :: nat)" by simp
  moreover have "n < 2 ^ (k + 1)"
    using less_two_pow_bit_len [of n] False by (simp add: k_def bit_len_pos)
  then have "f64_sig n k \<le> 2 ^ 53" by (rule f64_sig_le)
  moreover have "f64_of_nat n = (k + 1023) * 2 ^ 52 + (f64_sig n k - 2 ^ 52)"
    using False by (simp add: f64_of_nat_def Let_def k_def)
  ultimately show ?thesis by simp
qed (simp add: f64_of_nat_def)

definition int64_ok :: "int \<Rightarrow> bool" where
  "int64_ok i \<longleftrightarrow> int64_min \<le> i \<and> i \<le> int64_max"

lemma f64_finite_of_int:
  assumes "int64_ok i"
  shows "f64_finite (f64_of_int i)"
proof -
  have "nat \<bar>i\<bar> < 2 ^ 64"
    using assms by (simp add: int64_ok_def int64_min_def int64_max_def nat_less_iff) linarith
  then have lt: "f64_of_nat (nat \<bar>i\<bar>) < 2047 * 2 ^ 52" by (rule f64_of_nat_less)
  define b where "b = f64_of_nat (nat \<bar>i\<bar>) div 2 ^ 52"
  have b: "b < 2047" using lt by (simp add: b_def less_mult_imp_div_less)
  define s :: nat where "s = (if i < 0 then 2048 else 0)"
  have "(f64_of_nat (nat \<bar>i\<bar>) + (if i < 0 then 2 ^ 63 else 0)) div 2 ^ 52 = b + s"
    using div_mult_self1 [of "2 ^ 52" "f64_of_nat (nat \<bar>i\<bar>)" 2048]
    by (cases "i < 0") (simp_all add: b_def s_def)
  moreover have "unat (f64_of_int i) = f64_of_nat (nat \<bar>i\<bar>) + (if i < 0 then 2 ^ 63 else 0)"
    unfolding f64_of_int_def unat_of_nat
    by (rule mod_less) (use lt in \<open>cases "i < 0"; simp\<close>)
  ultimately have "f64_exp (f64_of_int i) = (b + s) mod 2048" by (simp add: f64_exp_def)
  also have "\<dots> = b" using b by (simp add: s_def)
  finally show ?thesis using b by (simp add: f64_finite_def)
qed

section \<open>Values stored as JSON\<close>

text \<open>
  \<open>json.Marshal\<close> followed by \<open>json.Unmarshal\<close> into \<open>any\<close>: every number comes back as a
  float64, nil slices and maps as nil, a structure as a map of its exported fields; NaN and
  the infinities cannot be marshalled.
\<close>

fun json_norm :: "gval \<Rightarrow> gval option"
and json_norm_list :: "gval list \<Rightarrow> gval list option"
and json_norm_fields :: "(string \<times> gval) list \<Rightarrow> (string \<times> gval) list option" where
  "json_norm VNil = Some VNil"
| "json_norm (VBool b) = Some (VBool b)"
| "json_norm (VInt i) = Some (VFloat (f64_of_int (sint i)))"
| "json_norm (VFloat w) = (if f64_finite w then Some (VFloat w) else None)"
| "json_norm (VStr s) = Some (VStr s)"
| "json_norm VNilList = Some VNil"
| "json_norm (VList vs) = map_option VList (json_norm_list vs)"
| "json_norm VNilMap = Some VNil"
| "json_norm (VMap fs) = map_option VMap (json_norm_fields fs)"
| "json_norm (VMsg t fs) = map_option
     (\<lambda>vs. VMap [(''Type'', VFloat (f64_of_int (uint t))), (''Fields'', VList vs)])
     (json_norm_list fs)"
| "json_norm_list [] = Some []"
| "json_norm_list (v # vs) = (case json_norm v of None \<Rightarrow> None
     | Some w \<Rightarrow> map_option (\<lambda>ws. w # ws) (json_norm_list vs))"
| "json_norm_fields [] = Some []"
| "json_norm_fields ((k, v) # fs) = (case json_norm v of None \<Rightarrow> None
     | Some w \<Rightarrow> map_option (\<lambda>gs. (k, w) # gs) (json_norm_fields fs))"

lemma sint_int64_ok [simp]: "int64_ok (sint (i :: 64 word))"
  using sint_ge [of i] sint_lt [of i] by (simp add: int64_ok_def int64_min_def int64_max_def)

lemma uint_byte_int64_ok [simp]: "int64_ok (uint (t :: 8 word))"
proof -
  have "uint t < 2 ^ 8" using uint_lt2p [of t] by simp
  then have "uint t \<le> 2 ^ 63 - 1" by simp
  moreover have "- (2 ^ 63) \<le> uint t" by (rule order_trans [OF _ uint_ge_0]) simp
  ultimately show ?thesis by (simp add: int64_ok_def int64_min_def int64_max_def)
qed

text \<open>What was read back from the store is stored again unchanged.\<close>

lemma json_norm_stable:
  "json_norm v = Some w \<Longrightarrow> json_norm w = Some w"
  "json_norm_list vs = Some ws \<Longrightarrow> json_norm_list ws = Some ws"
  "json_norm_fields fs = Some gs \<Longrightarrow> json_norm_fields gs = Some gs"
  by (induction v and vs and fs arbitrary: w and ws and gs
      rule: json_norm_json_norm_list_json_norm_fields.induct)
    (auto simp: f64_finite_of_int split: if_splits option.splits)

lemma json_norm_fields_update:
  "json_norm_fields fs = Some gs \<Longrightarrow> json_norm v = Some w \<Longrightarrow>
    json_norm_fields (AList.update k v fs) = Some (AList.update k w gs)"
  by (induction fs arbitrary: gs rule: list.induct) (auto split: option.splits if_splits)

lemma json_norm_fields_updateD:
  "json_norm_fields (AList.update k v fs) = Some hs \<Longrightarrow> \<exists>w. json_norm v = Some w"
  by (induction fs arbitrary: hs) (auto split: option.splits if_splits)

lemma json_norm_fields_defined:
  "(\<exists>gs. json_norm_fields fs = Some gs) \<longleftrightarrow> (\<forall>kv \<in> set fs. json_norm (snd kv) \<noteq> None)"
  by (induction fs) (auto split: option.splits)

text \<open>Storing a merged property map merges the stored forms.\<close>

lemma json_norm_copy_into:
  "json_norm_fields src = Some s' \<Longrightarrow> json_norm_fields dst = Some d' \<Longrightarrow>
    json_norm_fields (copy_into src dst) = Some (copy_into s' d')"
proof (induction src arbitrary: s' dst d')
  case (Cons kv src)
  obtain k v where kv: "kv = (k, v)" by fastforce
  from Cons.prems(1) obtain w s'' where
    w: "json_norm v = Some w" "json_norm_fields src = Some s''" "s' = (k, w) # s''"
    by (auto simp: kv split: option.splits)
  from Cons.IH [OF w(2) json_norm_fields_update [OF Cons.prems(2) w(1)]]
  show ?case by (simp add: kv w(3))
qed simp

lemma json_norm_fields_keys:
  "json_norm_fields fs = Some gs \<Longrightarrow> map fst gs = map fst fs"
  by (induction fs arbitrary: gs) (auto split: option.splits)

lemma json_norm_copy_intoD:
  assumes "json_norm_fields (copy_into src dst) = Some r" and "distinct (map fst src)"
    and "distinct (map fst dst)"
  shows "\<exists>s'. json_norm_fields src = Some s'"
  unfolding json_norm_fields_defined
proof
  fix kv assume "kv \<in> set src"
  then have "map_of (copy_into src dst) (fst kv) = Some (snd kv)"
    using assms(2) by (simp add: map_of_copy_into map_add_Some_iff)
  then have "(fst kv, snd kv) \<in> set (copy_into src dst)" by (rule map_of_SomeD)
  with assms(1) json_norm_fields_defined [of "copy_into src dst"]
  show "json_norm (snd kv) \<noteq> None" by fastforce
qed

text \<open>The dynamic type of a value, as \<open>%T\<close> prints it.\<close>

definition type_name :: "gval \<Rightarrow> string" where
  "type_name v = (case v of
      VNil \<Rightarrow> ''<nil>'' | VBool _ \<Rightarrow> ''bool'' | VInt _ \<Rightarrow> ''int64'' | VFloat _ \<Rightarrow> ''float64''
    | VStr _ \<Rightarrow> ''string'' | VNilList \<Rightarrow> ''[]interface {}'' | VList _ \<Rightarrow> ''[]interface {}''
    | VNilMap \<Rightarrow> ''map[string]interface {}'' | VMap _ \<Rightarrow> ''map[string]interface {}''
    | VMsg _ _ \<Rightarrow> ''*server.BoltMessage'')"

section \<open>The text of a value\<close>

text \<open>
  \<open>fmt.Sprint\<close>. The shortest decimal text of a float64 and the address printed for a nested
  pointer are parameters, everything else is written out. Map entries print in key order.
\<close>

record gofmt =
  float_text :: "64 word \<Rightarrow> string"
  pointer_text :: "8 word \<Rightarrow> gval list \<Rightarrow> string"

fun sprint_in :: "gofmt \<Rightarrow> gval \<Rightarrow> string"
and sprint_list :: "gofmt \<Rightarrow> gval list \<Rightarrow> string list"
and sprint_fields :: "gofmt \<Rightarrow> (string \<times> gval) list \<Rightarrow> (string \<times> string) list" where
  "sprint_in F VNil = ''<nil>''"
| "sprint_in F (VBool b) = (if b then ''true'' else ''false'')"
| "sprint_in F (VInt i) = show_int (sint i)"
| "sprint_in F (VFloat w) = float_text F w"
| "sprint_in F (VStr s) = s"
| "sprint_in F VNilList = ''[]''"
| "sprint_in F (VList vs) = ''['' @ join_with '' '' (sprint_list F vs) @ '']''"
| "sprint_in F VNilMap = ''map[]''"
| "sprint_in F (VMap fs) = ''map['' @ join_with '' ''
     (map (\<lambda>(k, t). k @ '':'' @ t)
       (sort_by (\<lambda>a b. fst a < fst b) (sprint_fields F fs))) @ '']''"
| "sprint_in F (VMsg t fs) = pointer_text F t fs"
| "sprint_list F [] = []"
| "sprint_list F (v # vs) = sprint_in F v # sprint_list F vs"
| "sprint_fields F [] = []"
| "sprint_fields F ((k, v) # fs) = (k, sprint_in F v) # sprint_fields F fs"

definition sprint :: "gofmt \<Rightarrow> gval \<Rightarrow> string" where
  "sprint F v = (case v of
      VMsg t fs \<Rightarrow> ''&{'' @ show_nat (unat t) @ '' ['' @ join_with '' '' (sprint_list F fs) @ '']}''
    | _ \<Rightarrow> sprint_in F v)"

lemma sprint_simps [simp]:
  "sprint F VNil = ''<nil>''"
  "sprint F (VBool b) = (if b then ''true'' else ''false'')"
  "sprint F (VInt i) = show_int (sint i)"
  "sprint F (VFloat w) = float_text F w"
  "sprint F (VStr s) = s"
  by (simp_all add: sprint_def)

end
