(* ===== verification/Property_Graph.thy ===== *)
theory Property_Graph
  imports Go_Value
begin

text \<open>
  The data model of internal/graph/graph.go: nodes, edges, their JSON documents, and the
  interface \<open>Storage\<close>/\<open>IndexedStorage\<close> the engine calls, as a record of operations. The
  contract of that interface is the locale \<open>graph_storage\<close> over the abstract graph: a
  partial map of nodes and one of edges.
\<close>

section \<open>Nodes and edges\<close>

text \<open>
  \<open>None\<close> is the nil map of type \<open>Properties\<close>. Times are nanoseconds since 1970 in UTC.
\<close>

type_synonym props = "(string \<times> gval) list"

record node =
  n_id :: string
  n_label :: string
  n_props :: "props option"
  n_created :: int

record edge =
  e_id :: string
  e_label :: string
  e_from :: string
  e_to :: string
  e_props :: "props option"
  e_created :: int

abbreviation prop_list :: "props option \<Rightarrow> props" where
  "prop_list p \<equiv> (case p of None \<Rightarrow> [] | Some q \<Rightarrow> q)"

text \<open>A document whose year is outside 0 to 9999 cannot be marshalled.\<close>

definition json_time_ok :: "int \<Rightarrow> bool" where
  "json_time_ok t \<longleftrightarrow> -62167219200 * 10 ^ 9 \<le> t \<and> t < 253402300800 * 10 ^ 9"

definition props_json :: "props option \<Rightarrow> props option option" where
  "props_json p = (case p of None \<Rightarrow> Some None
     | Some q \<Rightarrow> map_option Some (json_norm_fields q))"

definition node_json :: "node \<Rightarrow> node option" where
  "node_json n = (if json_time_ok (n_created n)
     then map_option (\<lambda>p. n\<lparr>n_props := p\<rparr>) (props_json (n_props n)) else None)"

definition edge_json :: "edge \<Rightarrow> edge option" where
  "edge_json e = (if json_time_ok (e_created e)
     then map_option (\<lambda>p. e\<lparr>e_props := p\<rparr>) (props_json (e_props e)) else None)"

lemma node_json_fields:
  assumes "node_json n = Some m"
  shows "n_id m = n_id n" and "n_label m = n_label n" and "n_created m = n_created n"
    and "props_json (n_props n) = Some (n_props m)"
  using assms by (auto simp: node_json_def split: if_splits)

lemma edge_json_fields:
  assumes "edge_json e = Some f"
  shows "e_id f = e_id e" and "e_label f = e_label e" and "e_from f = e_from e"
    and "e_to f = e_to e" and "e_created f = e_created e"
    and "props_json (e_props e) = Some (e_props f)"
  using assms by (auto simp: edge_json_def split: if_splits)

lemma props_json_Some:
  "props_json (Some q) = Some p \<longleftrightarrow> (\<exists>r. json_norm_fields q = Some r \<and> p = Some r)"
  by (auto simp: props_json_def)

lemma props_json_stable: "props_json p = Some q \<Longrightarrow> props_json q = Some q"
  by (auto simp: props_json_def json_norm_stable(3) split: option.splits)

lemma node_json_stable: "node_json n = Some m \<Longrightarrow> node_json m = Some m"
  using props_json_stable [of "n_props n"]
  by (auto simp: node_json_def split: if_splits)

lemma edge_json_stable: "edge_json e = Some f \<Longrightarrow> edge_json f = Some f"
  using props_json_stable [of "e_props e"]
  by (auto simp: edge_json_def split: if_splits)

text \<open>A Go map has each key once.\<close>

definition props_ok :: "props option \<Rightarrow> bool" where
  "props_ok p \<longleftrightarrow> distinct (map fst (prop_list p))"

lemma props_json_ok: "props_json p = Some q \<Longrightarrow> props_ok p \<Longrightarrow> props_ok q"
  by (auto simp: props_json_def props_ok_def json_norm_fields_keys split: option.splits)

section \<open>The storage interface\<close>

record 's storage_ops =
  st_put_node :: "node \<Rightarrow> ('s, unit) go"
  st_get_node :: "string \<Rightarrow> ('s, node) go"
  st_delete_node :: "string \<Rightarrow> ('s, unit) go"
  st_put_edge :: "edge \<Rightarrow> ('s, unit) go"
  st_get_edge :: "string \<Rightarrow> ('s, edge) go"
  st_delete_edge :: "string \<Rightarrow> ('s, unit) go"
  st_nodes_by_label :: "string \<Rightarrow> ('s, node list) go"
  st_edges_by_node :: "string \<Rightarrow> ('s, edge list) go"
  st_node_ids_by_label :: "string \<Rightarrow> ('s, string list) go"
  st_out_ids :: "string \<Rightarrow> ('s, string list) go"
  st_in_ids :: "string \<Rightarrow> ('s, string list) go"
  st_edge_ids_by_label :: "string \<Rightarrow> ('s, string list) go"

text \<open>
  What the key scheme of the store needs of the documents put into it: labels of nodes
  without a colon, and edge identifiers of the shape \<open>e:LABEL:rest\<close> with two colons.
\<close>

definition node_ok :: "node \<Rightarrow> bool" where
  "node_ok n \<longleftrightarrow> colon_free (n_label n) \<and> props_ok (n_props n)"

definition edge_ok :: "edge \<Rightarrow> bool" where
  "edge_ok e \<longleftrightarrow> colons (e_id e) = 2 \<and> props_ok (e_props e)"

text \<open>A stored document is one that was read back from JSON.\<close>

definition stored_node :: "node \<Rightarrow> bool" where
  "stored_node n \<longleftrightarrow> node_ok n \<and> node_json n = Some n"

definition stored_edge :: "edge \<Rightarrow> bool" where
  "stored_edge e \<longleftrightarrow> edge_ok e \<and> edge_json e = Some e"

lemma stored_node_json: "node_ok n \<Longrightarrow> node_json n = Some m \<Longrightarrow> stored_node m"
  using node_json_fields [of n m] node_json_stable [of n m]
  by (auto simp: stored_node_def node_ok_def elim: props_json_ok)

lemma stored_edge_json: "edge_ok e \<Longrightarrow> edge_json e = Some f \<Longrightarrow> stored_edge f"
  using edge_json_fields [of e f] edge_json_stable [of e f]
  by (auto simp: stored_edge_def edge_ok_def elim: props_json_ok)

definition incident :: "string \<Rightarrow> edge \<Rightarrow> bool" where
  "incident i e \<longleftrightarrow> e_from e = i \<or> e_to e = i"

text \<open>
  The contract. A write either succeeds and is the corresponding update of the abstract
  graph, or it fails and changes nothing; no operation panics; every query answers exactly
  from the abstract graph.
\<close>

locale graph_storage =
  fixes ops :: "'s storage_ops"
    and inv :: "'s \<Rightarrow> bool"
    and nodes :: "'s \<Rightarrow> string \<Rightarrow> node option"
    and edges :: "'s \<Rightarrow> string \<Rightarrow> edge option"
  assumes keyed_node: "inv s \<Longrightarrow> nodes s i = Some n \<Longrightarrow> n_id n = i \<and> stored_node n"
    and keyed_edge: "inv s \<Longrightarrow> edges s i = Some e \<Longrightarrow> e_id e = i \<and> stored_edge e"
    and get_node: "inv s \<Longrightarrow> st_get_node ops i s =
          (case nodes s i of Some n \<Rightarrow> Ok n
             | None \<Rightarrow> Err (Msg (''node '' @ i @ '' not found'')), s)"
    and get_edge: "inv s \<Longrightarrow> st_get_edge ops i s =
          (case edges s i of Some e \<Rightarrow> Ok e
             | None \<Rightarrow> Err (Msg (''edge '' @ i @ '' not found'')), s)"
    and put_node: "inv s \<Longrightarrow> node_ok n \<Longrightarrow> st_put_node ops n s = (r, t) \<Longrightarrow>
          inv t \<and> edges t = edges s \<and> r \<noteq> Panic \<and>
          (r = Ok () \<longrightarrow> (\<exists>m. node_json n = Some m \<and> nodes t = (nodes s)(n_id n \<mapsto> m))) \<and>
          (r \<noteq> Ok () \<longrightarrow> t = s)"
    and put_edge: "inv s \<Longrightarrow> edge_ok e \<Longrightarrow> st_put_edge ops e s = (r, t) \<Longrightarrow>
          inv t \<and> nodes t = nodes s \<and> r \<noteq> Panic \<and>
          (r = Ok () \<longrightarrow> (\<exists>f. edge_json e = Some f \<and> edges t = (edges s)(e_id e \<mapsto> f))) \<and>
          (r \<noteq> Ok () \<longrightarrow> t = s)"
    and delete_node: "inv s \<Longrightarrow> st_delete_node ops i s = (r, t) \<Longrightarrow>
          inv t \<and> r \<noteq> Panic \<and>
          (r = Ok () \<longrightarrow> nodes t = (nodes s)(i := None) \<and>
             edges t = (\<lambda>k. case edges s k of None \<Rightarrow> None
               | Some e \<Rightarrow> if nodes s i \<noteq> None \<and> incident i e then None else Some e)) \<and>
          (r \<noteq> Ok () \<longrightarrow> t = s)"
    and delete_edge: "inv s \<Longrightarrow> st_delete_edge ops k s = (r, t) \<Longrightarrow>
          inv t \<and> nodes t = nodes s \<and> r \<noteq> Panic \<and>
          (r = Ok () \<longrightarrow> edges t = (edges s)(k := None)) \<and> (r \<noteq> Ok () \<longrightarrow> t = s)"
    and nodes_by_label: "inv s \<Longrightarrow> colon_free l \<Longrightarrow>
          \<exists>ns. st_nodes_by_label ops l s = (Ok ns, s) \<and> distinct (map n_id ns) \<and>
            set ns = {n. nodes s (n_id n) = Some n \<and> n_label n = l}"
    and edges_by_node: "inv s \<Longrightarrow>
          \<exists>es. st_edges_by_node ops i s = (Ok es, s) \<and> distinct (map e_id es) \<and>
            set es = {e. edges s (e_id e) = Some e \<and> incident i e}"

end
