(* ===== verification/Secondary_Index.thy ===== *)
theory Secondary_Index
  imports Property_Graph
begin

text \<open>
  BadgerDB as a parameter, and internal/index/index.go on top of it: the secondary index
  entries of nodes and edges and the prefix scans that read them. A stored value is the
  document it decodes to.
\<close>

section \<open>The key-value store\<close>

datatype entry = ENode node | EEdge edge | EIdx

text \<open>
  A transaction's view of the database: reads, writes, the keys with a prefix in
  iteration order, and the commit. Writes and commits may fail.
\<close>

record 's kvops =
  kv_get :: "'s \<Rightarrow> string \<Rightarrow> gerr + entry"
  kv_set :: "string \<Rightarrow> entry \<Rightarrow> 's \<Rightarrow> gerr + 's"
  kv_delete :: "string \<Rightarrow> 's \<Rightarrow> gerr + 's"
  kv_keys :: "'s \<Rightarrow> string \<Rightarrow> string list"
  kv_commit :: "'s \<Rightarrow> gerr + 's"

definition kv_view :: "'s kvops \<Rightarrow> 's \<Rightarrow> string \<Rightarrow> entry option" where
  "kv_view kv s k = (case kv_get kv s k of Inl _ \<Rightarrow> None | Inr e \<Rightarrow> Some e)"

text \<open>
  The documented behaviour the code relies on: the only error of a read is
  \<open>ErrKeyNotFound\<close>; a write that succeeds is visible to the reads after it; an iteration
  visits exactly the keys with the prefix, once each; a commit that succeeds keeps the
  transaction's view; a delete in a transaction below the batch limits succeeds.
\<close>

definition kv_laws :: "'s kvops \<Rightarrow> bool" where
  "kv_laws kv \<longleftrightarrow>
     (\<forall>s k e. kv_get kv s k = Inl e \<longrightarrow> e = KeyNotFound) \<and>
     (\<forall>s k e t. kv_set kv k e s = Inr t \<longrightarrow> kv_view kv t = (kv_view kv s)(k \<mapsto> e)) \<and>
     (\<forall>s k. \<exists>t. kv_delete kv k s = Inr t \<and> kv_view kv t = (kv_view kv s)(k := None)) \<and>
     (\<forall>s p. distinct (kv_keys kv s p) \<and>
        set (kv_keys kv s p) = {k. kv_view kv s k \<noteq> None \<and> has_prefix p k}) \<and>
     (\<forall>s t. kv_commit kv s = Inr t \<longrightarrow> kv_view kv t = kv_view kv s)"

definition lift_kv :: "('s \<Rightarrow> gerr + 's) \<Rightarrow> ('s, unit) go" where
  "lift_kv f = (\<lambda>s. case f s of Inl e \<Rightarrow> (Err e, s) | Inr t \<Rightarrow> (Ok (), t))"

definition txn_get :: "'s kvops \<Rightarrow> string \<Rightarrow> ('s, entry) go" where
  "txn_get kv k = (\<lambda>s. (case kv_get kv s k of Inl e \<Rightarrow> Err e | Inr v \<Rightarrow> Ok v, s))"

definition txn_set :: "'s kvops \<Rightarrow> string \<Rightarrow> entry \<Rightarrow> ('s, unit) go" where
  "txn_set kv k e = lift_kv (kv_set kv k e)"

definition txn_delete :: "'s kvops \<Rightarrow> string \<Rightarrow> ('s, unit) go" where
  "txn_delete kv k = lift_kv (kv_delete kv k)"

text \<open>\<open>db.Update\<close>: the body runs in a transaction that is committed or discarded.\<close>

definition db_update :: "'s kvops \<Rightarrow> ('s, unit) go \<Rightarrow> ('s, unit) go" where
  "db_update kv body = (\<lambda>s. case body s of
      (Ok _, t) \<Rightarrow> (case kv_commit kv t of Inl e \<Rightarrow> (Err e, s) | Inr t' \<Rightarrow> (Ok (), t'))
    | (Err e, t) \<Rightarrow> (Err e, s)
    | (Panic, t) \<Rightarrow> (Panic, s))"

lemma txn_get_view:
  assumes "kv_laws kv"
  shows "txn_get kv k s =
    (case kv_view kv s k of None \<Rightarrow> Err KeyNotFound | Some e \<Rightarrow> Ok e, s)"
  using assms by (auto simp: txn_get_def kv_view_def kv_laws_def split: sum.splits)

lemma txn_set_cases:
  assumes "kv_laws kv"
  obtains (ok) t where "txn_set kv k e s = (Ok (), t)" "kv_view kv t = (kv_view kv s)(k \<mapsto> e)"
  | (err) x where "txn_set kv k e s = (Err x, s)"
  using assms by (cases "kv_set kv k e s") (auto simp: txn_set_def lift_kv_def kv_laws_def)

lemma txn_delete_view:
  assumes "kv_laws kv"
  obtains t where "txn_delete kv k s = (Ok (), t)" "kv_view kv t = (kv_view kv s)(k := None)"
proof -
  from assms obtain t where
    "kv_delete kv k s = Inr t" "kv_view kv t = (kv_view kv s)(k := None)"
    unfolding kv_laws_def by blast
  then show thesis using that by (simp add: txn_delete_def lift_kv_def)
qed

lemma kv_keys_view:
  assumes "kv_laws kv"
  shows "distinct (kv_keys kv s p)"
    and "set (kv_keys kv s p) = {k. kv_view kv s k \<noteq> None \<and> has_prefix p k}"
  using assms by (simp_all add: kv_laws_def)

section \<open>Index keys\<close>

definition lbl_key :: "string \<Rightarrow> string \<Rightarrow> string" where
  "lbl_key l i = ''i:lbl:'' @ l @ '':'' @ i"

definition out_key :: "string \<Rightarrow> string \<Rightarrow> string" where
  "out_key i e = ''i:out:'' @ i @ '':'' @ e"

definition in_key :: "string \<Rightarrow> string \<Rightarrow> string" where
  "in_key i e = ''i:in:'' @ i @ '':'' @ e"

definition elbl_key :: "string \<Rightarrow> string \<Rightarrow> string" where
  "elbl_key l e = ''i:elbl:'' @ l @ '':'' @ e"

lemmas index_key_defs = lbl_key_def out_key_def in_key_def elbl_key_def

section \<open>Maintenance and scans\<close>

definition IndexNode :: "'s kvops \<Rightarrow> node \<Rightarrow> ('s, unit) go" where
  "IndexNode kv n = txn_set kv (lbl_key (n_label n) (n_id n)) EIdx"

definition DeindexNode :: "'s kvops \<Rightarrow> node \<Rightarrow> ('s, unit) go" where
  "DeindexNode kv n = txn_delete kv (lbl_key (n_label n) (n_id n))"

definition IndexEdge :: "'s kvops \<Rightarrow> edge \<Rightarrow> ('s, unit) go" where
  "IndexEdge kv e =
     go_bind (txn_set kv (out_key (e_from e) (e_id e)) EIdx) (\<lambda>_.
     go_bind (txn_set kv (in_key (e_to e) (e_id e)) EIdx) (\<lambda>_.
     txn_set kv (elbl_key (e_label e) (e_id e)) EIdx))"

definition DeindexEdge :: "'s kvops \<Rightarrow> edge \<Rightarrow> ('s, unit) go" where
  "DeindexEdge kv e =
     go_bind (txn_delete kv (out_key (e_from e) (e_id e))) (\<lambda>_.
     go_bind (txn_delete kv (in_key (e_to e) (e_id e))) (\<lambda>_.
     txn_delete kv (elbl_key (e_label e) (e_id e))))"

text \<open>A scan collects what follows the prefix in each key that has it.\<close>

definition scan_ids :: "'s kvops \<Rightarrow> string \<Rightarrow> 's \<Rightarrow> string list" where
  "scan_ids kv p s = map (trim_prefix p) (kv_keys kv s p)"

definition idx_NodesByLabel :: "'s kvops \<Rightarrow> string \<Rightarrow> 's \<Rightarrow> string list" where
  "idx_NodesByLabel kv l s = scan_ids kv (lbl_key l '''') s"

definition OutgoingEdges :: "'s kvops \<Rightarrow> string \<Rightarrow> 's \<Rightarrow> string list" where
  "OutgoingEdges kv i s = scan_ids kv (out_key i '''') s"

definition IncomingEdges :: "'s kvops \<Rightarrow> string \<Rightarrow> 's \<Rightarrow> string list" where
  "IncomingEdges kv i s = scan_ids kv (in_key i '''') s"

definition EdgesByLabel :: "'s kvops \<Rightarrow> string \<Rightarrow> 's \<Rightarrow> string list" where
  "EdgesByLabel kv l s = scan_ids kv (elbl_key l '''') s"

lemma set_scan_ids:
  assumes "kv_laws kv"
  shows "set (scan_ids kv p s) = {r. kv_view kv s (p @ r) \<noteq> None}"
proof (intro set_eqI iffI)
  fix r assume "r \<in> set (scan_ids kv p s)"
  then show "r \<in> {r. kv_view kv s (p @ r) \<noteq> None}"
    by (auto simp: scan_ids_def kv_keys_view [OF assms] has_prefix_iff)
next
  fix r assume "r \<in> {r. kv_view kv s (p @ r) \<noteq> None}"
  then have "p @ r \<in> set (kv_keys kv s p)" by (simp add: kv_keys_view [OF assms])
  then have "trim_prefix p (p @ r) \<in> set (scan_ids kv p s)"
    unfolding scan_ids_def by (simp del: trim_prefix_append)
  then show "r \<in> set (scan_ids kv p s)" by simp
qed

lemma distinct_scan_ids:
  assumes "kv_laws kv"
  shows "distinct (scan_ids kv p s)"
  unfolding scan_ids_def distinct_map
  by (auto simp: kv_keys_view [OF assms] has_prefix_iff intro!: inj_onI)

lemma IndexNode_cases:
  assumes "kv_laws kv"
  obtains (ok) t where "IndexNode kv n s = (Ok (), t)"
    "kv_view kv t = (kv_view kv s)(lbl_key (n_label n) (n_id n) \<mapsto> EIdx)"
  | (err) x where "IndexNode kv n s = (Err x, s)"
  unfolding IndexNode_def using txn_set_cases [OF assms] by metis

lemma DeindexNode_view:
  assumes "kv_laws kv"
  obtains t where "DeindexNode kv n s = (Ok (), t)"
    "kv_view kv t = (kv_view kv s)(lbl_key (n_label n) (n_id n) := None)"
  unfolding DeindexNode_def using txn_delete_view [OF assms] by metis

text \<open>The three entries of an edge, set or removed together.\<close>

definition edge_keys :: "edge \<Rightarrow> string set" where
  "edge_keys e = {out_key (e_from e) (e_id e), in_key (e_to e) (e_id e),
                  elbl_key (e_label e) (e_id e)}"

lemma IndexEdge_cases:
  assumes laws: "kv_laws kv"
  obtains (ok) t where "IndexEdge kv e s = (Ok (), t)"
    "kv_view kv t = (\<lambda>k. if k \<in> edge_keys e then Some EIdx else kv_view kv s k)"
  | (err) x t where "IndexEdge kv e s = (Err x, t)"
proof -
  note set_cases = txn_set_cases [OF laws]
  let ?o = "out_key (e_from e) (e_id e)" and ?i = "in_key (e_to e) (e_id e)"
    and ?l = "elbl_key (e_label e) (e_id e)"
  consider (out_err) x where "txn_set kv ?o EIdx s = (Err x, s)"
    | (in_err) x t1 where "txn_set kv ?o EIdx s = (Ok (), t1)" "txn_set kv ?i EIdx t1 = (Err x, t1)"
    | (all) t1 t2 where "txn_set kv ?o EIdx s = (Ok (), t1)"
        "kv_view kv t1 = (kv_view kv s)(?o \<mapsto> EIdx)"
        "txn_set kv ?i EIdx t1 = (Ok (), t2)" "kv_view kv t2 = (kv_view kv t1)(?i \<mapsto> EIdx)"
    by (metis set_cases)
  then show thesis
  proof cases
    case out_err
    then show thesis by (intro that(2) [of x s]) (simp add: IndexEdge_def go_simps)
  next
    case in_err
    then show thesis by (intro that(2) [of x t1]) (simp add: IndexEdge_def go_simps)
  next
    case all
    show thesis
    proof (rule set_cases [of ?l EIdx t2])
      fix t3 assume "txn_set kv ?l EIdx t2 = (Ok (), t3)"
        "kv_view kv t3 = (kv_view kv t2)(?l \<mapsto> EIdx)"
      with all show thesis
        by (intro that(1) [of t3]) (auto simp: IndexEdge_def go_simps edge_keys_def fun_eq_iff)
    next
      fix x assume "txn_set kv ?l EIdx t2 = (Err x, t2)"
      with all show thesis by (intro that(2) [of x t2]) (simp add: IndexEdge_def go_simps)
    qed
  qed
qed

lemma DeindexEdge_view:
  assumes laws: "kv_laws kv"
  obtains t where "DeindexEdge kv e s = (Ok (), t)"
    "kv_view kv t = (\<lambda>k. if k \<in> edge_keys e then None else kv_view kv s k)"
proof -
  obtain t1 where 1: "txn_delete kv (out_key (e_from e) (e_id e)) s = (Ok (), t1)"
      "kv_view kv t1 = (kv_view kv s)(out_key (e_from e) (e_id e) := None)"
    by (rule txn_delete_view [OF laws])
  obtain t2 where 2: "txn_delete kv (in_key (e_to e) (e_id e)) t1 = (Ok (), t2)"
      "kv_view kv t2 = (kv_view kv t1)(in_key (e_to e) (e_id e) := None)"
    by (rule txn_delete_view [OF laws])
  obtain t3 where 3: "txn_delete kv (elbl_key (e_label e) (e_id e)) t2 = (Ok (), t3)"
      "kv_view kv t3 = (kv_view kv t2)(elbl_key (e_label e) (e_id e) := None)"
    by (rule txn_delete_view [OF laws])
  from 1 2 3 show thesis
    by (intro that [of t3]) (auto simp: DeindexEdge_def go_simps edge_keys_def fun_eq_iff)
qed

end
