(* ===== verification/Badger_Storage.thy ===== *)
theory Badger_Storage
  imports Secondary_Index
begin

text \<open>
  internal/storage/badger.go: the storage backend. Documents live under \<open>node:\<close> and
  \<open>edge:\<close> keys, index entries beside them; every write is one transaction. The invariant
  \<open>wf_view\<close> says that the index entries mirror the documents exactly; the last section
  shows that the backend meets the contract \<open>graph_storage\<close>.
\<close>

section \<open>Operations\<close>

definition node_key :: "string \<Rightarrow> string" where "node_key i = ''node:'' @ i"
definition edge_key :: "string \<Rightarrow> string" where "edge_key i = ''edge:'' @ i"

text \<open>
  \<open>json.Unmarshal\<close> of a stored document into a node: a document of an edge has the same
  fields, an empty value is a syntax error.
\<close>

definition decode_node :: "entry \<Rightarrow> gerr + node" where
  "decode_node x = (case x of
      ENode n \<Rightarrow> Inr n
    | EEdge e \<Rightarrow> Inr \<lparr>n_id = e_id e, n_label = e_label e, n_props = e_props e,
                     n_created = e_created e\<rparr>
    | EIdx \<Rightarrow> Inl (Msg ''unexpected end of JSON input''))"

definition decode_edge :: "entry \<Rightarrow> gerr + edge" where
  "decode_edge x = (case x of
      EEdge e \<Rightarrow> Inr e
    | ENode n \<Rightarrow> Inr \<lparr>e_id = n_id n, e_label = n_label n, e_from = '''', e_to = '''',
                     e_props = n_props n, e_created = n_created n\<rparr>
    | EIdx \<Rightarrow> Inl (Msg ''unexpected end of JSON input''))"

definition go_sum :: "gerr + 'a \<Rightarrow> ('s, 'a) go" where
  "go_sum r = (case r of Inl e \<Rightarrow> go_raise e | Inr x \<Rightarrow> go_ret x)"

definition getNodeInTxn :: "'s kvops \<Rightarrow> string \<Rightarrow> ('s, node) go" where
  "getNodeInTxn kv i = go_bind (txn_get kv (node_key i)) (\<lambda>x. go_sum (decode_node x))"

definition getEdgeInTxn :: "'s kvops \<Rightarrow> string \<Rightarrow> ('s, edge) go" where
  "getEdgeInTxn kv i = go_bind (txn_get kv (edge_key i)) (\<lambda>x. go_sum (decode_edge x))"

definition json_error :: gerr where
  "json_error = Msg ''json: unsupported value''"

definition PutNode :: "'s kvops \<Rightarrow> node \<Rightarrow> ('s, unit) go" where
  "PutNode kv n = (case node_json n of
      None \<Rightarrow> go_raise json_error
    | Some doc \<Rightarrow> db_update kv
        (go_bind (go_bind (go_try (getNodeInTxn kv (n_id n))) (\<lambda>old. case old of
            Inr o' \<Rightarrow> DeindexNode kv o'
          | Inl _ \<Rightarrow> go_ret ())) (\<lambda>_.
         go_bind (txn_set kv (node_key (n_id n)) (ENode doc)) (\<lambda>_.
         IndexNode kv n))))"

definition GetNode :: "'s kvops \<Rightarrow> string \<Rightarrow> ('s, node) go" where
  "GetNode kv i = go_bind (go_try (getNodeInTxn kv i)) (\<lambda>r. case r of
      Inr n \<Rightarrow> go_ret n
    | Inl e \<Rightarrow> go_raise (if e = KeyNotFound then Msg (''node '' @ i @ '' not found'') else e))"

text \<open>
  The index scans inside \<open>DeleteNode\<close> open a read-only view of their own: they see the
  committed state, not the transaction's.
\<close>

definition delete_incident :: "'s kvops \<Rightarrow> string list \<Rightarrow> ('s, unit) go" where
  "delete_incident kv ids = go_for ids (\<lambda>eid.
     go_bind (go_try (getEdgeInTxn kv eid)) (\<lambda>r. case r of
        Inl _ \<Rightarrow> go_ret ()
      | Inr e \<Rightarrow> go_bind (go_ignore (DeindexEdge kv e)) (\<lambda>_.
                 go_ignore (txn_delete kv (edge_key eid)))))"

definition DeleteNode :: "'s kvops \<Rightarrow> string \<Rightarrow> ('s, unit) go" where
  "DeleteNode kv i = (\<lambda>s. db_update kv
     (go_bind (go_try (getNodeInTxn kv i)) (\<lambda>r. case r of
        Inl e \<Rightarrow> if e = KeyNotFound then go_ret () else go_raise e
      | Inr n \<Rightarrow>
          go_bind (delete_incident kv
                     (first_seen [] (OutgoingEdges kv i s @ IncomingEdges kv i s))) (\<lambda>_.
          go_bind (DeindexNode kv n) (\<lambda>_.
          txn_delete kv (node_key i))))) s)"

definition PutEdge :: "'s kvops \<Rightarrow> edge \<Rightarrow> ('s, unit) go" where
  "PutEdge kv e = (case edge_json e of
      None \<Rightarrow> go_raise json_error
    | Some doc \<Rightarrow> db_update kv
        (go_bind (go_bind (go_try (getEdgeInTxn kv (e_id e))) (\<lambda>old. case old of
            Inr o' \<Rightarrow> DeindexEdge kv o'
          | Inl _ \<Rightarrow> go_ret ())) (\<lambda>_.
         go_bind (txn_set kv (edge_key (e_id e)) (EEdge doc)) (\<lambda>_.
         IndexEdge kv e))))"

definition GetEdge :: "'s kvops \<Rightarrow> string \<Rightarrow> ('s, edge) go" where
  "GetEdge kv i = go_bind (go_try (getEdgeInTxn kv i)) (\<lambda>r. case r of
      Inr e \<Rightarrow> go_ret e
    | Inl x \<Rightarrow> go_raise (if x = KeyNotFound then Msg (''edge '' @ i @ '' not found'') else x))"

definition DeleteEdge :: "'s kvops \<Rightarrow> string \<Rightarrow> ('s, unit) go" where
  "DeleteEdge kv i = db_update kv
     (go_bind (go_bind (go_try (getEdgeInTxn kv i)) (\<lambda>r. case r of
        Inr e \<Rightarrow> DeindexEdge kv e
      | Inl _ \<Rightarrow> go_ret ())) (\<lambda>_.
      txn_delete kv (edge_key i)))"

definition NodesByLabel :: "'s kvops \<Rightarrow> string \<Rightarrow> ('s, node list) go" where
  "NodesByLabel kv l = (\<lambda>s. go_collect (idx_NodesByLabel kv l s) (\<lambda>i.
     go_bind (go_try (GetNode kv i)) (\<lambda>r. case r of
        Inl _ \<Rightarrow> go_ret [] | Inr n \<Rightarrow> go_ret [n])) s)"

definition EdgesByNode :: "'s kvops \<Rightarrow> string \<Rightarrow> ('s, edge list) go" where
  "EdgesByNode kv i = (\<lambda>s. go_collect
     (first_seen [] (OutgoingEdges kv i s @ IncomingEdges kv i s)) (\<lambda>eid.
       go_bind (go_try (GetEdge kv eid)) (\<lambda>r. case r of
          Inl _ \<Rightarrow> go_ret [] | Inr e \<Rightarrow> go_ret [e])) s)"

definition badger_storage :: "'s kvops \<Rightarrow> 's storage_ops" where
  "badger_storage kv = \<lparr>
     st_put_node = PutNode kv, st_get_node = GetNode kv, st_delete_node = DeleteNode kv,
     st_put_edge = PutEdge kv, st_get_edge = GetEdge kv, st_delete_edge = DeleteEdge kv,
     st_nodes_by_label = NodesByLabel kv, st_edges_by_node = EdgesByNode kv,
     st_node_ids_by_label = (\<lambda>l s. (Ok (idx_NodesByLabel kv l s), s)),
     st_out_ids = (\<lambda>i s. (Ok (OutgoingEdges kv i s), s)),
     st_in_ids = (\<lambda>i s. (Ok (IncomingEdges kv i s), s)),
     st_edge_ids_by_label = (\<lambda>l s. (Ok (EdgesByLabel kv l s), s))\<rparr>"

section \<open>The invariant of the key space\<close>

text \<open>The abstract graph a view of the database holds.\<close>

definition node_at :: "(string \<Rightarrow> entry option) \<Rightarrow> string \<Rightarrow> node option" where
  "node_at v i = (case v (node_key i) of Some (ENode n) \<Rightarrow> Some n | _ \<Rightarrow> None)"

definition edge_at :: "(string \<Rightarrow> entry option) \<Rightarrow> string \<Rightarrow> edge option" where
  "edge_at v i = (case v (edge_key i) of Some (EEdge e) \<Rightarrow> Some e | _ \<Rightarrow> None)"

text \<open>
  The keys with prefix \<open>p\<close> are exactly \<open>p\<close>, a field of a document, a colon and the
  identifier of the document.
\<close>

definition mirrors ::
  "string \<Rightarrow> ('d \<Rightarrow> string) \<Rightarrow> (string \<Rightarrow> 'd option) \<Rightarrow> (string \<Rightarrow> entry option) \<Rightarrow> bool" where
  "mirrors p fld f v \<longleftrightarrow>
     (\<forall>r. v (p @ r) \<noteq> None \<longleftrightarrow> (\<exists>j m. f j = Some m \<and> r = fld m @ colon # j))"

definition nodes_wf :: "(string \<Rightarrow> entry option) \<Rightarrow> bool" where
  "nodes_wf v \<longleftrightarrow>
     (\<forall>i x. v (node_key i) = Some x \<longrightarrow> (\<exists>n. x = ENode n \<and> n_id n = i \<and> stored_node n)) \<and>
     mirrors ''i:lbl:'' n_label (node_at v) v"

definition edges_wf :: "(string \<Rightarrow> entry option) \<Rightarrow> bool" where
  "edges_wf v \<longleftrightarrow>
     (\<forall>i x. v (edge_key i) = Some x \<longrightarrow> (\<exists>e. x = EEdge e \<and> e_id e = i \<and> stored_edge e)) \<and>
     mirrors ''i:out:'' e_from (edge_at v) v \<and>
     mirrors ''i:in:'' e_to (edge_at v) v \<and>
     mirrors ''i:elbl:'' e_label (edge_at v) v"

definition wf_view :: "(string \<Rightarrow> entry option) \<Rightarrow> bool" where
  "wf_view v \<longleftrightarrow> nodes_wf v \<and> edges_wf v"

lemmas key_defs = node_key_def edge_key_def index_key_defs

text \<open>Documents and their index entries, removed or added together.\<close>

definition v_del_node :: "string \<Rightarrow> (string \<Rightarrow> entry option) \<Rightarrow> string \<Rightarrow> entry option" where
  "v_del_node i v = (case node_at v i of
      None \<Rightarrow> v(node_key i := None)
    | Some n \<Rightarrow> v(lbl_key (n_label n) i := None, node_key i := None))"

definition v_ins_node :: "node \<Rightarrow> (string \<Rightarrow> entry option) \<Rightarrow> string \<Rightarrow> entry option" where
  "v_ins_node n v = v(node_key (n_id n) \<mapsto> ENode n, lbl_key (n_label n) (n_id n) \<mapsto> EIdx)"

definition v_del_edge :: "string \<Rightarrow> (string \<Rightarrow> entry option) \<Rightarrow> string \<Rightarrow> entry option" where
  "v_del_edge i v = (case edge_at v i of
      None \<Rightarrow> v(edge_key i := None)
    | Some e \<Rightarrow> (\<lambda>k. if k = edge_key i \<or> k \<in> edge_keys e then None else v k))"

definition v_ins_edge :: "edge \<Rightarrow> (string \<Rightarrow> entry option) \<Rightarrow> string \<Rightarrow> entry option" where
  "v_ins_edge e v = (\<lambda>k. if k \<in> edge_keys e then Some EIdx
     else if k = edge_key (e_id e) then Some (EEdge e) else v k)"

lemma node_atD:
  assumes "nodes_wf v" and "node_at v i = Some n"
  shows "v (node_key i) = Some (ENode n)" and "n_id n = i" and "colon_free (n_label n)"
  using assms unfolding nodes_wf_def node_at_def stored_node_def node_ok_def
  by (fastforce split: option.splits entry.splits)+

lemma edge_atD:
  assumes "edges_wf v" and "edge_at v i = Some e"
  shows "v (edge_key i) = Some (EEdge e)" and "e_id e = i" and "colons i = 2"
  using assms unfolding edges_wf_def edge_at_def stored_edge_def edge_ok_def
  by (fastforce split: option.splits entry.splits)+

lemma node_key_view:
  "nodes_wf v \<Longrightarrow> v (node_key i) = map_option ENode (node_at v i)"
  unfolding nodes_wf_def node_at_def by (cases "v (node_key i)") fastforce+

lemma edge_key_view:
  "edges_wf v \<Longrightarrow> v (edge_key i) = map_option EEdge (edge_at v i)"
  unfolding edges_wf_def edge_at_def by (cases "v (edge_key i)") fastforce+

lemma mirrors_lookup:
  assumes "mirrors p fld f v" and "f k = Some n"
    and "\<And>j m. f j = Some m \<Longrightarrow> x @ colon # k = fld m @ colon # j \<Longrightarrow> j = k"
  shows "v (p @ x @ colon # k) \<noteq> None \<longleftrightarrow> fld n = x"
proof
  assume "v (p @ x @ colon # k) \<noteq> None"
  then obtain j m where jm: "f j = Some m" "x @ colon # k = fld m @ colon # j"
    using assms(1) unfolding mirrors_def by blast
  with assms(3) have "j = k" by blast
  with jm assms(2) show "fld n = x" by simp
next
  assume "fld n = x"
  with assms(1,2) show "v (p @ x @ colon # k) \<noteq> None"
    unfolding mirrors_def by blast
qed

lemma mirrors_same:
  "mirrors p fld f v \<Longrightarrow> (\<And>r. w (p @ r) = v (p @ r)) \<Longrightarrow> mirrors p fld f w"
  by (simp add: mirrors_def)

lemma mirrors_del:
  assumes "mirrors p fld f v" and "f k = Some n"
    and "\<And>j m. f j = Some m \<Longrightarrow> fld m @ colon # j = fld n @ colon # k \<Longrightarrow> j = k"
    and "\<And>r. w (p @ r) = (if r = fld n @ colon # k then None else v (p @ r))"
  shows "mirrors p fld (f(k := None)) w"
  unfolding mirrors_def assms(4)
proof
  fix r
  have "v (p @ r) \<noteq> None \<longleftrightarrow> (\<exists>j m. f j = Some m \<and> r = fld m @ colon # j)"
    using assms(1) by (simp add: mirrors_def)
  then show "(if r = fld n @ colon # k then None else v (p @ r)) \<noteq> None \<longleftrightarrow>
      (\<exists>j m. (f(k := None)) j = Some m \<and> r = fld m @ colon # j)"
    using assms(2,3)
    by (intro derived_key_del [where f = f and K = "\<lambda>j m. fld m @ colon # j"])
qed

lemma mirrors_ins:
  assumes "mirrors p fld f v" and "f k = None"
    and "\<And>r. w (p @ r) = (if r = fld n @ colon # k then Some EIdx else v (p @ r))"
  shows "mirrors p fld (f(k \<mapsto> n)) w"
  unfolding mirrors_def assms(3) ex_upd_fresh [of f, OF assms(2)]
  using assms(1) by (simp add: mirrors_def)

lemma lbl_view:
  assumes "nodes_wf v" and "node_at v i = Some n" and "colon_free l"
  shows "v (lbl_key l i) \<noteq> None \<longleftrightarrow> n_label n = l"
proof -
  have "v (''i:lbl:'' @ l @ colon # i) \<noteq> None \<longleftrightarrow> n_label n = l"
    by (rule mirrors_lookup [where f = "node_at v"])
      (use assms node_atD(3) [OF assms(1)] in \<open>auto simp: nodes_wf_def colon_label_eq\<close>)
  then show ?thesis by (simp add: lbl_key_def)
qed

lemma out_view:
  assumes "edges_wf v" and "edge_at v k = Some e"
  shows "v (out_key i k) \<noteq> None \<longleftrightarrow> e_from e = i"
proof -
  have "v (''i:out:'' @ i @ colon # k) \<noteq> None \<longleftrightarrow> e_from e = i"
    by (rule mirrors_lookup [where f = "edge_at v"])
      (use assms edge_atD(3) [OF assms(1)] in \<open>auto simp: edges_wf_def colon_key_eq\<close>)
  then show ?thesis by (simp add: out_key_def)
qed

lemma in_view:
  assumes "edges_wf v" and "edge_at v k = Some e"
  shows "v (in_key i k) \<noteq> None \<longleftrightarrow> e_to e = i"
proof -
  have "v (''i:in:'' @ i @ colon # k) \<noteq> None \<longleftrightarrow> e_to e = i"
    by (rule mirrors_lookup [where f = "edge_at v"])
      (use assms edge_atD(3) [OF assms(1)] in \<open>auto simp: edges_wf_def colon_key_eq\<close>)
  then show ?thesis by (simp add: in_key_def)
qed

lemma node_at_del_node: "node_at (v_del_node i v) = (node_at v)(i := None)"
  by (rule ext) (auto simp: node_at_def v_del_node_def key_defs split: option.splits entry.splits)

lemma edge_at_del_node: "edge_at (v_del_node i v) = edge_at v"
  by (rule ext) (auto simp: edge_at_def v_del_node_def key_defs split: option.splits)

lemma node_at_ins_node: "node_at (v_ins_node n v) = (node_at v)(n_id n \<mapsto> n)"
  by (rule ext) (auto simp: node_at_def v_ins_node_def key_defs)

lemma edge_at_ins_node: "edge_at (v_ins_node n v) = edge_at v"
  by (rule ext) (auto simp: edge_at_def v_ins_node_def key_defs)

lemma node_at_del_edge: "node_at (v_del_edge i v) = node_at v"
  by (rule ext) (auto simp: node_at_def v_del_edge_def edge_keys_def key_defs split: option.splits)

lemma edge_at_del_edge: "edge_at (v_del_edge i v) = (edge_at v)(i := None)"
  by (rule ext) (auto simp: edge_at_def v_del_edge_def edge_keys_def key_defs
      split: option.splits entry.splits)

lemma node_at_ins_edge: "node_at (v_ins_edge e v) = node_at v"
  by (rule ext) (auto simp: node_at_def v_ins_edge_def edge_keys_def key_defs)

lemma edge_at_ins_edge: "edge_at (v_ins_edge e v) = (edge_at v)(e_id e \<mapsto> e)"
  by (rule ext) (auto simp: edge_at_def v_ins_edge_def edge_keys_def key_defs)

lemmas at_upd = node_at_del_node edge_at_del_node node_at_ins_node edge_at_ins_node
  node_at_del_edge edge_at_del_edge node_at_ins_edge edge_at_ins_edge

lemma del_node_None: "nodes_wf v \<Longrightarrow> node_at v i = None \<Longrightarrow> v_del_node i v = v"
  by (simp add: v_del_node_def fun_upd_idem node_key_view)

lemma del_edge_None: "edges_wf v \<Longrightarrow> edge_at v i = None \<Longrightarrow> v_del_edge i v = v"
  by (simp add: v_del_edge_def fun_upd_idem edge_key_view)

lemma wf_del_node:
  assumes wf: "wf_view v"
  shows "wf_view (v_del_node i v)"
proof (cases "node_at v i")
  case None
  with wf show ?thesis by (simp add: wf_view_def del_node_None)
next
  case (Some n)
  from wf have nwf: "nodes_wf v" and ewf: "edges_wf v" by (simp_all add: wf_view_def)
  have "mirrors ''i:lbl:'' n_label ((node_at v)(i := None)) (v_del_node i v)"
    using nwf node_atD(3) [OF nwf] Some
    by (intro mirrors_del [where f = "node_at v" and n = n and v = v])
      (auto simp: nodes_wf_def v_del_node_def key_defs colon_label_eq)
  moreover have "v_del_node i v (node_key j) = (if j = i then None else v (node_key j))" for j
    by (simp add: v_del_node_def key_defs split: option.splits)
  ultimately have "nodes_wf (v_del_node i v)"
    using nwf unfolding nodes_wf_def at_upd by (simp split: if_splits)
  moreover have "edges_wf (v_del_node i v)"
    using ewf unfolding edges_wf_def at_upd
    by (auto simp: v_del_node_def key_defs split: option.splits elim: mirrors_same)
  ultimately show ?thesis by (simp add: wf_view_def)
qed

lemma wf_ins_node:
  assumes wf: "wf_view v" and ok: "stored_node n" and new: "node_at v (n_id n) = None"
  shows "wf_view (v_ins_node n v)"
proof -
  from wf have nwf: "nodes_wf v" and ewf: "edges_wf v" by (simp_all add: wf_view_def)
  have "mirrors ''i:lbl:'' n_label ((node_at v)(n_id n \<mapsto> n)) (v_ins_node n v)"
    using nwf by (intro mirrors_ins [where f = "node_at v" and v = v])
      (auto simp: new nodes_wf_def v_ins_node_def key_defs)
  moreover have "v_ins_node n v (node_key j) =
      (if j = n_id n then Some (ENode n) else v (node_key j))" for j
    by (simp add: v_ins_node_def key_defs)
  ultimately have "nodes_wf (v_ins_node n v)"
    using nwf ok unfolding nodes_wf_def at_upd by (simp split: if_splits)
  moreover have "edges_wf (v_ins_node n v)"
    using ewf unfolding edges_wf_def at_upd
    by (auto simp: v_ins_node_def key_defs elim: mirrors_same)
  ultimately show ?thesis by (simp add: wf_view_def)
qed

lemma wf_del_edge:
  assumes wf: "wf_view v"
  shows "wf_view (v_del_edge i v)"
proof (cases "edge_at v i")
  case None
  with wf show ?thesis by (simp add: wf_view_def del_edge_None)
next
  case (Some e)
  from wf have nwf: "nodes_wf v" and ewf: "edges_wf v" by (simp_all add: wf_view_def)
  have id: "e_id e = i" and col: "colons i = 2" using edge_atD [OF ewf Some] by auto
  have del: "mirrors p fld ((edge_at v)(i := None)) (v_del_edge i v)"
    if "mirrors p fld (edge_at v) v"
      and "\<And>r. v_del_edge i v (p @ r) = (if r = fld e @ colon # i then None else v (p @ r))"
    for p fld
    using that col edge_atD(3) [OF ewf]
    by (intro mirrors_del [where f = "edge_at v" and n = e and v = v]) (auto simp: Some colon_key_eq)
  have "v_del_edge i v (edge_key j) = (if j = i then None else v (edge_key j))" for j
    using Some by (simp add: v_del_edge_def edge_keys_def key_defs)
  with ewf have "edges_wf (v_del_edge i v)"
    unfolding edges_wf_def at_upd
    by (intro conjI del) (auto simp: v_del_edge_def edge_keys_def key_defs Some id split: if_splits)
  moreover have "nodes_wf (v_del_edge i v)"
    using nwf unfolding nodes_wf_def at_upd
    by (auto simp: v_del_edge_def edge_keys_def key_defs Some elim: mirrors_same)
  ultimately show ?thesis by (simp add: wf_view_def)
qed

lemma wf_ins_edge:
  assumes wf: "wf_view v" and ok: "stored_edge e" and new: "edge_at v (e_id e) = None"
  shows "wf_view (v_ins_edge e v)"
proof -
  from wf have nwf: "nodes_wf v" and ewf: "edges_wf v" by (simp_all add: wf_view_def)
  have ins: "mirrors p fld ((edge_at v)(e_id e \<mapsto> e)) (v_ins_edge e v)"
    if "mirrors p fld (edge_at v) v"
      and "\<And>r. v_ins_edge e v (p @ r) = (if r = fld e @ colon # e_id e then Some EIdx else v (p @ r))"
    for p fld
    using that new by (intro mirrors_ins [where f = "edge_at v" and v = v])
  have "v_ins_edge e v (edge_key j) =
      (if j = e_id e then Some (EEdge e) else v (edge_key j))" for j
    by (simp add: v_ins_edge_def edge_keys_def key_defs)
  with ewf ok have "edges_wf (v_ins_edge e v)"
    unfolding edges_wf_def at_upd
    by (intro conjI ins) (auto simp: v_ins_edge_def edge_keys_def key_defs split: if_splits)
  moreover have "nodes_wf (v_ins_edge e v)"
    using nwf unfolding nodes_wf_def at_upd
    by (auto simp: v_ins_edge_def edge_keys_def key_defs elim: mirrors_same)
  ultimately show ?thesis by (simp add: wf_view_def)
qed

section \<open>Reads\<close>

lemma getNodeInTxn_view:
  assumes "kv_laws kv" and "nodes_wf (kv_view kv s)"
  shows "getNodeInTxn kv i s =
    (case node_at (kv_view kv s) i of None \<Rightarrow> Err KeyNotFound | Some n \<Rightarrow> Ok n, s)"
  by (simp add: getNodeInTxn_def go_bind_def txn_get_view [OF assms(1)]
      node_key_view [OF assms(2)] decode_node_def go_sum_def go_simps split: option.splits)

lemma getEdgeInTxn_view:
  assumes "kv_laws kv" and "edges_wf (kv_view kv s)"
  shows "getEdgeInTxn kv i s =
    (case edge_at (kv_view kv s) i of None \<Rightarrow> Err KeyNotFound | Some e \<Rightarrow> Ok e, s)"
  by (simp add: getEdgeInTxn_def go_bind_def txn_get_view [OF assms(1)]
      edge_key_view [OF assms(2)] decode_edge_def go_sum_def go_simps split: option.splits)

lemma GetNode_view:
  assumes "kv_laws kv" and "nodes_wf (kv_view kv s)"
  shows "GetNode kv i s = (case node_at (kv_view kv s) i of
      Some n \<Rightarrow> Ok n | None \<Rightarrow> Err (Msg (''node '' @ i @ '' not found'')), s)"
  by (simp add: GetNode_def go_bind_def go_try_def getNodeInTxn_view [OF assms] go_simps
      split: option.splits)

lemma GetEdge_view:
  assumes "kv_laws kv" and "edges_wf (kv_view kv s)"
  shows "GetEdge kv i s = (case edge_at (kv_view kv s) i of
      Some e \<Rightarrow> Ok e | None \<Rightarrow> Err (Msg (''edge '' @ i @ '' not found'')), s)"
  by (simp add: GetEdge_def go_bind_def go_try_def getEdgeInTxn_view [OF assms] go_simps
      split: option.splits)

text \<open>A collecting loop over reads that skip what is absent.\<close>

lemma go_collect_reads:
  assumes "\<And>x. body x s = (Ok (case f x of None \<Rightarrow> [] | Some y \<Rightarrow> [y]), s)"
  shows "go_collect xs body s = (Ok (lookups f xs), s)"
  by (induction xs) (simp_all add: go_simps go_bind_def assms split: option.splits)

lemma set_idx_NodesByLabel:
  assumes "kv_laws kv"
  shows "set (idx_NodesByLabel kv l s) = {i. kv_view kv s (lbl_key l i) \<noteq> None}"
  by (simp add: idx_NodesByLabel_def set_scan_ids [OF assms] lbl_key_def)

lemma set_incident_ids:
  assumes "kv_laws kv"
  shows "set (first_seen [] (OutgoingEdges kv i s @ IncomingEdges kv i s)) =
    {k. kv_view kv s (out_key i k) \<noteq> None \<or> kv_view kv s (in_key i k) \<noteq> None}"
  by (auto simp: set_first_seen OutgoingEdges_def IncomingEdges_def set_scan_ids [OF assms]
      out_key_def in_key_def)

lemma NodesByLabel_view:
  assumes laws: "kv_laws kv" and wf: "nodes_wf (kv_view kv s)" and l: "colon_free l"
  shows "\<exists>ns. NodesByLabel kv l s = (Ok ns, s) \<and> distinct (map n_id ns) \<and>
    set ns = {n. node_at (kv_view kv s) (n_id n) = Some n \<and> n_label n = l}"
proof -
  let ?v = "kv_view kv s" and ?ids = "idx_NodesByLabel kv l s"
  have run: "NodesByLabel kv l s = (Ok (lookups (node_at ?v) ?ids), s)"
    unfolding NodesByLabel_def
    by (rule go_collect_reads)
      (simp add: go_bind_def go_try_def GetNode_view [OF laws wf] go_simps split: option.splits)
  have dist: "distinct ?ids"
    unfolding idx_NodesByLabel_def by (rule distinct_scan_ids [OF laws])
  have ids: "\<forall>j x. node_at ?v j = Some x \<longrightarrow> n_id x = j" using node_atD(2) [OF wf] by blast
  note keyed = lookups_keyed [of "node_at ?v" n_id, OF ids dist]
  have "set (lookups (node_at ?v) ?ids) = {n. node_at ?v (n_id n) = Some n \<and> n_label n = l}"
    unfolding keyed(2) set_idx_NodesByLabel [OF laws] using lbl_view [OF wf _ l] by blast
  with run keyed(1) show ?thesis by blast
qed

lemma EdgesByNode_view:
  assumes laws: "kv_laws kv" and wf: "edges_wf (kv_view kv s)"
  shows "\<exists>es. EdgesByNode kv i s = (Ok es, s) \<and> distinct (map e_id es) \<and>
    set es = {e. edge_at (kv_view kv s) (e_id e) = Some e \<and> incident i e}"
proof -
  let ?v = "kv_view kv s"
  define ids where "ids = first_seen [] (OutgoingEdges kv i s @ IncomingEdges kv i s)"
  have run: "EdgesByNode kv i s = (Ok (lookups (edge_at ?v) ids), s)"
    unfolding EdgesByNode_def ids_def
    by (rule go_collect_reads)
      (simp add: go_bind_def go_try_def GetEdge_view [OF laws wf] go_simps split: option.splits)
  have dist: "distinct ids" by (simp add: ids_def distinct_first_seen)
  have ids: "\<forall>j x. edge_at ?v j = Some x \<longrightarrow> e_id x = j" using edge_atD(2) [OF wf] by blast
  note keyed = lookups_keyed [of "edge_at ?v" e_id, OF ids dist]
  have "set (lookups (edge_at ?v) ids) = {e. edge_at ?v (e_id e) = Some e \<and> incident i e}"
    unfolding keyed(2) incident_def unfolding ids_def set_incident_ids [OF laws]
    using out_view [OF wf] in_view [OF wf] by blast
  with run keyed(1) show ?thesis by blast
qed

section \<open>Writes\<close>

text \<open>A transaction whose body succeeds commits its view; otherwise nothing changes.\<close>

lemma db_update_cases:
  assumes laws: "kv_laws kv" and run: "db_update kv body s = (r, t)"
    and body: "body s = (Ok (), u)"
  shows "(r = Ok () \<and> kv_view kv t = kv_view kv u) \<or> (\<exists>e. r = Err e \<and> t = s)"
  using assms unfolding db_update_def kv_laws_def by (auto split: sum.splits)

lemma db_update_err: "body s = (Err e, u) \<Longrightarrow> db_update kv body s = (Err e, s)"
  by (simp add: db_update_def)

lemma deindex_old_node:
  assumes laws: "kv_laws kv" and wf: "nodes_wf (kv_view kv s)"
  obtains t where "go_bind (go_try (getNodeInTxn kv i)) (\<lambda>old. case old of
       Inr o' \<Rightarrow> DeindexNode kv o' | Inl _ \<Rightarrow> go_ret ()) s = (Ok (), t)"
    "(kv_view kv t)(node_key i := None) = v_del_node i (kv_view kv s)"
proof (cases "node_at (kv_view kv s) i")
  case None
  then show thesis
    by (intro that [of s])
      (simp_all add: go_bind_def go_try_def getNodeInTxn_view [OF assms] go_simps v_del_node_def)
next
  case (Some n)
  obtain t where t: "DeindexNode kv n s = (Ok (), t)"
      "kv_view kv t = (kv_view kv s)(lbl_key (n_label n) (n_id n) := None)"
    by (rule DeindexNode_view [OF laws])
  have "n_id n = i" by (rule node_atD(2) [OF wf Some])
  with t Some show thesis
    by (intro that [of t])
      (simp_all add: go_bind_def go_try_def getNodeInTxn_view [OF assms] v_del_node_def)
qed

lemma deindex_old_edge:
  assumes laws: "kv_laws kv" and wf: "edges_wf (kv_view kv s)"
  obtains t where "go_bind (go_try (getEdgeInTxn kv i)) (\<lambda>old. case old of
       Inr o' \<Rightarrow> DeindexEdge kv o' | Inl _ \<Rightarrow> go_ret ()) s = (Ok (), t)"
    "(kv_view kv t)(edge_key i := None) = v_del_edge i (kv_view kv s)"
proof (cases "edge_at (kv_view kv s) i")
  case None
  then show thesis
    by (intro that [of s])
      (simp_all add: go_bind_def go_try_def getEdgeInTxn_view [OF assms] go_simps v_del_edge_def)
next
  case (Some e)
  obtain t where t: "DeindexEdge kv e s = (Ok (), t)"
      "kv_view kv t = (\<lambda>k. if k \<in> edge_keys e then None else kv_view kv s k)"
    by (rule DeindexEdge_view [OF laws])
  with Some show thesis
    by (intro that [of t])
      (auto simp: go_bind_def go_try_def getEdgeInTxn_view [OF assms] v_del_edge_def)
qed

lemma PutNode_spec:
  assumes laws: "kv_laws kv" and wf: "wf_view (kv_view kv s)" and ok: "node_ok n"
    and run: "PutNode kv n s = (r, t)"
  shows "(\<exists>m. r = Ok () \<and> node_json n = Some m \<and>
      kv_view kv t = v_ins_node m (v_del_node (n_id n) (kv_view kv s))) \<or>
    (\<exists>e. r = Err e \<and> t = s)"
proof (cases "node_json n")
  case None
  with run show ?thesis by (auto simp: PutNode_def go_raise_def)
next
  case (Some m)
  note id = node_json_fields(1,2) [OF Some]
  obtain t1 where 1: "go_bind (go_try (getNodeInTxn kv (n_id n))) (\<lambda>old. case old of
       Inr o' \<Rightarrow> DeindexNode kv o' | Inl _ \<Rightarrow> go_ret ()) s = (Ok (), t1)"
    "(kv_view kv t1)(node_key (n_id n) := None) = v_del_node (n_id n) (kv_view kv s)"
    using deindex_old_node [OF laws] wf by (metis wf_view_def)
  show ?thesis
  proof (rule txn_set_cases [OF laws, of "node_key (n_id n)" "ENode m" t1])
    fix t2 assume 2: "txn_set kv (node_key (n_id n)) (ENode m) t1 = (Ok (), t2)"
      "kv_view kv t2 = (kv_view kv t1)(node_key (n_id n) \<mapsto> ENode m)"
    show ?thesis
    proof (rule IndexNode_cases [OF laws, of n t2])
      fix t3 assume 3: "IndexNode kv n t2 = (Ok (), t3)"
        "kv_view kv t3 = (kv_view kv t2)(lbl_key (n_label n) (n_id n) \<mapsto> EIdx)"
      have "kv_view kv t3 = v_ins_node m (v_del_node (n_id n) (kv_view kv s))"
        unfolding 1(2) [symmetric] by (simp add: 2 3 id v_ins_node_def)
      with db_update_cases [OF laws run [unfolded PutNode_def Some option.case], of t3]
        1(1) 2(1) 3(1)
      show ?thesis by (simp add: Some go_simps)
    next
      fix x assume "IndexNode kv n t2 = (Err x, t2)"
      with run 1(1) 2(1) show ?thesis by (auto simp: PutNode_def Some db_update_err go_simps)
    qed
  next
    fix x assume "txn_set kv (node_key (n_id n)) (ENode m) t1 = (Err x, t1)"
    with run 1(1) show ?thesis by (auto simp: PutNode_def Some db_update_err go_simps)
  qed
qed

lemma PutEdge_spec:
  assumes laws: "kv_laws kv" and wf: "wf_view (kv_view kv s)" and ok: "edge_ok e"
    and run: "PutEdge kv e s = (r, t)"
  shows "(\<exists>f. r = Ok () \<and> edge_json e = Some f \<and>
      kv_view kv t = v_ins_edge f (v_del_edge (e_id e) (kv_view kv s))) \<or>
    (\<exists>x. r = Err x \<and> t = s)"
proof (cases "edge_json e")
  case None
  with run show ?thesis by (auto simp: PutEdge_def go_raise_def)
next
  case (Some f)
  have keys: "edge_keys f = edge_keys e"
    by (simp add: edge_keys_def edge_json_fields(1-4) [OF Some])
  obtain t1 where 1: "go_bind (go_try (getEdgeInTxn kv (e_id e))) (\<lambda>old. case old of
       Inr o' \<Rightarrow> DeindexEdge kv o' | Inl _ \<Rightarrow> go_ret ()) s = (Ok (), t1)"
    "(kv_view kv t1)(edge_key (e_id e) := None) = v_del_edge (e_id e) (kv_view kv s)"
    using deindex_old_edge [OF laws] wf by (metis wf_view_def)
  show ?thesis
  proof (rule txn_set_cases [OF laws, of "edge_key (e_id e)" "EEdge f" t1])
    fix t2 assume 2: "txn_set kv (edge_key (e_id e)) (EEdge f) t1 = (Ok (), t2)"
      "kv_view kv t2 = (kv_view kv t1)(edge_key (e_id e) \<mapsto> EEdge f)"
    show ?thesis
    proof (rule IndexEdge_cases [OF laws, of e t2])
      fix t3 assume 3: "IndexEdge kv e t2 = (Ok (), t3)"
        "kv_view kv t3 = (\<lambda>k. if k \<in> edge_keys e then Some EIdx else kv_view kv t2 k)"
      have "kv_view kv t3 = v_ins_edge f (v_del_edge (e_id e) (kv_view kv s))"
        unfolding 1(2) [symmetric]
        by (auto simp: 2 3 keys v_ins_edge_def edge_json_fields(1) [OF Some])
      with db_update_cases [OF laws run [unfolded PutEdge_def Some option.case], of t3]
        1(1) 2(1) 3(1)
      show ?thesis by (simp add: Some go_simps)
    next
      fix x t3 assume "IndexEdge kv e t2 = (Err x, t3)"
      with run 1(1) 2(1) show ?thesis by (auto simp: PutEdge_def Some db_update_err go_simps)
    qed
  next
    fix x assume "txn_set kv (edge_key (e_id e)) (EEdge f) t1 = (Err x, t1)"
    with run 1(1) show ?thesis by (auto simp: PutEdge_def Some db_update_err go_simps)
  qed
qed

lemma DeleteEdge_spec:
  assumes laws: "kv_laws kv" and wf: "wf_view (kv_view kv s)"
    and run: "DeleteEdge kv i s = (r, t)"
  shows "(r = Ok () \<and> kv_view kv t = v_del_edge i (kv_view kv s)) \<or> (\<exists>x. r = Err x \<and> t = s)"
proof -
  obtain t1 where 1: "go_bind (go_try (getEdgeInTxn kv i)) (\<lambda>old. case old of
       Inr o' \<Rightarrow> DeindexEdge kv o' | Inl _ \<Rightarrow> go_ret ()) s = (Ok (), t1)"
    "(kv_view kv t1)(edge_key i := None) = v_del_edge i (kv_view kv s)"
    using deindex_old_edge [OF laws] wf by (metis wf_view_def)
  obtain t2 where 2: "txn_delete kv (edge_key i) t1 = (Ok (), t2)"
      "kv_view kv t2 = (kv_view kv t1)(edge_key i := None)"
    by (rule txn_delete_view [OF laws])
  from db_update_cases [OF laws run [unfolded DeleteEdge_def], of t2] 1(1) 2(1) show ?thesis
    by (simp add: go_simps 2(2) 1(2))
qed

text \<open>The loop over the incident edges removes each edge it finds with its index entries.\<close>

lemma delete_incident_view:
  assumes laws: "kv_laws kv" and wf: "wf_view (kv_view kv s)"
  obtains t where "delete_incident kv ids s = (Ok (), t)" "wf_view (kv_view kv t)"
    "node_at (kv_view kv t) = node_at (kv_view kv s)"
    "edge_at (kv_view kv t) = edge_at (kv_view kv s) |` (- set ids)"
  using wf
proof (induction ids arbitrary: s thesis)
  case Nil
  show ?case by (rule Nil.prems(1) [of s]) (simp_all add: Nil.prems delete_incident_def go_simps)
next
  case (Cons k ids)
  let ?v = "kv_view kv s"
  from Cons.prems(2) have ewf: "edges_wf ?v" by (simp add: wf_view_def)
  obtain u where u: "wf_view (kv_view kv u)" "kv_view kv u = v_del_edge k ?v"
    "delete_incident kv (k # ids) s = delete_incident kv ids u"
  proof (cases "edge_at ?v k")
    case None
    then show thesis
      by (intro that [of s]) (simp_all add: Cons.prems delete_incident_def go_bind_def go_try_def
          getEdgeInTxn_view [OF laws ewf] go_simps del_edge_None [OF ewf])
  next
    case (Some e)
    obtain t1 where 1: "DeindexEdge kv e s = (Ok (), t1)"
        "kv_view kv t1 = (\<lambda>j. if j \<in> edge_keys e then None else ?v j)"
      by (rule DeindexEdge_view [OF laws])
    obtain t2 where 2: "txn_delete kv (edge_key k) t1 = (Ok (), t2)"
        "kv_view kv t2 = (kv_view kv t1)(edge_key k := None)"
      by (rule txn_delete_view [OF laws])
    have "kv_view kv t2 = v_del_edge k ?v" by (auto simp: 1 2 v_del_edge_def Some)
    moreover from this have "wf_view (kv_view kv t2)" by (simp only: wf_del_edge Cons.prems)
    moreover have "delete_incident kv (k # ids) s = delete_incident kv ids t2"
      using 1(1) 2(1) Some by (simp add: delete_incident_def
          go_bind_def go_try_def go_ignore_def getEdgeInTxn_view [OF laws ewf] go_simps)
    ultimately show thesis by (intro that [of t2])
  qed
  obtain t where t: "delete_incident kv ids u = (Ok (), t)" "wf_view (kv_view kv t)"
    "node_at (kv_view kv t) = node_at (kv_view kv u)"
    "edge_at (kv_view kv t) = edge_at (kv_view kv u) |` (- set ids)"
    using Cons.IH [of u] u(1) by blast
  show ?case
    by (rule Cons.prems(1) [of t])
      (auto simp: u t at_upd restrict_map_def fun_eq_iff)
qed

lemma DeleteNode_spec:
  assumes laws: "kv_laws kv" and wf: "wf_view (kv_view kv s)"
    and run: "DeleteNode kv i s = (r, t)"
  shows "(r = Ok () \<and> wf_view (kv_view kv t) \<and>
      node_at (kv_view kv t) = (node_at (kv_view kv s))(i := None) \<and>
      edge_at (kv_view kv t) = (\<lambda>k. case edge_at (kv_view kv s) k of None \<Rightarrow> None
        | Some e \<Rightarrow> if node_at (kv_view kv s) i \<noteq> None \<and> incident i e then None else Some e)) \<or>
    (\<exists>x. r = Err x \<and> t = s)"
proof -
  let ?v = "kv_view kv s"
  define ids where "ids = first_seen [] (OutgoingEdges kv i s @ IncomingEdges kv i s)"
  from wf have nwf: "nodes_wf ?v" and ewf: "edges_wf ?v" by (simp_all add: wf_view_def)
  note run' = run [unfolded DeleteNode_def, folded ids_def]
  show ?thesis
  proof (cases "node_at ?v i")
    case None
    from db_update_cases [OF laws run', of s] None wf show ?thesis
      by (auto simp: go_bind_def go_try_def getNodeInTxn_view [OF laws nwf] go_simps
          fun_upd_idem split: option.splits)
  next
    case (Some n)
    obtain t1 where 1: "delete_incident kv ids s = (Ok (), t1)" "wf_view (kv_view kv t1)"
      "node_at (kv_view kv t1) = node_at ?v" "edge_at (kv_view kv t1) = edge_at ?v |` (- set ids)"
      by (rule delete_incident_view [OF laws wf])
    have "n_id n = i" by (rule node_atD(2) [OF nwf Some])
    then obtain t2 where 2: "DeindexNode kv n t1 = (Ok (), t2)"
        "kv_view kv t2 = (kv_view kv t1)(lbl_key (n_label n) i := None)"
      using DeindexNode_view [OF laws] by metis
    obtain t3 where 3: "txn_delete kv (node_key i) t2 = (Ok (), t3)"
        "kv_view kv t3 = (kv_view kv t2)(node_key i := None)"
      by (rule txn_delete_view [OF laws])
    have v3: "kv_view kv t3 = v_del_node i (kv_view kv t1)"
      by (simp add: 1(3) 2(2) 3(2) v_del_node_def Some)
    have "edge_at ?v |` (- set ids) = (\<lambda>k. case edge_at ?v k of None \<Rightarrow> None
        | Some e \<Rightarrow> if node_at ?v i \<noteq> None \<and> incident i e then None else Some e)"
      using out_view [OF ewf] in_view [OF ewf]
      by (auto simp: fun_eq_iff restrict_map_def ids_def set_incident_ids [OF laws] incident_def
          Some split: option.splits)
    then have e3: "edge_at (kv_view kv t3) = (\<lambda>k. case edge_at ?v k of None \<Rightarrow> None
        | Some e \<Rightarrow> if node_at ?v i \<noteq> None \<and> incident i e then None else Some e)"
      by (simp only: v3 at_upd 1(4))
    have n3: "node_at (kv_view kv t3) = (node_at ?v)(i := None)" by (simp only: v3 at_upd 1(3))
    have w3: "wf_view (kv_view kv t3)" by (simp only: v3 wf_del_node 1(2))
    from db_update_cases [OF laws run', of t3] 1(1) 2(1) 3(1) Some
    have "(r = Ok () \<and> kv_view kv t = kv_view kv t3) \<or> (\<exists>e. r = Err e \<and> t = s)"
      by (simp add: go_bind_def go_try_def getNodeInTxn_view [OF laws nwf] go_simps)
    then show ?thesis by (metis e3 n3 w3)
  qed
qed

section \<open>The backend meets the storage contract\<close>

definition badger_inv :: "'s kvops \<Rightarrow> 's \<Rightarrow> bool" where
  "badger_inv kv s \<longleftrightarrow> kv_laws kv \<and> wf_view (kv_view kv s)"

definition badger_nodes :: "'s kvops \<Rightarrow> 's \<Rightarrow> string \<Rightarrow> node option" where
  "badger_nodes kv s = node_at (kv_view kv s)"

definition badger_edges :: "'s kvops \<Rightarrow> 's \<Rightarrow> string \<Rightarrow> edge option" where
  "badger_edges kv s = edge_at (kv_view kv s)"

lemma badger_invD:
  assumes "badger_inv kv s"
  shows "kv_laws kv" and "wf_view (kv_view kv s)" and "nodes_wf (kv_view kv s)"
    and "edges_wf (kv_view kv s)"
  using assms by (simp_all add: badger_inv_def wf_view_def)

lemmas badger_defs = badger_nodes_def badger_edges_def badger_storage_def

interpretation badger: graph_storage
    "badger_storage kv" "badger_inv kv" "badger_nodes kv" "badger_edges kv" for kv :: "'s kvops"
proof unfold_locales
  fix s :: 's and n i
  assume inv: "badger_inv kv s" and at: "badger_nodes kv s i = Some n"
  then have "v (node_key i) = Some (ENode n) \<and> nodes_wf v" if "v = kv_view kv s" for v
    using that node_atD(1) [OF badger_invD(3) [OF inv]] badger_invD(3) [OF inv]
    by (simp add: badger_defs)
  then show "n_id n = i \<and> stored_node n" unfolding nodes_wf_def by fastforce
next
  fix s :: 's and e i
  assume inv: "badger_inv kv s" and at: "badger_edges kv s i = Some e"
  then have "v (edge_key i) = Some (EEdge e) \<and> edges_wf v" if "v = kv_view kv s" for v
    using that edge_atD(1) [OF badger_invD(4) [OF inv]] badger_invD(4) [OF inv]
    by (simp add: badger_defs)
  then show "e_id e = i \<and> stored_edge e" unfolding edges_wf_def by fastforce
next
  fix s :: 's and i assume "badger_inv kv s"
  note inv = badger_invD [OF this]
  show "st_get_node (badger_storage kv) i s = (case badger_nodes kv s i of Some n \<Rightarrow> Ok n
      | None \<Rightarrow> Err (Msg (''node '' @ i @ '' not found'')), s)"
    unfolding badger_defs using GetNode_view [OF inv(1,3)] by simp
  show "st_get_edge (badger_storage kv) i s = (case badger_edges kv s i of Some e \<Rightarrow> Ok e
      | None \<Rightarrow> Err (Msg (''edge '' @ i @ '' not found'')), s)"
    unfolding badger_defs using GetEdge_view [OF inv(1,4)] by simp
  show "\<exists>es. st_edges_by_node (badger_storage kv) i s = (Ok es, s) \<and> distinct (map e_id es) \<and>
      set es = {e. badger_edges kv s (e_id e) = Some e \<and> incident i e}"
    unfolding badger_defs using EdgesByNode_view [OF inv(1,4)] by simp
next
  fix s t :: 's and n and r :: "unit outcome"
  assume s: "badger_inv kv s" and okd: "node_ok n"
    and run: "st_put_node (badger_storage kv) n s = (r, t)"
  note inv = badger_invD [OF s]
  from run have "PutNode kv n s = (r, t)" by (simp add: badger_storage_def)
  then consider (ok) m where "r = Ok ()" "node_json n = Some m"
      "kv_view kv t = v_ins_node m (v_del_node (n_id n) (kv_view kv s))"
    | (err) e where "r = Err e" "t = s"
    using PutNode_spec [OF inv(1,2) okd] by blast
  then show "badger_inv kv t \<and> badger_edges kv t = badger_edges kv s \<and> r \<noteq> Panic \<and>
      (r = Ok () \<longrightarrow> (\<exists>m. node_json n = Some m \<and>
         badger_nodes kv t = (badger_nodes kv s)(n_id n \<mapsto> m))) \<and> (r \<noteq> Ok () \<longrightarrow> t = s)"
  proof cases
    case ok
    note f = node_json_fields(1,2) [OF ok(2)]
    have "wf_view (kv_view kv t)"
      unfolding ok(3) using stored_node_json [OF okd ok(2)] f
      by (intro wf_ins_node wf_del_node inv) (simp_all add: at_upd)
    with ok inv(1) show ?thesis
      by (simp add: badger_defs badger_inv_def at_upd f)
  qed (use s in simp)
next
  fix s t :: 's and e and r :: "unit outcome"
  assume s: "badger_inv kv s" and okd: "edge_ok e"
    and run: "st_put_edge (badger_storage kv) e s = (r, t)"
  note inv = badger_invD [OF s]
  from run have "PutEdge kv e s = (r, t)" by (simp add: badger_storage_def)
  then consider (ok) f where "r = Ok ()" "edge_json e = Some f"
      "kv_view kv t = v_ins_edge f (v_del_edge (e_id e) (kv_view kv s))"
    | (err) x where "r = Err x" "t = s"
    using PutEdge_spec [OF inv(1,2) okd] by blast
  then show "badger_inv kv t \<and> badger_nodes kv t = badger_nodes kv s \<and> r \<noteq> Panic \<and>
      (r = Ok () \<longrightarrow> (\<exists>f. edge_json e = Some f \<and>
         badger_edges kv t = (badger_edges kv s)(e_id e \<mapsto> f))) \<and> (r \<noteq> Ok () \<longrightarrow> t = s)"
  proof cases
    case ok
    note f = edge_json_fields(1) [OF ok(2)]
    have "wf_view (kv_view kv t)"
      unfolding ok(3) using stored_edge_json [OF okd ok(2)] f
      by (intro wf_ins_edge wf_del_edge inv) (simp_all add: at_upd)
    with ok inv(1) show ?thesis
      by (simp add: badger_defs badger_inv_def at_upd f)
  qed (use s in simp)
next
  fix s t :: 's and i and r :: "unit outcome"
  assume s: "badger_inv kv s" and run: "st_delete_node (badger_storage kv) i s = (r, t)"
  note inv = badger_invD [OF s]
  from run have "DeleteNode kv i s = (r, t)" by (simp add: badger_storage_def)
  from DeleteNode_spec [OF inv(1,2) this] s inv(1)
  show "badger_inv kv t \<and> r \<noteq> Panic \<and>
      (r = Ok () \<longrightarrow> badger_nodes kv t = (badger_nodes kv s)(i := None) \<and>
         badger_edges kv t = (\<lambda>k. case badger_edges kv s k of None \<Rightarrow> None
           | Some e \<Rightarrow> if badger_nodes kv s i \<noteq> None \<and> incident i e then None else Some e)) \<and>
      (r \<noteq> Ok () \<longrightarrow> t = s)"
    unfolding badger_defs badger_inv_def by blast
next
  fix s t :: 's and k and r :: "unit outcome"
  assume s: "badger_inv kv s" and run: "st_delete_edge (badger_storage kv) k s = (r, t)"
  note inv = badger_invD [OF s]
  from run have "DeleteEdge kv k s = (r, t)" by (simp add: badger_storage_def)
  from DeleteEdge_spec [OF inv(1,2) this] s inv(1) wf_del_edge [OF inv(2), of k]
  show "badger_inv kv t \<and> badger_nodes kv t = badger_nodes kv s \<and> r \<noteq> Panic \<and>
      (r = Ok () \<longrightarrow> badger_edges kv t = (badger_edges kv s)(k := None)) \<and> (r \<noteq> Ok () \<longrightarrow> t = s)"
    by (auto simp: badger_defs badger_inv_def at_upd)
next
  fix s :: 's and l assume "badger_inv kv s" and l: "colon_free l"
  note inv = badger_invD [OF this(1)]
  show "\<exists>ns. st_nodes_by_label (badger_storage kv) l s = (Ok ns, s) \<and> distinct (map n_id ns) \<and>
      set ns = {n. badger_nodes kv s (n_id n) = Some n \<and> n_label n = l}"
    unfolding badger_defs using NodesByLabel_view [OF inv(1,3) l] by simp
qed

end
