(* ===== verification/Graph_Engine.thy ===== *)
theory Graph_Engine
  imports Badger_Storage
begin

text \<open>
  internal/graph/graph.go: the graph engine over a storage backend. Each operation holds
  the engine's lock throughout, so operations are single steps; the process-wide identifier
  counter and the clock are part of the state. The lemmas about them are proved once over
  the contract \<open>graph_storage\<close>; the last section states them of the Badger backend.
\<close>

section \<open>State and operations\<close>

record 's graph =
  g_store :: 's
  g_ctr :: int
  g_clock :: "nat \<Rightarrow> int"
  g_tick :: nat

text \<open>\<open>idCounter.Add(1)\<close> on an int64, and \<open>time.Now()\<close> read from the state's clock.\<close>

definition next_ctr :: "int \<Rightarrow> int" where
  "next_ctr c = (if c = int64_max then int64_min else c + 1)"

definition next_id :: "('s graph, int) go" where
  "next_id = (\<lambda>g. (Ok (next_ctr (g_ctr g)), g\<lparr>g_ctr := next_ctr (g_ctr g)\<rparr>))"

definition time_now :: "('s graph, int) go" where
  "time_now = (\<lambda>g. (Ok (g_clock g (g_tick g)), g\<lparr>g_tick := Suc (g_tick g)\<rparr>))"

definition on_store :: "('s, 'a) go \<Rightarrow> ('s graph, 'a) go" where
  "on_store m = (\<lambda>g. case m (g_store g) of (r, s) \<Rightarrow> (r, g\<lparr>g_store := s\<rparr>))"

definition CreateNode :: "'s storage_ops \<Rightarrow> string \<Rightarrow> props option \<Rightarrow> ('s graph, node) go" where
  "CreateNode ops label ps =
     go_bind next_id (\<lambda>c.
     go_bind time_now (\<lambda>now.
     let n = \<lparr>n_id = ''n:'' @ label @ '':'' @ show_int c, n_label = label, n_props = ps,
              n_created = now\<rparr> in
     go_bind (go_wrap ''create node'' (on_store (st_put_node ops n))) (\<lambda>_.
     go_ret n)))"

definition graph_GetNode :: "'s storage_ops \<Rightarrow> string \<Rightarrow> ('s graph, node) go" where
  "graph_GetNode ops i = on_store (st_get_node ops i)"

definition graph_DeleteNode :: "'s storage_ops \<Rightarrow> string \<Rightarrow> ('s graph, unit) go" where
  "graph_DeleteNode ops i = on_store (st_delete_node ops i)"

definition CreateEdge ::
  "'s storage_ops \<Rightarrow> string \<Rightarrow> string \<Rightarrow> string \<Rightarrow> props option \<Rightarrow> ('s graph, edge) go" where
  "CreateEdge ops label from to ps =
     go_bind (go_wrap (''source node '' @ from) (on_store (st_get_node ops from))) (\<lambda>_.
     go_bind (go_wrap (''target node '' @ to) (on_store (st_get_node ops to))) (\<lambda>_.
     go_bind next_id (\<lambda>c.
     go_bind time_now (\<lambda>now.
     let e = \<lparr>e_id = ''e:'' @ label @ '':'' @ show_int c, e_label = label, e_from = from,
              e_to = to, e_props = ps, e_created = now\<rparr> in
     go_bind (go_wrap ''create edge'' (on_store (st_put_edge ops e))) (\<lambda>_.
     go_ret e)))))"

definition graph_GetEdge :: "'s storage_ops \<Rightarrow> string \<Rightarrow> ('s graph, edge) go" where
  "graph_GetEdge ops i = on_store (st_get_edge ops i)"

definition graph_DeleteEdge :: "'s storage_ops \<Rightarrow> string \<Rightarrow> ('s graph, unit) go" where
  "graph_DeleteEdge ops i = on_store (st_delete_edge ops i)"

definition graph_NodesByLabel :: "'s storage_ops \<Rightarrow> string \<Rightarrow> ('s graph, node list) go" where
  "graph_NodesByLabel ops l = on_store (st_nodes_by_label ops l)"

definition Neighbors :: "'s storage_ops \<Rightarrow> string \<Rightarrow> ('s graph, edge list) go" where
  "Neighbors ops i = on_store (st_edges_by_node ops i)"

text \<open>
  \<open>maps.Copy(existing.Properties, props)\<close>: assigning into a nil map panics, unless there
  is nothing to assign.
\<close>

definition merge_props :: "props option \<Rightarrow> props option \<Rightarrow> (props option) option" where
  "merge_props old new = (case old of
      Some o' \<Rightarrow> Some (Some (copy_into (prop_list new) o'))
    | None \<Rightarrow> if prop_list new = [] then Some None else None)"

definition UpsertNode ::
  "'s storage_ops \<Rightarrow> string \<Rightarrow> string \<Rightarrow> props option \<Rightarrow> ('s graph, node) go" where
  "UpsertNode ops i label ps =
     go_bind (go_try (on_store (st_get_node ops i))) (\<lambda>r. case r of
       Inr old \<Rightarrow> (case merge_props (n_props old) ps of
           None \<Rightarrow> go_panic
         | Some p \<Rightarrow> let n = old\<lparr>n_props := p\<rparr> in
             go_bind (go_wrap ''upsert node'' (on_store (st_put_node ops n))) (\<lambda>_. go_ret n))
     | Inl _ \<Rightarrow>
         go_bind time_now (\<lambda>now.
         let n = \<lparr>n_id = i, n_label = label, n_props = Some (prop_list ps), n_created = now\<rparr> in
         go_bind (go_wrap ''upsert node'' (on_store (st_put_node ops n))) (\<lambda>_. go_ret n)))"

definition UpsertEdge ::
  "'s storage_ops \<Rightarrow> string \<Rightarrow> string \<Rightarrow> string \<Rightarrow> string \<Rightarrow> props option \<Rightarrow>
     ('s graph, edge) go" where
  "UpsertEdge ops i label from to ps =
     go_bind (go_try (on_store (st_get_edge ops i))) (\<lambda>r. case r of
       Inr old \<Rightarrow> (case merge_props (e_props old) ps of
           None \<Rightarrow> go_panic
         | Some p \<Rightarrow> let e = old\<lparr>e_props := p\<rparr> in
             go_bind (go_wrap ''upsert edge'' (on_store (st_put_edge ops e))) (\<lambda>_. go_ret e))
     | Inl _ \<Rightarrow>
         go_bind time_now (\<lambda>now.
         let e = \<lparr>e_id = i, e_label = label, e_from = from, e_to = to,
                  e_props = Some (prop_list ps), e_created = now\<rparr> in
         go_bind (go_wrap ''upsert edge'' (on_store (st_put_edge ops e))) (\<lambda>_. go_ret e)))"

section \<open>What the operations do to the abstract graph\<close>

lemmas engine_defs = on_store_def next_id_def time_now_def Let_def go_simps go_bind_def
  go_wrap_def go_try_def

definition new_node :: "'s graph \<Rightarrow> string \<Rightarrow> props option \<Rightarrow> node" where
  "new_node g label ps =
     \<lparr>n_id = ''n:'' @ label @ '':'' @ show_int (next_ctr (g_ctr g)), n_label = label,
      n_props = ps, n_created = g_clock g (g_tick g)\<rparr>"

definition new_edge :: "'s graph \<Rightarrow> string \<Rightarrow> string \<Rightarrow> string \<Rightarrow> props option \<Rightarrow> edge" where
  "new_edge g label from to ps =
     \<lparr>e_id = ''e:'' @ label @ '':'' @ show_int (next_ctr (g_ctr g)), e_label = label,
      e_from = from, e_to = to, e_props = ps, e_created = g_clock g (g_tick g)\<rparr>"

lemma CreateNode_run:
  "CreateNode ops label ps g =
     (case st_put_node ops (new_node g label ps) (g_store g) of
        (r, s) \<Rightarrow> (case r of Ok _ \<Rightarrow> Ok (new_node g label ps)
                   | Err e \<Rightarrow> Err (Wrap ''create node'' e) | Panic \<Rightarrow> Panic,
           g\<lparr>g_ctr := next_ctr (g_ctr g), g_tick := Suc (g_tick g), g_store := s\<rparr>))"
  by (simp add: CreateNode_def new_node_def engine_defs split: prod.splits outcome.splits)

lemma colon_free_show_int [simp]: "colon_free (show_int i)"
  by (simp add: show_int_def)

lemma new_edge_ok: "colon_free label \<Longrightarrow> props_ok ps \<Longrightarrow> edge_ok (new_edge g label from to ps)"
  by (simp add: edge_ok_def new_edge_def)

lemma new_node_ok: "colon_free label \<Longrightarrow> props_ok ps \<Longrightarrow> node_ok (new_node g label ps)"
  by (simp add: node_ok_def new_node_def)

text \<open>The document an upsert writes, or \<open>None\<close> where merging panics.\<close>

definition upsert_node_doc ::
  "'s graph \<Rightarrow> string \<Rightarrow> string \<Rightarrow> props option \<Rightarrow> node option \<Rightarrow> node option" where
  "upsert_node_doc g i label ps old = (case old of
      None \<Rightarrow> Some \<lparr>n_id = i, n_label = label, n_props = Some (prop_list ps),
                   n_created = g_clock g (g_tick g)\<rparr>
    | Some n \<Rightarrow> map_option (\<lambda>p. n\<lparr>n_props := p\<rparr>) (merge_props (n_props n) ps))"

definition upsert_edge_doc ::
  "'s graph \<Rightarrow> string \<Rightarrow> string \<Rightarrow> string \<Rightarrow> string \<Rightarrow> props option \<Rightarrow> edge option \<Rightarrow>
     edge option" where
  "upsert_edge_doc g i label from to ps old = (case old of
      None \<Rightarrow> Some \<lparr>e_id = i, e_label = label, e_from = from, e_to = to,
                   e_props = Some (prop_list ps), e_created = g_clock g (g_tick g)\<rparr>
    | Some e \<Rightarrow> map_option (\<lambda>p. e\<lparr>e_props := p\<rparr>) (merge_props (e_props e) ps))"

lemma merge_props_ok:
  "merge_props old ps = Some p \<Longrightarrow> props_ok old \<Longrightarrow> props_ok p"
  by (auto simp: merge_props_def props_ok_def split: option.splits if_splits)

lemma upsert_node_doc_ok:
  assumes "upsert_node_doc g i label ps old = Some n"
    and "case old of None \<Rightarrow> colon_free label \<and> props_ok ps | Some o' \<Rightarrow> n_id o' = i \<and> node_ok o'"
  shows "node_ok n" and "n_id n = i"
  using assms by (auto simp: upsert_node_doc_def node_ok_def props_ok_def
      split: option.splits dest: merge_props_ok [unfolded props_ok_def])

lemma upsert_edge_doc_ok:
  assumes "upsert_edge_doc g i label from to ps old = Some e"
    and "case old of None \<Rightarrow> colons i = 2 \<and> props_ok ps | Some o' \<Rightarrow> e_id o' = i \<and> edge_ok o'"
  shows "edge_ok e" and "e_id e = i"
  using assms by (auto simp: upsert_edge_doc_def edge_ok_def props_ok_def
      split: option.splits dest: merge_props_ok [unfolded props_ok_def])

text \<open>Merging the same entries into the stored result of the merge changes nothing.\<close>

lemma merge_props_stored:
  assumes merge: "merge_props old ps = Some p" and json: "props_json p = Some q"
    and old: "props_json old = Some old" "props_ok old" and ps: "props_ok ps"
  obtains p' where "merge_props q ps = Some p'" "props_json p' = Some q"
proof (cases old)
  case None
  with merge json have "prop_list ps = []" "q = None"
    by (auto simp: merge_props_def props_json_def split: if_splits)
  then show thesis by (intro that [of None]) (simp_all add: merge_props_def props_json_def)
next
  case (Some o')
  let ?P = "prop_list ps"
  from merge json Some obtain r where r: "json_norm_fields (copy_into ?P o') = Some r" "q = Some r"
    by (auto simp: merge_props_def props_json_def)
  have o': "json_norm_fields o' = Some o'" using old(1) Some by (auto simp: props_json_def)
  have dist: "distinct (map fst ?P)" "distinct (map fst o')"
    using ps old(2) Some by (simp_all add: props_ok_def)
  then obtain P' where P': "json_norm_fields ?P = Some P'"
    using json_norm_copy_intoD [OF r(1)] by blast
  have r_eq: "r = copy_into P' o'" using json_norm_copy_into [OF P' o'] r(1) by simp
  have "json_norm_fields r = Some r" by (rule json_norm_stable(3) [OF r(1)])
  then have "json_norm_fields (copy_into ?P r) = Some (copy_into P' r)"
    by (rule json_norm_copy_into [OF P'])
  moreover have "copy_into P' r = r"
    unfolding r_eq using dist(1) json_norm_fields_keys [OF P'] by (intro copy_into_twice) simp
  ultimately show thesis
    by (intro that [of "Some (copy_into ?P r)"])
      (simp_all add: merge_props_def props_json_def r(2))
qed

context graph_storage
begin

abbreviation g_nodes :: "'s graph \<Rightarrow> string \<Rightarrow> node option" where
  "g_nodes g \<equiv> nodes (g_store g)"

abbreviation g_edges :: "'s graph \<Rightarrow> string \<Rightarrow> edge option" where
  "g_edges g \<equiv> edges (g_store g)"

abbreviation g_inv :: "'s graph \<Rightarrow> bool" where
  "g_inv g \<equiv> inv (g_store g)"

lemma put_node_cases:
  assumes "inv s" and "node_ok n"
  obtains (ok) t m where "st_put_node ops n s = (Ok (), t)" "inv t" "edges t = edges s"
      "node_json n = Some m" "nodes t = (nodes s)(n_id n \<mapsto> m)"
  | (err) e where "st_put_node ops n s = (Err e, s)"
proof (cases "st_put_node ops n s")
  case (Pair r t)
  with put_node [OF assms Pair] show thesis by (cases r) (auto intro: that)
qed

lemma put_edge_cases:
  assumes "inv s" and "edge_ok e"
  obtains (ok) t f where "st_put_edge ops e s = (Ok (), t)" "inv t" "nodes t = nodes s"
      "edge_json e = Some f" "edges t = (edges s)(e_id e \<mapsto> f)"
  | (err) x where "st_put_edge ops e s = (Err x, s)"
proof (cases "st_put_edge ops e s")
  case (Pair r t)
  with put_edge [OF assms Pair] show thesis by (cases r) (auto intro: that)
qed

lemma create_node:
  assumes inv: "g_inv g" and lbl: "colon_free label" and ps: "props_ok ps"
    and run: "CreateNode ops label ps g = (r, g')"
  shows "g_inv g' \<and> g_edges g' = g_edges g \<and> r \<noteq> Panic \<and>
    (\<forall>n. r = Ok n \<longrightarrow> n = new_node g label ps \<and>
       (\<exists>m. node_json n = Some m \<and> g_nodes g' = (g_nodes g)(n_id n \<mapsto> m))) \<and>
    (\<forall>e. r = Err e \<longrightarrow> g_nodes g' = g_nodes g)"
proof (rule put_node_cases [OF inv new_node_ok [OF lbl ps, of g]])
  fix t m
  assume "st_put_node ops (new_node g label ps) (g_store g) = (Ok (), t)" "inv t"
    "edges t = edges (g_store g)" "node_json (new_node g label ps) = Some m"
    "nodes t = (nodes (g_store g))(n_id (new_node g label ps) \<mapsto> m)"
  with run show ?thesis
    by (auto simp: CreateNode_run)
next
  fix e assume "st_put_node ops (new_node g label ps) (g_store g) = (Err e, g_store g)"
  with run inv show ?thesis
    by (auto simp: CreateNode_run)
qed

lemma CreateEdge_run:
  assumes inv: "g_inv g"
  shows "CreateEdge ops label from to ps g =
     (if g_nodes g from = None
      then (Err (Wrap (''source node '' @ from) (Msg (''node '' @ from @ '' not found''))), g)
      else if g_nodes g to = None
      then (Err (Wrap (''target node '' @ to) (Msg (''node '' @ to @ '' not found''))), g)
      else case st_put_edge ops (new_edge g label from to ps) (g_store g) of
        (r, s) \<Rightarrow> (case r of Ok _ \<Rightarrow> Ok (new_edge g label from to ps)
                   | Err e \<Rightarrow> Err (Wrap ''create edge'' e) | Panic \<Rightarrow> Panic,
           g\<lparr>g_ctr := next_ctr (g_ctr g), g_tick := Suc (g_tick g), g_store := s\<rparr>))"
proof -
  have from': "st_get_node ops from (g_store g) = (case g_nodes g from of Some n \<Rightarrow> Ok n
      | None \<Rightarrow> Err (Msg (''node '' @ from @ '' not found'')), g_store g)"
    and to': "st_get_node ops to (g_store g) = (case g_nodes g to of Some n \<Rightarrow> Ok n
      | None \<Rightarrow> Err (Msg (''node '' @ to @ '' not found'')), g_store g)"
    by (simp_all only: get_node [OF inv])
  show ?thesis
    by (cases "g_nodes g from"; cases "g_nodes g to")
      (simp_all add: CreateEdge_def new_edge_def engine_defs from' to'
        split: prod.split outcome.split)
qed

lemma create_edge:
  assumes inv: "g_inv g" and lbl: "colon_free label" and ps: "props_ok ps"
    and run: "CreateEdge ops label from to ps g = (r, g')"
  shows "g_inv g' \<and> g_nodes g' = g_nodes g \<and> r \<noteq> Panic \<and>
    (\<forall>e. r = Ok e \<longrightarrow> g_nodes g from \<noteq> None \<and> g_nodes g to \<noteq> None \<and>
       e = new_edge g label from to ps \<and>
       (\<exists>f. edge_json e = Some f \<and> g_edges g' = (g_edges g)(e_id e \<mapsto> f))) \<and>
    (\<forall>x. r = Err x \<longrightarrow> g_edges g' = g_edges g)"
proof (cases "g_nodes g from = None \<or> g_nodes g to = None")
  case True
  with run inv show ?thesis by (auto simp: CreateEdge_run [OF inv] split: if_splits)
next
  case False
  show ?thesis
  proof (rule put_edge_cases [OF inv new_edge_ok [OF lbl ps, of g "from" to]])
    fix t f
    assume "st_put_edge ops (new_edge g label from to ps) (g_store g) = (Ok (), t)" "inv t"
      "nodes t = nodes (g_store g)" "edge_json (new_edge g label from to ps) = Some f"
      "edges t = (edges (g_store g))(e_id (new_edge g label from to ps) \<mapsto> f)"
    with run False show ?thesis
      by (auto simp: CreateEdge_run [OF inv])
  next
    fix x assume "st_put_edge ops (new_edge g label from to ps) (g_store g) = (Err x, g_store g)"
    with run False inv show ?thesis
      by (auto simp: CreateEdge_run [OF inv])
  qed
qed

lemma delete_node_graph:
  assumes inv: "g_inv g" and run: "graph_DeleteNode ops i g = (r, g')"
  shows "g_inv g' \<and> r \<noteq> Panic \<and>
    (r = Ok () \<longrightarrow> g_nodes g' = (g_nodes g)(i := None) \<and>
       g_edges g' = (\<lambda>k. case g_edges g k of None \<Rightarrow> None
         | Some e \<Rightarrow> if g_nodes g i \<noteq> None \<and> incident i e then None else Some e)) \<and>
    (r \<noteq> Ok () \<longrightarrow> g_nodes g' = g_nodes g \<and> g_edges g' = g_edges g)"
proof -
  obtain s where s: "st_delete_node ops i (g_store g) = (r, s)" "g' = g\<lparr>g_store := s\<rparr>"
    using run by (auto simp: graph_DeleteNode_def on_store_def split: prod.splits)
  from delete_node [OF inv s(1)] show ?thesis
    by (simp add: s(2))
qed

lemma delete_edge_graph:
  assumes inv: "g_inv g" and run: "graph_DeleteEdge ops k g = (r, g')"
  shows "g_inv g' \<and> r \<noteq> Panic \<and> g_nodes g' = g_nodes g \<and>
    (r = Ok () \<longrightarrow> g_edges g' = (g_edges g)(k := None)) \<and>
    (r \<noteq> Ok () \<longrightarrow> g_edges g' = g_edges g)"
proof -
  obtain s where s: "st_delete_edge ops k (g_store g) = (r, s)" "g' = g\<lparr>g_store := s\<rparr>"
    using run by (auto simp: graph_DeleteEdge_def on_store_def split: prod.splits)
  from delete_edge [OF inv s(1)] show ?thesis
    by (simp add: s(2))
qed

lemma UpsertNode_run:
  assumes inv: "g_inv g"
  shows "UpsertNode ops i label ps g =
    (let t = (if g_nodes g i = None then Suc (g_tick g) else g_tick g) in
     case upsert_node_doc g i label ps (g_nodes g i) of
       None \<Rightarrow> (Panic, g)
     | Some n \<Rightarrow> (case st_put_node ops n (g_store g) of
        (r, s) \<Rightarrow> (case r of Ok _ \<Rightarrow> Ok n | Err e \<Rightarrow> Err (Wrap ''upsert node'' e) | Panic \<Rightarrow> Panic,
                   g\<lparr>g_tick := t, g_store := s\<rparr>)))"
proof -
  have get: "st_get_node ops i (g_store g) = (case g_nodes g i of Some n \<Rightarrow> Ok n
      | None \<Rightarrow> Err (Msg (''node '' @ i @ '' not found'')), g_store g)"
    by (simp only: get_node [OF inv])
  show ?thesis
    by (cases "g_nodes g i")
      (simp_all add: UpsertNode_def upsert_node_doc_def engine_defs get
        split: prod.split outcome.split option.split)
qed

lemma UpsertEdge_run:
  assumes inv: "g_inv g"
  shows "UpsertEdge ops i label from to ps g =
    (let t = (if g_edges g i = None then Suc (g_tick g) else g_tick g) in
     case upsert_edge_doc g i label from to ps (g_edges g i) of
       None \<Rightarrow> (Panic, g)
     | Some e \<Rightarrow> (case st_put_edge ops e (g_store g) of
        (r, s) \<Rightarrow> (case r of Ok _ \<Rightarrow> Ok e | Err x \<Rightarrow> Err (Wrap ''upsert edge'' x) | Panic \<Rightarrow> Panic,
                   g\<lparr>g_tick := t, g_store := s\<rparr>)))"
proof -
  have get: "st_get_edge ops i (g_store g) = (case g_edges g i of Some e \<Rightarrow> Ok e
      | None \<Rightarrow> Err (Msg (''edge '' @ i @ '' not found'')), g_store g)"
    by (simp only: get_edge [OF inv])
  show ?thesis
    by (cases "g_edges g i")
      (simp_all add: UpsertEdge_def upsert_edge_doc_def engine_defs get
        split: prod.split outcome.split option.split)
qed

lemma upsert_node:
  assumes inv: "g_inv g" and lbl: "colon_free label" and ps: "props_ok ps"
    and run: "UpsertNode ops i label ps g = (r, g')"
  shows "g_inv g' \<and> g_edges g' = g_edges g \<and>
    (r = Panic \<longleftrightarrow> upsert_node_doc g i label ps (g_nodes g i) = None) \<and>
    (\<forall>n. r = Ok n \<longrightarrow> upsert_node_doc g i label ps (g_nodes g i) = Some n \<and>
       (\<exists>m. node_json n = Some m \<and> g_nodes g' = (g_nodes g)(i \<mapsto> m))) \<and>
    (\<not> (\<exists>n. r = Ok n) \<longrightarrow> g_nodes g' = g_nodes g)"
proof (cases "upsert_node_doc g i label ps (g_nodes g i)")
  case None
  with run inv show ?thesis by (auto simp: UpsertNode_run [OF inv] Let_def)
next
  case (Some n)
  have "case g_nodes g i of None \<Rightarrow> colon_free label \<and> props_ok ps
      | Some o' \<Rightarrow> n_id o' = i \<and> node_ok o'"
    using lbl ps keyed_node [OF inv, of i] by (auto simp: stored_node_def split: option.splits)
  note doc = upsert_node_doc_ok [OF Some this]
  show ?thesis
  proof (rule put_node_cases [OF inv doc(1)])
    fix t m
    assume "st_put_node ops n (g_store g) = (Ok (), t)" "inv t" "edges t = g_edges g"
      "node_json n = Some m" "nodes t = (g_nodes g)(n_id n \<mapsto> m)"
    with run doc(2) Some show ?thesis by (auto simp: UpsertNode_run [OF inv] Let_def)
  next
    fix e assume "st_put_node ops n (g_store g) = (Err e, g_store g)"
    with run inv Some show ?thesis by (auto simp: UpsertNode_run [OF inv] Let_def)
  qed
qed

lemma upsert_edge:
  assumes inv: "g_inv g" and id: "colons i = 2" and ps: "props_ok ps"
    and run: "UpsertEdge ops i label from to ps g = (r, g')"
  shows "g_inv g' \<and> g_nodes g' = g_nodes g \<and>
    (r = Panic \<longleftrightarrow> upsert_edge_doc g i label from to ps (g_edges g i) = None) \<and>
    (\<forall>e. r = Ok e \<longrightarrow> upsert_edge_doc g i label from to ps (g_edges g i) = Some e \<and>
       (\<exists>f. edge_json e = Some f \<and> g_edges g' = (g_edges g)(i \<mapsto> f))) \<and>
    (\<not> (\<exists>e. r = Ok e) \<longrightarrow> g_edges g' = g_edges g)"
proof (cases "upsert_edge_doc g i label from to ps (g_edges g i)")
  case None
  with run inv show ?thesis by (auto simp: UpsertEdge_run [OF inv] Let_def)
next
  case (Some e)
  have "case g_edges g i of None \<Rightarrow> colons i = 2 \<and> props_ok ps
      | Some o' \<Rightarrow> e_id o' = i \<and> edge_ok o'"
    using id ps keyed_edge [OF inv, of i] by (auto simp: stored_edge_def split: option.splits)
  note doc = upsert_edge_doc_ok [OF Some this]
  show ?thesis
  proof (rule put_edge_cases [OF inv doc(1)])
    fix t f
    assume "st_put_edge ops e (g_store g) = (Ok (), t)" "inv t" "nodes t = g_nodes g"
      "edge_json e = Some f" "edges t = (g_edges g)(e_id e \<mapsto> f)"
    with run doc(2) Some show ?thesis by (auto simp: UpsertEdge_run [OF inv] Let_def)
  next
    fix x assume "st_put_edge ops e (g_store g) = (Err x, g_store g)"
    with run inv Some show ?thesis by (auto simp: UpsertEdge_run [OF inv] Let_def)
  qed
qed

text \<open>An upsert repeated with the same arguments leaves the graph as the first one left it.\<close>

lemma upsert_node_twice:
  assumes inv: "g_inv g" and lbl: "colon_free label" and ps: "props_ok ps"
    and run1: "UpsertNode ops i label ps g = (Ok n, g1)"
    and run2: "UpsertNode ops i label ps g1 = (r, g2)"
  shows "r \<noteq> Panic \<and> g_nodes g2 = g_nodes g1 \<and> g_edges g2 = g_edges g1"
proof -
  from upsert_node [OF inv lbl ps run1] obtain m where
    inv1: "g_inv g1" and doc: "upsert_node_doc g i label ps (g_nodes g i) = Some n"
    and m: "node_json n = Some m" "g_nodes g1 = (g_nodes g)(i \<mapsto> m)" by auto
  have "\<exists>old. merge_props old ps = Some (n_props n) \<and> props_json old = Some old \<and> props_ok old"
  proof (cases "g_nodes g i")
    case None
    with doc ps show ?thesis
      by (intro exI [of _ "Some []"]) (auto simp: upsert_node_doc_def merge_props_def
          props_json_def props_ok_def copy_into_disjoint)
  next
    case (Some o')
    with keyed_node [OF inv Some] doc show ?thesis
      by (intro exI [of _ "n_props o'"])
        (auto simp: upsert_node_doc_def stored_node_def node_ok_def dest: node_json_fields(4))
  qed
  then obtain p' where p': "merge_props (n_props m) ps = Some p'"
      "props_json p' = Some (n_props m)"
    using merge_props_stored [OF _ node_json_fields(4) [OF m(1)] _ _ ps] by blast
  have doc2: "upsert_node_doc g1 i label ps (g_nodes g1 i) = Some (m\<lparr>n_props := p'\<rparr>)"
    by (simp add: upsert_node_doc_def m(2) p'(1))
  moreover have "node_json (m\<lparr>n_props := p'\<rparr>) = Some m"
    using node_json_stable [OF m(1)] p'(2) by (simp add: node_json_def split: if_splits)
  ultimately show ?thesis
    using upsert_node [OF inv1 lbl ps run2] by (cases r) (auto simp: m(2))
qed

lemma upsert_edge_twice:
  assumes inv: "g_inv g" and id: "colons i = 2" and ps: "props_ok ps"
    and run1: "UpsertEdge ops i label from to ps g = (Ok e, g1)"
    and run2: "UpsertEdge ops i label from to ps g1 = (r, g2)"
  shows "r \<noteq> Panic \<and> g_nodes g2 = g_nodes g1 \<and> g_edges g2 = g_edges g1"
proof -
  from upsert_edge [OF inv id ps run1] obtain f where
    inv1: "g_inv g1" and doc: "upsert_edge_doc g i label from to ps (g_edges g i) = Some e"
    and f: "edge_json e = Some f" "g_edges g1 = (g_edges g)(i \<mapsto> f)" by auto
  have "\<exists>old. merge_props old ps = Some (e_props e) \<and> props_json old = Some old \<and> props_ok old"
  proof (cases "g_edges g i")
    case None
    with doc ps show ?thesis
      by (intro exI [of _ "Some []"]) (auto simp: upsert_edge_doc_def merge_props_def
          props_json_def props_ok_def copy_into_disjoint)
  next
    case (Some o')
    with keyed_edge [OF inv Some] doc show ?thesis
      by (intro exI [of _ "e_props o'"])
        (auto simp: upsert_edge_doc_def stored_edge_def edge_ok_def dest: edge_json_fields(6))
  qed
  then obtain p' where p': "merge_props (e_props f) ps = Some p'"
      "props_json p' = Some (e_props f)"
    using merge_props_stored [OF _ edge_json_fields(6) [OF f(1)] _ _ ps] by blast
  have doc2: "upsert_edge_doc g1 i label from to ps (g_edges g1 i) = Some (f\<lparr>e_props := p'\<rparr>)"
    by (simp add: upsert_edge_doc_def f(2) p'(1))
  moreover have "edge_json (f\<lparr>e_props := p'\<rparr>) = Some f"
    using edge_json_stable [OF f(1)] p'(2) by (simp add: edge_json_def split: if_splits)
  ultimately show ?thesis
    using upsert_edge [OF inv1 id ps run2] by (cases r) (auto simp: f(2))
qed

end

section \<open>Histories of calls\<close>

text \<open>
  One call of the public interface, whatever it returns. \<open>UpsertEdge\<close> is kept apart: it is
  the one operation that does not look at the endpoints.
\<close>

inductive api_step :: "'s storage_ops \<Rightarrow> 's graph \<Rightarrow> 's graph \<Rightarrow> bool" for ops where
  step_create_node: "colon_free label \<Longrightarrow> props_ok ps \<Longrightarrow>
     CreateNode ops label ps g = (r, g') \<Longrightarrow> api_step ops g g'"
| step_create_edge: "colon_free label \<Longrightarrow> props_ok ps \<Longrightarrow>
     CreateEdge ops label from to ps g = (r', g') \<Longrightarrow> api_step ops g g'"
| step_upsert_node: "colon_free label \<Longrightarrow> props_ok ps \<Longrightarrow>
     UpsertNode ops i label ps g = (r, g') \<Longrightarrow> api_step ops g g'"
| step_delete_node: "graph_DeleteNode ops i g = (d, g') \<Longrightarrow> api_step ops g g'"
| step_delete_edge: "graph_DeleteEdge ops i g = (d, g') \<Longrightarrow> api_step ops g g'"

inductive ingest_step :: "'s storage_ops \<Rightarrow> 's graph \<Rightarrow> 's graph \<Rightarrow> bool" for ops where
  step_api: "api_step ops g g' \<Longrightarrow> ingest_step ops g g'"
| step_upsert_edge: "colons i = 2 \<Longrightarrow> props_ok ps \<Longrightarrow>
     UpsertEdge ops i label from to ps g = (r, g') \<Longrightarrow> ingest_step ops g g'"

text \<open>No edge without its two nodes.\<close>

definition no_dangling :: "(string \<Rightarrow> node option) \<Rightarrow> (string \<Rightarrow> edge option) \<Rightarrow> bool" where
  "no_dangling N E \<longleftrightarrow> (\<forall>k e. E k = Some e \<longrightarrow> N (e_from e) \<noteq> None \<and> N (e_to e) \<noteq> None)"

context graph_storage
begin

lemma api_step_inv: "api_step ops g g' \<Longrightarrow> g_inv g \<Longrightarrow> g_inv g'"
proof (induction rule: api_step.induct)
  case step_create_node then show ?case using create_node by blast
next
  case step_create_edge then show ?case using create_edge by blast
next
  case step_upsert_node then show ?case using upsert_node by blast
next
  case step_delete_node then show ?case using delete_node_graph by blast
next
  case step_delete_edge then show ?case using delete_edge_graph by blast
qed

lemma ingest_step_inv: "ingest_step ops g g' \<Longrightarrow> g_inv g \<Longrightarrow> g_inv g'"
proof (induction rule: ingest_step.induct)
  case step_api then show ?case using api_step_inv by blast
next
  case step_upsert_edge then show ?case using upsert_edge by blast
qed

lemma ingest_steps_inv: "(ingest_step ops)\<^sup>*\<^sup>* g g' \<Longrightarrow> g_inv g \<Longrightarrow> g_inv g'"
  by (induction rule: rtranclp_induct) (auto intro: ingest_step_inv)

lemma no_dangling_nodes_mono:
  "no_dangling N E \<Longrightarrow> dom N \<subseteq> dom N' \<Longrightarrow> no_dangling N' E"
  unfolding no_dangling_def by blast

lemma no_dangling_upd:
  assumes "no_dangling N E" and "N (e_from e) \<noteq> None" and "N (e_to e) \<noteq> None"
  shows "no_dangling N (E(k \<mapsto> e))"
  using assms by (simp add: no_dangling_def)

lemma no_dangling_del_node:
  assumes "no_dangling N E"
  shows "no_dangling (N(i := None)) (\<lambda>k. case E k of None \<Rightarrow> None
    | Some e \<Rightarrow> if N i \<noteq> None \<and> incident i e then None else Some e)"
  using assms by (force simp: no_dangling_def incident_def split: option.splits if_splits)

lemma api_step_no_dangling:
  "api_step ops g g' \<Longrightarrow> g_inv g \<Longrightarrow> no_dangling (g_nodes g) (g_edges g) \<Longrightarrow>
     no_dangling (g_nodes g') (g_edges g')"
proof (induction rule: api_step.induct)
  case (step_create_node label ps g r g')
  note spec = create_node [OF step_create_node.prems(1) step_create_node.hyps]
  then have "g_edges g' = g_edges g" by blast
  moreover have "dom (g_nodes g) \<subseteq> dom (g_nodes g')"
  proof (cases r)
    case (Ok n)
    with spec obtain m where "g_nodes g' = (g_nodes g)(n_id n \<mapsto> m)" by blast
    then show ?thesis by auto
  next
    case (Err e)
    with spec have "g_nodes g' = g_nodes g" by blast
    then show ?thesis by simp
  qed (use spec in simp)
  ultimately show ?case using step_create_node.prems(2) by (simp add: no_dangling_nodes_mono)
next
  case (step_create_edge label ps "from" to g r g')
  note spec = create_edge [OF step_create_edge.prems(1) step_create_edge.hyps]
  show ?case
  proof (cases r)
    case (Ok e)
    with spec obtain f where
      "g_nodes g from \<noteq> None" "g_nodes g to \<noteq> None" "e = new_edge g label from to ps"
      "edge_json e = Some f" "g_edges g' = (g_edges g)(e_id e \<mapsto> f)" "g_nodes g' = g_nodes g"
      by blast
    with step_create_edge.prems(2) show ?thesis
      using edge_json_fields(3,4) [of e f]
      by (simp add: new_edge_def no_dangling_def)
  next
    case (Err x)
    with spec have "g_edges g' = g_edges g" "g_nodes g' = g_nodes g" by simp_all
    with step_create_edge.prems(2) show ?thesis by simp
  next
    case Panic
    with spec show ?thesis by simp
  qed
next
  case (step_upsert_node label ps i g r g')
  note spec = upsert_node [OF step_upsert_node.prems(1) step_upsert_node.hyps]
  then have "g_edges g' = g_edges g" by blast
  moreover have "dom (g_nodes g) \<subseteq> dom (g_nodes g')"
  proof (cases "\<exists>n. r = Ok n")
    case True
    with spec obtain m where "g_nodes g' = (g_nodes g)(i \<mapsto> m)" by blast
    then show ?thesis by auto
  next
    case False
    with spec have "g_nodes g' = g_nodes g" by blast
    then show ?thesis by simp
  qed
  ultimately show ?case using step_upsert_node.prems(2) by (simp add: no_dangling_nodes_mono)
next
  case (step_delete_node i g d g')
  note spec = delete_node_graph [OF step_delete_node.prems(1) step_delete_node.hyps]
  show ?case
  proof (cases "d = Ok ()")
    case True
    with spec have "g_nodes g' = (g_nodes g)(i := None)"
      "g_edges g' = (\<lambda>k. case g_edges g k of None \<Rightarrow> None
         | Some e \<Rightarrow> if g_nodes g i \<noteq> None \<and> incident i e then None else Some e)" by blast+
    then show ?thesis by (simp only: no_dangling_del_node [OF step_delete_node.prems(2)])
  next
    case False
    with spec have "g_nodes g' = g_nodes g" "g_edges g' = g_edges g" by blast+
    with step_delete_node.prems(2) show ?thesis by simp
  qed
next
  case (step_delete_edge i g d g')
  note spec = delete_edge_graph [OF step_delete_edge.prems(1) step_delete_edge.hyps]
  have "no_dangling (g_nodes g) ((g_edges g)(i := None))"
    using step_delete_edge.prems(2) by (simp add: no_dangling_def)
  with spec step_delete_edge.prems(2) show ?case by metis
qed

lemma api_steps_no_dangling:
  "(api_step ops)\<^sup>*\<^sup>* g g' \<Longrightarrow> g_inv g \<Longrightarrow> no_dangling (g_nodes g) (g_edges g) \<Longrightarrow>
     g_inv g' \<and> no_dangling (g_nodes g') (g_edges g')"
  by (induction rule: rtranclp_induct) (auto intro: api_step_inv api_step_no_dangling)

end

end
