(* ===== verification/Mem_Store.thy ===== *)
theory Mem_Store
  imports Graph_Engine
begin

text \<open>
  A key-value store that lives in memory: an association list whose iteration yields the
  keys in byte order. It meets \<open>kv_laws\<close>, so the laws the development assumes of BadgerDB
  can hold, and the witnesses run on it.
\<close>

type_synonym mem = "(string \<times> entry) list"

definition mem_kv :: "mem kvops" where
  "mem_kv = \<lparr>
     kv_get = (\<lambda>s k. case map_of s k of None \<Rightarrow> Inl KeyNotFound | Some e \<Rightarrow> Inr e),
     kv_set = (\<lambda>k e s. Inr (AList.update k e s)),
     kv_delete = (\<lambda>k s. Inr (AList.delete k s)),
     kv_keys = (\<lambda>s p. sort (remdups (filter (has_prefix p) (map fst s)))),
     kv_commit = Inr\<rparr>"

lemma mem_view [simp]: "kv_view mem_kv s = map_of s"
  by (rule ext) (simp add: kv_view_def mem_kv_def split: option.splits)

lemma mem_kv_laws [simp]: "kv_laws mem_kv"
  unfolding kv_laws_def mem_view
  by (intro conjI allI impI)
    (auto simp: mem_kv_def delete_conv' map_of_eq_None_iff image_iff simp del: not_None_eq
      split: option.splits)

lemma wf_empty: "wf_view Map.empty"
  by (simp add: wf_view_def nodes_wf_def edges_wf_def mirrors_def node_at_def edge_at_def)

lemma mem_inv_empty [simp]: "badger_inv mem_kv []"
  by (simp add: badger_inv_def wf_empty)

text \<open>A fresh engine over an empty store; the clock starts in January 2026.\<close>

definition fresh_graph :: "mem graph" where
  "fresh_graph = \<lparr>g_store = [], g_ctr = 0,
     g_clock = (\<lambda>t. 1767225600 * 10 ^ 9 + int t), g_tick = 0\<rparr>"

abbreviation mem_ops :: "mem storage_ops" where
  "mem_ops \<equiv> badger_storage mem_kv"

lemma fresh_graph_inv [simp]: "badger_inv mem_kv (g_store fresh_graph)"
  by (simp add: fresh_graph_def)

text \<open>Nothing fails in memory: a document that can be encoded is stored.\<close>

lemma mem_set [simp]: "txn_set mem_kv k e s = (Ok (), AList.update k e s)"
  by (simp add: txn_set_def lift_kv_def mem_kv_def)

lemma mem_delete [simp]: "txn_delete mem_kv k s = (Ok (), AList.delete k s)"
  by (simp add: txn_delete_def lift_kv_def mem_kv_def)

lemma kv_commit_mem: "kv_commit mem_kv = Inr"
  by (simp add: mem_kv_def)

lemma mem_put_node:
  assumes "node_json n = Some m"
  shows "fst (PutNode mem_kv n s) = Ok ()"
proof -
  have "\<exists>old. getNodeInTxn mem_kv (n_id n) s = (old, s) \<and> old \<noteq> Panic"
    by (auto simp: getNodeInTxn_def txn_get_def go_bind_def mem_kv_def go_ret_def go_raise_def
        go_sum_def decode_node_def split: option.splits entry.splits)
  then obtain old where "getNodeInTxn mem_kv (n_id n) s = (old, s)" "old \<noteq> Panic" by blast
  then show ?thesis
    using assms by (cases old) (auto simp: PutNode_def db_update_def DeindexNode_def IndexNode_def
        go_bind_def go_try_def go_ret_def kv_commit_mem)
qed

section \<open>Sample documents and histories\<close>

definition ann :: node where
  "ann = \<lparr>n_id = ''n:Agent:ann'', n_label = ''Agent'', n_props = Some [(''name'', VStr ''Ann'')],
          n_created = 0\<rparr>"

definition bob :: node where
  "bob = \<lparr>n_id = ''n:Agent:bob'', n_label = ''Agent'', n_props = Some [(''name'', VStr ''Bob'')],
          n_created = 0\<rparr>"

definition knows :: edge where
  "knows = \<lparr>e_id = ''e:KNOWS:1'', e_label = ''KNOWS'', e_from = ''n:Agent:ann'',
            e_to = ''n:Agent:bob'', e_props = None, e_created = 0\<rparr>"

text \<open>Ann and Bob, and Ann knows Bob.\<close>

definition mem_ann :: mem where "mem_ann = snd (PutNode mem_kv ann [])"
definition mem_both :: mem where "mem_both = snd (PutNode mem_kv bob mem_ann)"
definition mem_knows :: mem where "mem_knows = snd (PutEdge mem_kv knows mem_both)"

lemma samples_ok [simp]: "node_ok ann" "node_ok bob" "edge_ok knows"
  by (simp_all add: node_ok_def edge_ok_def props_ok_def ann_def bob_def knows_def)

lemma mem_samples_wf [simp]: "badger_inv mem_kv mem_ann" "badger_inv mem_kv mem_both"
  "badger_inv mem_kv mem_knows"
proof -
  show a: "badger_inv mem_kv mem_ann"
    unfolding mem_ann_def
    using badger.put_node [of mem_kv "[]" ann] by (simp add: badger_storage_def prod_eq_iff)
  show b: "badger_inv mem_kv mem_both"
    unfolding mem_both_def
    using badger.put_node [of mem_kv mem_ann bob] a by (simp add: badger_storage_def prod_eq_iff)
  show "badger_inv mem_kv mem_knows"
    unfolding mem_knows_def
    using badger.put_edge [of mem_kv mem_both knows] b by (simp add: badger_storage_def prod_eq_iff)
qed

lemma mem_knows_nodes:
  "badger_nodes mem_kv mem_knows ''n:Agent:ann'' = Some ann"
  "badger_nodes mem_kv mem_knows ''n:Agent:bob'' = Some bob"
  "badger_edges mem_kv mem_knows ''e:KNOWS:1'' = Some knows"
  unfolding badger_nodes_def badger_edges_def mem_view by code_simp+

lemma mem_knows_edges: "badger_edges mem_kv mem_knows = [''e:KNOWS:1'' \<mapsto> knows]"
proof -
  have "badger_edges mem_kv [] = Map.empty"
    by (rule ext) (simp add: badger_edges_def edge_at_def)
  moreover have "badger_edges mem_kv mem_ann = badger_edges mem_kv []"
    unfolding mem_ann_def
    using badger.put_node [of mem_kv "[]" ann] by (simp add: badger_storage_def prod_eq_iff)
  moreover have "badger_edges mem_kv mem_both = badger_edges mem_kv mem_ann"
    unfolding mem_both_def
    using badger.put_node [of mem_kv mem_ann bob] by (simp add: badger_storage_def prod_eq_iff)
  moreover have "fst (PutEdge mem_kv knows mem_both) = Ok ()" by code_simp
  moreover have "edge_json knows = Some knows" by code_simp
  moreover have "e_id knows = ''e:KNOWS:1''" by (simp add: knows_def)
  ultimately show ?thesis
    unfolding mem_knows_def
    using badger.put_edge [of mem_kv mem_both knows]
    by (simp add: badger_storage_def prod_eq_iff)
qed

lemma mem_knows_no_dangling:
  "no_dangling (badger_nodes mem_kv mem_knows) (badger_edges mem_kv mem_knows)"
  by (simp add: no_dangling_def mem_knows_edges mem_knows_nodes knows_def)

definition knows_graph :: "mem graph" where
  "knows_graph = fresh_graph\<lparr>g_store := mem_knows\<rparr>"

lemma knows_graph_inv [simp]: "badger_inv mem_kv (g_store knows_graph)"
  by (simp add: knows_graph_def)

end
