(* ===== verification/Storage_Properties.thy ===== *)
theory Storage_Properties
  imports Mem_Store
begin

text \<open>
  The correctness of the graph engine over the Badger backend: what each write does to the
  stored graph, that the secondary indexes answer exactly, the invariants of histories of
  calls, and two behaviours of identifiers and nil maps that callers have to know.
\<close>

text \<open>
  C1. \<open>PutNode\<close> is one atomic step: it replaces the document of the node by what JSON keeps
  of it, leaves every other node and every edge alone and keeps documents and index entries
  in step; when it fails, nothing changes.
\<close>
theorem put_node_refines:
  assumes "kv_laws kv" and "wf_view (kv_view kv s)" and "node_ok n"
    and "PutNode kv n s = (r, t)"
  shows "wf_view (kv_view kv t) \<and> badger_edges kv t = badger_edges kv s \<and>
    (r = Ok () \<and> (\<exists>m. node_json n = Some m \<and>
        badger_nodes kv t = (badger_nodes kv s)(n_id n \<mapsto> m)) \<or>
     (\<exists>e. r = Err e \<and> t = s))"
proof -
  have inv: "badger_inv kv s" using assms(1,2) by (simp add: badger_inv_def)
  have "st_put_node (badger_storage kv) n s = (r, t)"
    using assms(4) by (simp add: badger_storage_def)
  from badger.put_node [OF inv assms(3) this] show ?thesis
    by (cases r) (auto simp: badger_inv_def)
qed

theorem put_node_refines_witness:
  "badger_nodes mem_kv (snd (PutNode mem_kv ann [])) ''n:Agent:ann'' = Some ann \<and>
   wf_view (kv_view mem_kv (snd (PutNode mem_kv ann [])))"
proof -
  have "fst (PutNode mem_kv ann []) = Ok ()" by code_simp
  then have run: "PutNode mem_kv ann [] = (Ok (), snd (PutNode mem_kv ann []))"
    by (simp add: prod_eq_iff)
  have json: "node_json ann = Some ann" by code_simp
  have "n_id ann = ''n:Agent:ann''" by (simp add: ann_def)
  with json put_node_refines [OF mem_kv_laws _ samples_ok(1) run]
  show ?thesis by (simp add: wf_empty)
qed

text \<open>
  C2. \<open>DeleteNode\<close> of a stored node removes the node and exactly the edges that start or
  end at it, with their index entries; deleting an unknown node succeeds and changes
  nothing in the graph.
\<close>
theorem delete_node_cascades:
  assumes "kv_laws kv" and "wf_view (kv_view kv s)" and "DeleteNode kv i s = (Ok (), t)"
  shows "wf_view (kv_view kv t) \<and> badger_nodes kv t = (badger_nodes kv s)(i := None) \<and>
    (badger_nodes kv s i \<noteq> None \<longrightarrow>
       (\<forall>k. badger_edges kv t k = (case badger_edges kv s k of None \<Rightarrow> None
          | Some e \<Rightarrow> if incident i e then None else Some e))) \<and>
    (badger_nodes kv s i = None \<longrightarrow> badger_edges kv t = badger_edges kv s)"
proof -
  have inv: "badger_inv kv s" using assms(1,2) by (simp add: badger_inv_def)
  have "st_delete_node (badger_storage kv) i s = (Ok (), t)"
    using assms(3) by (simp add: badger_storage_def)
  from badger.delete_node [OF inv this] show ?thesis
    by (auto simp: badger_inv_def split: option.splits)
qed

theorem delete_node_cascades_witness:
  "badger_nodes mem_kv (snd (DeleteNode mem_kv ''n:Agent:bob'' mem_knows)) ''n:Agent:bob'' = None \<and>
   badger_nodes mem_kv (snd (DeleteNode mem_kv ''n:Agent:bob'' mem_knows)) ''n:Agent:ann'' = Some ann \<and>
   badger_edges mem_kv (snd (DeleteNode mem_kv ''n:Agent:bob'' mem_knows)) ''e:KNOWS:1'' = None"
proof -
  have "fst (DeleteNode mem_kv ''n:Agent:bob'' mem_knows) = Ok ()" by code_simp
  then have "DeleteNode mem_kv ''n:Agent:bob'' mem_knows =
      (Ok (), snd (DeleteNode mem_kv ''n:Agent:bob'' mem_knows))"
    by (simp add: prod_eq_iff)
  from delete_node_cascades [OF mem_kv_laws badger_invD(2) [OF mem_samples_wf(3)] this]
  show ?thesis by (simp add: mem_knows_nodes incident_def knows_def)
qed

text \<open>
  \<open>NodesByLabel\<close> returns every stored node with the label, each once, and no other
  node, for labels without a colon.
\<close>
theorem nodes_by_label_exact:
  assumes "kv_laws kv" and "wf_view (kv_view kv s)" and "colon_free l"
  shows "\<exists>ns. NodesByLabel kv l s = (Ok ns, s) \<and> distinct (map n_id ns) \<and>
    set ns = {n. badger_nodes kv s (n_id n) = Some n \<and> n_label n = l}"
  using NodesByLabel_view [of kv s l] assms by (simp add: badger_nodes_def wf_view_def)

theorem nodes_by_label_exact_witness:
  "\<exists>ns. NodesByLabel mem_kv ''Agent'' mem_knows = (Ok ns, mem_knows) \<and> ann \<in> set ns \<and> bob \<in> set ns"
proof -
  have "colon_free ''Agent''" by simp
  from nodes_by_label_exact [OF mem_kv_laws badger_invD(2) [OF mem_samples_wf(3)] this]
  obtain ns where ns: "NodesByLabel mem_kv ''Agent'' mem_knows = (Ok ns, mem_knows)"
    "set ns = {n. badger_nodes mem_kv mem_knows (n_id n) = Some n \<and> n_label n = ''Agent''}"
    by blast
  have "ann \<in> set ns" "bob \<in> set ns"
    unfolding ns(2) using mem_knows_nodes by (simp_all add: ann_def bob_def)
  with ns(1) show ?thesis by blast
qed

text \<open>
  \<open>EdgesByNode\<close> returns exactly the stored edges that start or end at the node, each
  once, a self-loop included, although its prefix scans can also meet keys of other nodes
  whose identifier extends this one.
\<close>
theorem edges_by_node_exact:
  assumes "kv_laws kv" and "wf_view (kv_view kv s)"
  shows "\<exists>es. EdgesByNode kv i s = (Ok es, s) \<and> distinct (map e_id es) \<and>
    set es = {e. badger_edges kv s (e_id e) = Some e \<and> incident i e}"
  using EdgesByNode_view [of kv s i] assms by (simp add: badger_edges_def wf_view_def)

theorem edges_by_node_exact_witness:
  "\<exists>es. EdgesByNode mem_kv ''n:Agent:ann'' mem_knows = (Ok es, mem_knows) \<and> knows \<in> set es"
proof -
  from edges_by_node_exact [OF mem_kv_laws badger_invD(2) [OF mem_samples_wf(3)],
      of "''n:Agent:ann''"]
  obtain es where es: "EdgesByNode mem_kv ''n:Agent:ann'' mem_knows = (Ok es, mem_knows)"
    "set es = {e. badger_edges mem_kv mem_knows (e_id e) = Some e \<and> incident ''n:Agent:ann'' e}"
    by blast
  have "knows \<in> set es"
    unfolding es(2) using mem_knows_nodes by (simp add: knows_def incident_def)
  with es(1) show ?thesis by blast
qed

text \<open>
  C3. Along every history of engine calls, with whatever results, documents and index
  entries stay in step.
\<close>
theorem history_keeps_indexes:
  assumes "kv_laws kv" and "wf_view (kv_view kv (g_store g))"
    and "(ingest_step (badger_storage kv))\<^sup>*\<^sup>* g g'"
  shows "wf_view (kv_view kv (g_store g'))"
  using badger.ingest_steps_inv [OF assms(3)] assms(1,2) by (simp add: badger_inv_def)

theorem history_keeps_indexes_witness:
  "wf_view (kv_view mem_kv (g_store (snd (CreateNode mem_ops ''Agent'' None fresh_graph))))"
proof -
  have "ingest_step mem_ops fresh_graph (snd (CreateNode mem_ops ''Agent'' None fresh_graph))"
    by (rule step_api, rule step_create_node [where r = "fst (CreateNode mem_ops ''Agent'' None fresh_graph)"])
      (simp_all add: props_ok_def)
  then have "(ingest_step mem_ops)\<^sup>*\<^sup>* fresh_graph
      (snd (CreateNode mem_ops ''Agent'' None fresh_graph))" by blast
  then show ?thesis
    by (rule history_keeps_indexes [OF mem_kv_laws badger_invD(2) [OF fresh_graph_inv]])
qed

text \<open>
  C4. No history of \<open>CreateNode\<close>, \<open>CreateEdge\<close>, \<open>UpsertNode\<close>, \<open>DeleteNode\<close> and
  \<open>DeleteEdge\<close> calls leaves an edge without one of its nodes.
\<close>
theorem history_no_dangling:
  assumes "kv_laws kv" and "wf_view (kv_view kv (g_store g))"
    and "no_dangling (badger_nodes kv (g_store g)) (badger_edges kv (g_store g))"
    and "(api_step (badger_storage kv))\<^sup>*\<^sup>* g g'"
  shows "no_dangling (badger_nodes kv (g_store g')) (badger_edges kv (g_store g'))"
  using badger.api_steps_no_dangling [OF assms(4)] assms(1-3) by (simp add: badger_inv_def)

theorem history_no_dangling_witness:
  "no_dangling
    (badger_nodes mem_kv (g_store (snd (graph_DeleteNode mem_ops ''n:Agent:bob'' knows_graph))))
    (badger_edges mem_kv (g_store (snd (graph_DeleteNode mem_ops ''n:Agent:bob'' knows_graph))))"
proof -
  have "api_step mem_ops knows_graph (snd (graph_DeleteNode mem_ops ''n:Agent:bob'' knows_graph))"
    by (rule step_delete_node
        [where d = "fst (graph_DeleteNode mem_ops ''n:Agent:bob'' knows_graph)"]) simp
  then have "(api_step mem_ops)\<^sup>*\<^sup>* knows_graph
      (snd (graph_DeleteNode mem_ops ''n:Agent:bob'' knows_graph))" by blast
  moreover have "no_dangling (badger_nodes mem_kv (g_store knows_graph))
      (badger_edges mem_kv (g_store knows_graph))"
    by (simp add: knows_graph_def mem_knows_no_dangling)
  ultimately show ?thesis
    using history_no_dangling [OF mem_kv_laws badger_invD(2) [OF knows_graph_inv]] by blast
qed

text \<open>
  \<open>CreateEdge\<close> succeeds only between two stored nodes; a missing endpoint is reported
  by name, source first, and neither the store nor the identifier counter moves.
\<close>
theorem create_edge_endpoints:
  assumes "kv_laws kv" and "wf_view (kv_view kv (g_store g))"
    and "colon_free label" and "props_ok ps"
    and "CreateEdge (badger_storage kv) label src dst ps g = (r, g')"
  shows "(badger_nodes kv (g_store g) src = None \<longrightarrow>
       error_text (case r of Err e \<Rightarrow> e | _ \<Rightarrow> Msg '''') =
         ''source node '' @ src @ '': node '' @ src @ '' not found'' \<and> g' = g) \<and>
    (badger_nodes kv (g_store g) src \<noteq> None \<and> badger_nodes kv (g_store g) dst = None \<longrightarrow>
       error_text (case r of Err e \<Rightarrow> e | _ \<Rightarrow> Msg '''') =
         ''target node '' @ dst @ '': node '' @ dst @ '' not found'' \<and> g' = g) \<and>
    (\<forall>e. r = Ok e \<longrightarrow> badger_nodes kv (g_store g) src \<noteq> None \<and>
       badger_nodes kv (g_store g) dst \<noteq> None \<and> e_from e = src \<and> e_to e = dst \<and>
       (\<exists>f. edge_json e = Some f \<and>
          badger_edges kv (g_store g') = (badger_edges kv (g_store g))(e_id e \<mapsto> f)))"
proof -
  have inv: "badger_inv kv (g_store g)" using assms(1,2) by (simp add: badger_inv_def)
  from badger.create_edge [OF inv assms(3,4,5)] badger.CreateEdge_run [OF inv, of label src dst ps]
    assms(5)
  show ?thesis by (auto simp: new_edge_def split: if_splits)
qed

theorem create_edge_endpoints_witness:
  "snd (CreateEdge mem_ops ''KNOWS'' ''n:Agent:ann'' ''n:Agent:eve'' None knows_graph) = knows_graph"
proof -
  let ?c = "CreateEdge mem_ops ''KNOWS'' ''n:Agent:ann'' ''n:Agent:eve'' None knows_graph"
  have eve: "badger_nodes mem_kv (g_store knows_graph) ''n:Agent:eve'' = None"
    unfolding badger_nodes_def mem_view knows_graph_def by code_simp
  have "badger_nodes mem_kv (g_store knows_graph) ''n:Agent:ann'' \<noteq> None"
    by (simp add: knows_graph_def mem_knows_nodes)
  with eve create_edge_endpoints [OF mem_kv_laws badger_invD(2) [OF knows_graph_inv],
      of "''KNOWS''" None "''n:Agent:ann''" "''n:Agent:eve''" "fst ?c" "snd ?c"]
  show ?thesis by (simp add: props_ok_def)
qed

text \<open>
  \<open>UpsertNode\<close> is idempotent: the same call again neither panics nor changes any node or
  edge, although the values of the first call came back from JSON in another form.
\<close>
theorem upsert_node_idempotent:
  assumes "kv_laws kv" and "wf_view (kv_view kv (g_store g))"
    and "colon_free label" and "props_ok ps"
    and "UpsertNode (badger_storage kv) i label ps g = (Ok n, g1)"
    and "UpsertNode (badger_storage kv) i label ps g1 = (r, g2)"
  shows "r \<noteq> Panic \<and> badger_nodes kv (g_store g2) = badger_nodes kv (g_store g1) \<and>
    badger_edges kv (g_store g2) = badger_edges kv (g_store g1)"
proof -
  have "badger_inv kv (g_store g)" using assms(1,2) by (simp add: badger_inv_def)
  from badger.upsert_node_twice [OF this assms(3-6)] show ?thesis .
qed

theorem upsert_node_idempotent_witness:
  "badger_nodes mem_kv (g_store (snd (UpsertNode mem_ops ''n:Agent:ann'' ''Agent''
      (Some [(''role'', VStr ''lead'')]) (snd (UpsertNode mem_ops ''n:Agent:ann'' ''Agent''
      (Some [(''role'', VStr ''lead'')]) knows_graph))))) =
   badger_nodes mem_kv (g_store (snd (UpsertNode mem_ops ''n:Agent:ann'' ''Agent''
      (Some [(''role'', VStr ''lead'')]) knows_graph)))"
proof -
  let ?u = "UpsertNode mem_ops ''n:Agent:ann'' ''Agent'' (Some [(''role'', VStr ''lead'')])"
  have "case fst (?u knows_graph) of Ok _ \<Rightarrow> True | _ \<Rightarrow> False" by code_simp
  then obtain n where n: "?u knows_graph = (Ok n, snd (?u knows_graph))"
    by (cases "?u knows_graph") (auto split: outcome.splits)
  have "colon_free ''Agent''" "props_ok (Some [(''role'', VStr ''lead'')])"
    by (simp_all add: props_ok_def)
  from upsert_node_idempotent [OF mem_kv_laws badger_invD(2) [OF knows_graph_inv] this n
      prod.collapse [symmetric]]
  show ?thesis by blast
qed

text \<open>
  C5. \<open>CreateNode\<close> does not look whether its identifier is taken: when the counter, which
  starts at zero in every process, yields the identifier of a stored node, the call
  succeeds and that node's document is replaced.
\<close>
theorem create_node_overwrites:
  assumes "kv_laws kv" and "wf_view (kv_view kv (g_store g))"
    and "colon_free label" and "props_ok ps"
    and "badger_nodes kv (g_store g) (''n:'' @ label @ '':'' @ show_int (g_ctr g + 1)) = Some old"
    and "g_ctr g < int64_max"
    and "CreateNode (badger_storage kv) label ps g = (Ok n, g')"
  shows "n_id n = n_id old \<and>
    (\<exists>m. props_json ps = Some (n_props m) \<and> n_created m = g_clock g (g_tick g) \<and>
       badger_nodes kv (g_store g') = (badger_nodes kv (g_store g))(n_id old \<mapsto> m))"
proof -
  have inv: "badger_inv kv (g_store g)" using assms(1,2) by (simp add: badger_inv_def)
  from badger.create_node [OF inv assms(3,4,7)] obtain m where
    m: "n = new_node g label ps" "node_json n = Some m"
      "badger_nodes kv (g_store g') = (badger_nodes kv (g_store g))(n_id n \<mapsto> m)" by blast
  have "n_id n = n_id old"
    using badger.keyed_node [OF inv assms(5)] assms(6) m(1)
    by (simp add: new_node_def next_ctr_def)
  moreover have "props_json ps = Some (n_props m)" "n_created m = g_clock g (g_tick g)"
    using node_json_fields [OF m(2)] m(1) by (simp_all add: new_node_def)
  ultimately show ?thesis using m(3) by auto
qed

theorem create_node_overwrites_witness:
  "let c = CreateNode mem_ops ''Agent'' (Some [(''name'', VStr ''Ann'')]) fresh_graph;
       restarted = (snd c)\<lparr>g_ctr := 0\<rparr>;
       d = CreateNode mem_ops ''Agent'' (Some [(''name'', VStr ''Bob'')]) restarted
   in map_option n_props (badger_nodes mem_kv (g_store (snd c)) ''n:Agent:1'')
        = Some (Some [(''name'', VStr ''Ann'')]) \<and>
      map_option n_props (badger_nodes mem_kv (g_store (snd d)) ''n:Agent:1'')
        = Some (Some [(''name'', VStr ''Bob'')])"
proof -
  define c where "c = CreateNode mem_ops ''Agent'' (Some [(''name'', VStr ''Ann'')]) fresh_graph"
  define h where "h = (snd c)\<lparr>g_ctr := 0\<rparr>"
  define d where "d = CreateNode mem_ops ''Agent'' (Some [(''name'', VStr ''Bob'')]) h"
  define old where "old = new_node fresh_graph ''Agent'' (Some [(''name'', VStr ''Ann'')])"
  have inv: "badger_inv mem_kv (g_store h)"
    using badger.create_node [OF fresh_graph_inv, of "''Agent''" "Some [(''name'', VStr ''Ann'')]"
        "fst c" "snd c"]
    by (simp add: c_def h_def props_ok_def)
  have at: "badger_nodes mem_kv (g_store (snd c)) ''n:Agent:1'' = Some old"
    unfolding badger_nodes_def mem_view c_def old_def by code_simp
  moreover have ctr: "g_ctr h = 0" by (simp add: h_def)
  moreover have one: "show_int 1 = ''1''" by code_simp
  ultimately have here: "badger_nodes mem_kv (g_store h)
      (''n:'' @ ''Agent'' @ '':'' @ show_int (g_ctr h + 1)) = Some old"
    using one by (simp add: h_def)
  have "case fst d of Ok _ \<Rightarrow> True | _ \<Rightarrow> False" unfolding d_def h_def c_def by code_simp
  then obtain n where n: "CreateNode mem_ops ''Agent'' (Some [(''name'', VStr ''Bob'')]) h =
      (Ok n, snd d)"
    by (cases d) (auto simp: d_def split: outcome.splits)
  have "colon_free ''Agent''" "props_ok (Some [(''name'', VStr ''Bob'')])" "g_ctr h < int64_max"
    by (simp_all add: props_ok_def ctr int64_max_def)
  from create_node_overwrites [OF mem_kv_laws badger_invD(2) [OF inv] this(1,2) here this(3) n]
  obtain m where m: "props_json (Some [(''name'', VStr ''Bob'')]) = Some (n_props m)"
    "badger_nodes mem_kv (g_store (snd d)) = (badger_nodes mem_kv (g_store h))(n_id old \<mapsto> m)"
    by blast
  have "n_id old = ''n:Agent:1''" unfolding old_def by code_simp
  with m have "map_option n_props (badger_nodes mem_kv (g_store (snd d)) ''n:Agent:1'') =
      Some (Some [(''name'', VStr ''Bob'')])"
    by (simp add: props_json_def)
  moreover have "n_props old = Some [(''name'', VStr ''Ann'')]" by (simp add: old_def new_node_def)
  ultimately show ?thesis
    unfolding Let_def c_def [symmetric] h_def [symmetric] d_def [symmetric]
    using at by simp
qed

text \<open>
  An edge created with nil properties is stored with a nil map; \<open>UpsertEdge\<close> of that edge
  with at least one property panics (an assignment into a nil map), and the store stays as
  it was.
\<close>
theorem nil_props_upsert_panics:
  assumes "kv_laws kv" and "wf_view (kv_view kv (g_store g))"
    and "colon_free label" and "ps \<noteq> []"
    and "CreateEdge (badger_storage kv) label src dst None g = (Ok e, g1)"
  shows "fst (UpsertEdge (badger_storage kv) (e_id e) label' src' dst' (Some ps) g1) = Panic \<and>
    g_store (snd (UpsertEdge (badger_storage kv) (e_id e) label' src' dst' (Some ps) g1)) = g_store g1"
proof -
  have inv: "badger_inv kv (g_store g)" using assms(1,2) by (simp add: badger_inv_def)
  have ok: "props_ok None" by (simp add: props_ok_def)
  from badger.create_edge [OF inv assms(3) ok assms(5)] obtain f where
    inv1: "badger_inv kv (g_store g1)" and e: "e = new_edge g label src dst None"
    and f: "edge_json e = Some f" "badger_edges kv (g_store g1) = (badger_edges kv (g_store g))(e_id e \<mapsto> f)"
    by blast
  have "e_props f = None"
    using edge_json_fields(6) [OF f(1)] by (simp add: e new_edge_def props_json_def)
  then have "upsert_edge_doc g1 (e_id e) label' src' dst' (Some ps)
      (badger_edges kv (g_store g1) (e_id e)) = None"
    using assms(4) by (simp add: f(2) upsert_edge_doc_def merge_props_def)
  then show ?thesis by (simp add: badger.UpsertEdge_run [OF inv1])
qed

theorem nil_props_upsert_panics_witness:
  "fst (UpsertEdge mem_ops ''e:KNOWS:1'' ''KNOWS'' ''a'' ''b'' (Some [(''w'', VStr ''1'')])
     (snd (CreateEdge mem_ops ''KNOWS'' ''n:Agent:ann'' ''n:Agent:bob'' None knows_graph))) = Panic"
proof -
  let ?c = "CreateEdge mem_ops ''KNOWS'' ''n:Agent:ann'' ''n:Agent:bob'' None knows_graph"
  have "case fst ?c of Ok e \<Rightarrow> e_id e = ''e:KNOWS:1'' | _ \<Rightarrow> False" by code_simp
  then obtain e where e: "?c = (Ok e, snd ?c)" "e_id e = ''e:KNOWS:1''"
    by (cases ?c) (auto split: outcome.splits)
  have "colon_free ''KNOWS''" by simp
  from nil_props_upsert_panics [OF mem_kv_laws badger_invD(2) [OF knows_graph_inv] this _ e(1),
      of "[(''w'', VStr ''1'')]" "''KNOWS''" "''a''" "''b''"]
  show ?thesis by (simp add: e(2))
qed

end
