(* ===== verification/PackStream.thy ===== *)
theory PackStream
  imports Go_Value
begin

text \<open>
  The PackStream codec of internal/server/bolt_message.go over byte lists. A Go map is
  written in the order of its association list, which stands for the order the runtime
  iterates in. Decoding recurses into nested values; its fuel bounds the nesting depth and
  \<open>ps_dec_fuel\<close> shows that the length of the input is always enough.
\<close>

unbundle bit_operations_syntax

type_synonym byte = "8 word"

section \<open>Bytes\<close>

definition byte_of :: "char \<Rightarrow> byte" where "byte_of c = word_of_nat (of_char c)"
definition char_at :: "byte \<Rightarrow> char" where "char_at b = char_of (unat b)"

lemma char_at_byte_of [simp]: "char_at (byte_of c) = c"
proof -
  have "(of_char c :: nat) < 256" by simp
  then show ?thesis by (simp add: char_at_def byte_of_def unat_of_nat)
qed

lemma map_char_at_byte_of [simp]: "map (char_at \<circ> byte_of) s = s"
  by (simp add: comp_def)

text \<open>Big-endian encodings of \<open>k\<close> bytes, as \<open>binary.Write\<close> and \<open>binary.Read\<close> use them.\<close>

primrec be :: "nat \<Rightarrow> nat \<Rightarrow> byte list" where
  "be 0 n = []"
| "be (Suc k) n = be k (n div 256) @ [word_of_nat n]"

definition un_be :: "byte list \<Rightarrow> nat" where
  "un_be bs = foldl (\<lambda>a b. a * 256 + unat b) 0 bs"

lemma length_be [simp]: "length (be k n) = k"
  by (induction k arbitrary: n) auto

lemma un_be_be [simp]: "un_be (be k n) = n mod 256 ^ k"
proof (induction k arbitrary: n)
  case (Suc k)
  have "un_be (be (Suc k) n) = un_be (be k (n div 256)) * 256 + n mod 256"
    by (simp add: un_be_def unat_of_nat)
  also have "\<dots> = (n div 256 mod 256 ^ k) * 256 + n mod 256" by (simp only: Suc)
  also have "\<dots> = n mod 256 ^ Suc k"
    by (simp add: mod_mult2_eq [of n 256 "256 ^ k"] mult.commute)
  finally show ?case .
qed (simp add: un_be_def)

section \<open>Encoding\<close>

definition packInt :: "64 word \<Rightarrow> byte list" where
  "packInt v =
     (if -16 \<le> sint v \<and> sint v \<le> 127 then [ucast v]
      else if -128 \<le> sint v \<and> sint v \<le> 127 then [0xC8, ucast v]
      else if -(2 ^ 15) \<le> sint v \<and> sint v \<le> 2 ^ 15 - 1
        then 0xC9 # be 2 (unat (ucast v :: 16 word))
      else if -(2 ^ 31) \<le> sint v \<and> sint v \<le> 2 ^ 31 - 1
        then 0xCA # be 4 (unat (ucast v :: 32 word))
      else 0xCB # be 8 (unat v))"

definition packString :: "string \<Rightarrow> byte list" where
  "packString s = (let n = length s in
     (if n < 16 then [0x80 OR word_of_nat n]
      else if n \<le> 0xFF then [0xD0, word_of_nat n]
      else if n \<le> 0xFFFF then 0xD1 # be 2 n
      else 0xD2 # be 4 n) @ map byte_of s)"

text \<open>The headers of lists and maps: above 255 entries the count is cut to 16 bits.\<close>

definition list_header :: "nat \<Rightarrow> byte list" where
  "list_header n = (if n < 16 then [0x90 OR word_of_nat n]
     else if n \<le> 0xFF then [0xD4, word_of_nat n] else 0xD5 # be 2 n)"

definition map_header :: "nat \<Rightarrow> byte list" where
  "map_header n = (if n < 16 then [0xA0 OR word_of_nat n]
     else if n \<le> 0xFF then [0xD8, word_of_nat n] else 0xD9 # be 2 n)"

fun PackStreamEncode :: "gval \<Rightarrow> gerr + byte list"
and packItems :: "gval list \<Rightarrow> gerr + byte list"
and packEntries :: "(string \<times> gval) list \<Rightarrow> gerr + byte list" where
  "PackStreamEncode VNil = Inr [0xC0]"
| "PackStreamEncode (VBool b) = Inr [if b then 0xC3 else 0xC2]"
| "PackStreamEncode (VInt v) = Inr (packInt v)"
| "PackStreamEncode (VFloat w) = Inr (0xC1 # be 8 (unat w))"
| "PackStreamEncode (VStr s) = Inr (packString s)"
| "PackStreamEncode VNilList = Inr (list_header 0)"
| "PackStreamEncode (VList vs) = map_sum id (\<lambda>b. list_header (length vs) @ b) (packItems vs)"
| "PackStreamEncode VNilMap = Inr (map_header 0)"
| "PackStreamEncode (VMap fs) = map_sum id (\<lambda>b. map_header (length fs) @ b) (packEntries fs)"
| "PackStreamEncode (VMsg t fs) =
     Inl (Msg ''packstream: unsupported type *server.BoltMessage'')"
| "packItems [] = Inr []"
| "packItems (v # vs) = (case PackStreamEncode v of Inl e \<Rightarrow> Inl e
     | Inr b \<Rightarrow> map_sum id (\<lambda>c. b @ c) (packItems vs))"
| "packEntries [] = Inr []"
| "packEntries ((k, v) # fs) = (case PackStreamEncode v of Inl e \<Rightarrow> Inl e
     | Inr b \<Rightarrow> map_sum id (\<lambda>c. packString k @ b @ c) (packEntries fs))"

section \<open>Decoding\<close>

definition eof :: gerr where "eof = Msg ''EOF''"
definition unexpected_eof :: gerr where "unexpected_eof = Msg ''unexpected EOF''"

text \<open>\<open>io.ReadFull\<close> of \<open>n\<close> bytes; a single byte and \<open>binary.Read\<close> fail the same way.\<close>

definition read_n :: "nat \<Rightarrow> byte list \<Rightarrow> gerr + byte list \<times> byte list" where
  "read_n n bs = (if n \<le> length bs then Inr (take n bs, drop n bs)
     else Inl (if bs = [] then eof else unexpected_eof))"

definition hex_digit :: "nat \<Rightarrow> char" where
  "hex_digit d = (if d < 10 then char_of (48 + d) else char_of (55 + d))"

definition hex_byte :: "byte \<Rightarrow> string" where
  "hex_byte b = [hex_digit (unat b div 16), hex_digit (unat b mod 16)]"

text \<open>What the marker byte announces: a complete value, or a length to be read first.\<close>


definition readStringN :: "nat \<Rightarrow> byte list \<Rightarrow> gerr + gval \<times> byte list" where
  "readStringN n bs = map_sum id (\<lambda>(s, r). (VStr (map char_at s), r)) (read_n n bs)"

definition read_signed :: "nat \<Rightarrow> byte list \<Rightarrow> gerr + gval \<times> byte list" where
  "read_signed k bs = map_sum id
     (\<lambda>(s, r). (VInt (if k = 1 then scast (word_of_nat (un_be s) :: 8 word)
        else if k = 2 then scast (word_of_nat (un_be s) :: 16 word)
        else if k = 4 then scast (word_of_nat (un_be s) :: 32 word)
        else word_of_nat (un_be s)), r)) (read_n k bs)"

text \<open>
  The dispatch on the marker byte: a complete scalar, or the number of items of a list, of
  entries of a map, of fields of a structure that follow.
\<close>

datatype ps_head = HVal gval | HList nat | HMap nat | HStruct nat

definition read_size :: "nat \<Rightarrow> byte list \<Rightarrow> gerr + nat \<times> byte list" where
  "read_size k bs = map_sum id (\<lambda>(nb, r). (un_be nb, r)) (read_n k bs)"

definition sized :: "(nat \<Rightarrow> ps_head) \<Rightarrow> nat \<Rightarrow> byte list \<Rightarrow> gerr + ps_head \<times> byte list" where
  "sized h k bs = map_sum id (\<lambda>(n, r). (h n, r)) (read_size k bs)"

definition head_val :: "gerr + gval \<times> byte list \<Rightarrow> gerr + ps_head \<times> byte list" where
  "head_val x = map_sum id (\<lambda>(v, r). (HVal v, r)) x"

definition read_str :: "nat \<Rightarrow> byte list \<Rightarrow> gerr + ps_head \<times> byte list" where
  "read_str k bs = (case read_size k bs of Inl e \<Rightarrow> Inl e
     | Inr (n, r) \<Rightarrow> head_val (readStringN n r))"

definition ps_head :: "byte \<Rightarrow> byte list \<Rightarrow> gerr + ps_head \<times> byte list" where
  "ps_head b r =
     (if b \<le> 0x7F then Inr (HVal (VInt (ucast b)), r)
      else if b \<ge> 0xF0 then Inr (HVal (VInt (scast b)), r)
      else if b \<le> 0x8F then head_val (readStringN (unat (b AND 0x0F)) r)
      else if b \<le> 0x9F then Inr (HList (unat (b AND 0x0F)), r)
      else if b \<le> 0xAF then Inr (HMap (unat (b AND 0x0F)), r)
      else if b \<le> 0xBF then Inr (HStruct (unat (b AND 0x0F)), r)
      else if b = 0xC0 then Inr (HVal VNil, r)
      else if b = 0xC2 then Inr (HVal (VBool False), r)
      else if b = 0xC3 then Inr (HVal (VBool True), r)
      else if b = 0xC1 then map_sum id (\<lambda>(s, r'). (HVal (VFloat (word_of_nat (un_be s))), r'))
             (read_n 8 r)
      else if b = 0xC8 then head_val (read_signed 1 r)
      else if b = 0xC9 then head_val (read_signed 2 r)
      else if b = 0xCA then head_val (read_signed 4 r)
      else if b = 0xCB then head_val (read_signed 8 r)
      else if b = 0xD0 then read_str 1 r
      else if b = 0xD1 then read_str 2 r
      else if b = 0xD2 then read_str 4 r
      else if b = 0xD4 then sized HList 1 r
      else if b = 0xD5 then sized HList 2 r
      else if b = 0xD8 then sized HMap 1 r
      else if b = 0xD9 then sized HMap 2 r
      else if b = 0xDC then sized HStruct 1 r
      else Inl (Msg (''packstream: unknown marker 0x'' @ hex_byte b)))"

fun ps_dec :: "gofmt \<Rightarrow> nat \<Rightarrow> byte list \<Rightarrow> gerr + gval \<times> byte list"
and readListN :: "gofmt \<Rightarrow> nat \<Rightarrow> nat \<Rightarrow> byte list \<Rightarrow> gerr + gval list \<times> byte list"
and readMapN ::
  "gofmt \<Rightarrow> nat \<Rightarrow> nat \<Rightarrow> (string \<times> gval) list \<Rightarrow> byte list \<Rightarrow>
     gerr + (string \<times> gval) list \<times> byte list" where
  "ps_dec F 0 bs = Inl (Msg ''out of fuel'')"
| "ps_dec F (Suc f) [] = Inl eof"
| "ps_dec F (Suc f) (b # r) = (case ps_head b r of
       Inl e \<Rightarrow> Inl e
     | Inr (h, r1) \<Rightarrow> (case h of
         HVal v \<Rightarrow> Inr (v, r1)
       | HList n \<Rightarrow> map_sum id (\<lambda>(vs, r2). (VList vs, r2)) (readListN F f n r1)
       | HMap n \<Rightarrow> map_sum id (\<lambda>(m, r2). (VMap m, r2)) (readMapN F f n [] r1)
       | HStruct n \<Rightarrow> (case read_n 1 r1 of Inl e \<Rightarrow> Inl e
           | Inr (sig, r2) \<Rightarrow>
               map_sum id (\<lambda>(vs, r3). (VMsg (hd sig) vs, r3)) (readListN F f n r2))))"
| "readListN F f 0 bs = Inr ([], bs)"
| "readListN F f (Suc n) bs = (case ps_dec F f bs of Inl e \<Rightarrow> Inl e
     | Inr (v, r) \<Rightarrow> map_sum id (\<lambda>(vs, r'). (v # vs, r')) (readListN F f n r))"
| "readMapN F f 0 m bs = Inr (m, bs)"
| "readMapN F f (Suc n) m bs = (case ps_dec F f bs of Inl e \<Rightarrow> Inl e
     | Inr (k, r) \<Rightarrow> (case ps_dec F f r of Inl e \<Rightarrow> Inl e
        | Inr (v, r') \<Rightarrow> readMapN F f n (AList.update (sprint F k) v m) r'))"

definition PackStreamDecode :: "gofmt \<Rightarrow> byte list \<Rightarrow> gerr + gval \<times> byte list" where
  "PackStreamDecode F bs = ps_dec F (Suc (length bs)) bs"

section \<open>Decoding what was encoded, marker by marker\<close>


lemma scast_ucast:
  fixes v :: "64 word"
  assumes "LENGTH('b::len) \<le> 64" and "-(2 ^ (LENGTH('b) - 1)) \<le> sint v"
    and "sint v < 2 ^ (LENGTH('b) - 1)"
  shows "(scast (ucast v :: 'b word) :: 64 word) = v"
proof -
  have le: "LENGTH('b) - Suc 0 \<le> 63" using assms(1) by simp
  have "sint (ucast v :: 'b word) = signed_take_bit (LENGTH('b) - 1) (sint v)"
    using assms(1) le by transfer (simp add: signed_take_bit_take_bit signed_take_bit_signed_take_bit min_def)
  then have "sint (ucast v :: 'b word) = sint v"
    using assms(2,3) by (simp add: signed_take_bit_int_eq_self)
  then have "(scast (ucast v :: 'b word) :: 64 word) = scast v"
    unfolding scast_eq by (rule arg_cong)
  then show ?thesis by (simp only: scast_id)
qed

lemma uint_ucast_byte: "uint (ucast (v :: 64 word) :: byte) = sint v mod 256"
proof -
  have "uint (ucast v :: byte) = take_bit 8 (sint v)"
    by transfer (simp add: take_bit_signed_take_bit)
  then show ?thesis by (simp add: take_bit_eq_mod)
qed

lemma tiny_header:
  assumes "n < 16"
  shows "(0x80 OR word_of_nat n :: byte) = 0x80 + word_of_nat n"
    "(0x90 OR word_of_nat n :: byte) = 0x90 + word_of_nat n"
    "(0xA0 OR word_of_nat n :: byte) = 0xA0 + word_of_nat n"
    "(0xB0 OR word_of_nat n :: byte) = 0xB0 + word_of_nat n"
  using assms by (auto simp: less_Suc_eq numeral_eq_Suc)

lemma unat_tiny:
  assumes "n < 16" "m \<in> {0x80, 0x90, 0xA0, 0xB0}"
  shows "unat (word_of_nat m + word_of_nat n :: byte) = m + n"
proof -
  have "m + n < 256" using assms by auto
  then have "unat (word_of_nat (m + n) :: byte) = m + n" by (simp only: unat_of_nat) simp
  then show ?thesis by simp
qed

lemma unat_and_15: "unat (b AND 0x0F :: byte) = unat b mod 16"
proof -
  have "(0x0F :: byte) = mask 4" by (simp add: mask_eq_exp_minus_1)
  then have "b AND 0x0F = take_bit 4 b" by (simp only: take_bit_eq_mask)
  then have "b AND 0x0F = b mod 16" by (simp add: take_bit_eq_mod)
  then show ?thesis by (simp add: unat_mod)
qed

lemma head_tiny:
  assumes "n < 16"
  shows "ps_head (0x80 OR word_of_nat n) r = head_val (readStringN n r)"
    and "ps_head (0x90 OR word_of_nat n) r = Inr (HList n, r)"
    and "ps_head (0xA0 OR word_of_nat n) r = Inr (HMap n, r)"
    and "ps_head (0xB0 OR word_of_nat n) r = Inr (HStruct n, r)"
proof -
  have mods: "(128 + n) mod 16 = n" "(144 + n) mod 16 = n" "(160 + n) mod 16 = n"
    "(176 + n) mod 16 = n"
    using assms mod_mult_self4 [of 16 8 n] mod_mult_self4 [of 16 9 n]
      mod_mult_self4 [of 16 10 n] mod_mult_self4 [of 16 11 n] by simp_all
  show "ps_head (0x80 OR word_of_nat n) r = head_val (readStringN n r)"
    and "ps_head (0x90 OR word_of_nat n) r = Inr (HList n, r)"
    and "ps_head (0xA0 OR word_of_nat n) r = Inr (HMap n, r)"
    and "ps_head (0xB0 OR word_of_nat n) r = Inr (HStruct n, r)"
    using assms unat_tiny [of n "0x80"] unat_tiny [of n "0x90"]
      unat_tiny [of n "0xA0"] unat_tiny [of n "0xB0"]
    by (simp_all add: tiny_header ps_head_def word_le_nat_alt unat_and_15 mods)
qed

text \<open>The other markers.\<close>

lemma head_markers:
  "ps_head 0xC0 r = Inr (HVal VNil, r)"
  "ps_head 0xC2 r = Inr (HVal (VBool False), r)"
  "ps_head 0xC3 r = Inr (HVal (VBool True), r)"
  "ps_head 0xC1 r = map_sum id (\<lambda>(s, r'). (HVal (VFloat (word_of_nat (un_be s))), r')) (read_n 8 r)"
  "ps_head 0xC8 r = head_val (read_signed 1 r)"
  "ps_head 0xC9 r = head_val (read_signed 2 r)"
  "ps_head 0xCA r = head_val (read_signed 4 r)"
  "ps_head 0xCB r = head_val (read_signed 8 r)"
  "ps_head 0xD0 r = read_str 1 r"
  "ps_head 0xD1 r = read_str 2 r"
  "ps_head 0xD2 r = read_str 4 r"
  "ps_head 0xD4 r = sized HList 1 r"
  "ps_head 0xD5 r = sized HList 2 r"
  "ps_head 0xD8 r = sized HMap 1 r"
  "ps_head 0xD9 r = sized HMap 2 r"
  by (simp_all add: ps_head_def)

lemma read_n_append: "length s = n \<Longrightarrow> read_n n (s @ r) = Inr (s, r)"
  by (simp add: read_n_def)

lemma read_size_be: "read_size k (be k n @ r) = Inr (n mod 256 ^ k, r)"
  by (simp add: read_size_def read_n_append)

lemma read_size_1: "n \<le> 0xFF \<Longrightarrow> read_size 1 (word_of_nat n # r) = Inr (n, r)"
  by (simp add: read_size_def read_n_def un_be_def unat_of_nat)

lemma readStringN_append: "readStringN (length s) (map byte_of s @ r) = Inr (VStr s, r)"
  by (simp add: readStringN_def read_n_append)

lemma head_packString:
  assumes "length s < 2 ^ 32"
  shows "\<exists>b t. packString s @ r = b # t \<and> ps_head b t = Inr (HVal (VStr s), r)"
proof -
  let ?n = "length s" and ?t = "map byte_of s @ r"
  consider "?n < 16" | "16 \<le> ?n" "?n \<le> 0xFF" | "0xFF < ?n" "?n \<le> 0xFFFF" | "0xFFFF < ?n"
    by linarith
  then show ?thesis
  proof cases
    case 1
    then show ?thesis
      by (simp add: packString_def head_tiny(1) readStringN_append head_val_def)
  next
    case 2
    then show ?thesis
      using read_size_1 [of ?n ?t]
      by (simp add: packString_def head_markers read_str_def readStringN_append head_val_def)
  next
    case 3
    then show ?thesis
      using read_size_be [of 2 ?n ?t]
      by (simp add: packString_def head_markers read_str_def readStringN_append head_val_def)
  next
    case 4
    then show ?thesis
      using assms read_size_be [of 4 ?n ?t]
      by (simp add: packString_def head_markers read_str_def readStringN_append head_val_def)
  qed
qed

lemma head_list:
  assumes "n \<le> 0xFFFF"
  shows "\<exists>b t. list_header n @ r = b # t \<and> ps_head b t = Inr (HList n, r)"
  using assms read_size_1 [of n r] read_size_be [of 2 n r]
  by (simp add: list_header_def head_tiny(2) head_markers sized_def)

lemma head_map:
  assumes "n \<le> 0xFFFF"
  shows "\<exists>b t. map_header n @ r = b # t \<and> ps_head b t = Inr (HMap n, r)"
  using assms read_size_1 [of n r] read_size_be [of 2 n r]
  by (simp add: map_header_def head_tiny(3) head_markers sized_def)

lemma unat_ucast_byte: "unat (ucast (v :: 64 word) :: byte) = nat (sint v mod 256)"
  by (simp add: uint_ucast_byte [symmetric])

lemma head_packInt: "\<exists>b t. packInt v @ r = b # t \<and> ps_head b t = Inr (HVal (VInt v), r)"
proof -
  let ?i = "sint v"
  consider "0 \<le> ?i" "?i \<le> 127" | "-16 \<le> ?i" "?i < 0" | "-128 \<le> ?i" "?i < -16"
    | "\<not> (-128 \<le> ?i \<and> ?i \<le> 127)" "-(2 ^ 15) \<le> ?i" "?i \<le> 2 ^ 15 - 1"
    | "\<not> (-(2 ^ 15) \<le> ?i \<and> ?i \<le> 2 ^ 15 - 1)" "-(2 ^ 31) \<le> ?i" "?i \<le> 2 ^ 31 - 1"
    | "\<not> (-(2 ^ 31) \<le> ?i \<and> ?i \<le> 2 ^ 31 - 1)" by linarith
  then show ?thesis
  proof cases
    case 1
    then have "unat (ucast v :: byte) \<le> 127" by (simp add: unat_ucast_byte)
    then have "(ucast v :: byte) \<le> 0x7F" by (simp add: word_le_nat_alt)
    moreover have "(ucast (ucast v :: byte) :: 64 word) = v"
    proof -
      have "(ucast (ucast v :: byte) :: 64 word) = word_of_int ?i"
        using 1 by (simp only: ucast_eq [of "ucast v :: byte"] uint_ucast_byte) simp
      then show ?thesis by simp
    qed
    ultimately show ?thesis using 1 by (simp add: packInt_def ps_head_def)
  next
    case 2
    then have "?i mod 256 = ?i + 256" by presburger
    then have "unat (ucast v :: byte) \<ge> 240" using 2 by (simp add: unat_ucast_byte)
    then have "\<not> (ucast v :: byte) \<le> 0x7F" "(ucast v :: byte) \<ge> 0xF0"
      by (simp_all add: word_le_nat_alt)
    moreover have "(scast (ucast v :: byte) :: 64 word) = v" by (rule scast_ucast) (use 2 in simp_all)
    ultimately show ?thesis using 2 by (simp add: packInt_def ps_head_def)
  next
    case 3
    have "(scast (ucast v :: byte) :: 64 word) = v" by (rule scast_ucast) (use 3 in simp_all)
    with 3 show ?thesis
      by (simp add: packInt_def head_markers read_signed_def read_n_def head_val_def un_be_def)
  next
    case 4
    have "(scast (ucast v :: 16 word) :: 64 word) = v" by (rule scast_ucast) (use 4 in simp_all)
    moreover have "unat (ucast v :: 16 word) < 65536" using unsigned_less [of "ucast v :: 16 word"] by simp
    moreover have "packInt v = 0xC9 # be 2 (unat (ucast v :: 16 word))"
      using 4 unfolding packInt_def by (simp; linarith)
    ultimately show ?thesis
      by (simp add: head_markers read_signed_def read_n_append head_val_def)
  next
    case 5
    have "(scast (ucast v :: 32 word) :: 64 word) = v" by (rule scast_ucast) (use 5 in simp_all)
    moreover have "unat (ucast v :: 32 word) < 2 ^ 32" using unsigned_less [of "ucast v :: 32 word"] by simp
    moreover have "packInt v = 0xCA # be 4 (unat (ucast v :: 32 word))"
      using 5 unfolding packInt_def by (simp; linarith)
    ultimately show ?thesis
      by (simp add: head_markers read_signed_def read_n_append head_val_def)
  next
    case 6
    have "unat v < 2 ^ 64" using unsigned_less [of v] by simp
    moreover have "packInt v = 0xCB # be 8 (unat v)"
      using 6 unfolding packInt_def by (simp; linarith)
    ultimately show ?thesis
      by (simp add: head_markers read_signed_def read_n_append head_val_def)
  qed
qed

section \<open>Round trip\<close>

text \<open>Values within the limits of the format, and what decoding makes of nil containers.\<close>

fun ps_ok :: "gval \<Rightarrow> bool"
and ps_ok_list :: "gval list \<Rightarrow> bool"
and ps_ok_fields :: "(string \<times> gval) list \<Rightarrow> bool" where
  "ps_ok (VStr s) = (length s < 2 ^ 32)"
| "ps_ok (VList vs) = (length vs \<le> 0xFFFF \<and> ps_ok_list vs)"
| "ps_ok (VMap fs) = (length fs \<le> 0xFFFF \<and> distinct (map fst fs) \<and> ps_ok_fields fs)"
| "ps_ok (VMsg t fs) = False"
| "ps_ok _ = True"
| "ps_ok_list [] = True"
| "ps_ok_list (v # vs) = (ps_ok v \<and> ps_ok_list vs)"
| "ps_ok_fields [] = True"
| "ps_ok_fields ((k, v) # fs) = (length k < 2 ^ 32 \<and> ps_ok v \<and> ps_ok_fields fs)"

fun ps_norm :: "gval \<Rightarrow> gval"
and ps_norm_list :: "gval list \<Rightarrow> gval list"
and ps_norm_fields :: "(string \<times> gval) list \<Rightarrow> (string \<times> gval) list" where
  "ps_norm VNilList = VList []"
| "ps_norm (VList vs) = VList (ps_norm_list vs)"
| "ps_norm VNilMap = VMap []"
| "ps_norm (VMap fs) = VMap (ps_norm_fields fs)"
| "ps_norm v = v"
| "ps_norm_list [] = []"
| "ps_norm_list (v # vs) = ps_norm v # ps_norm_list vs"
| "ps_norm_fields [] = []"
| "ps_norm_fields ((k, v) # fs) = (k, ps_norm v) # ps_norm_fields fs"

lemma fst_ps_norm_fields [simp]: "map fst (ps_norm_fields fs) = map fst fs"
  by (induction fs rule: list.induct) auto

lemma ps_dec_head:
  assumes "\<exists>b t. bs = b # t \<and> ps_head b t = Inr (HVal v, r)" and "0 < f"
  shows "ps_dec F f bs = Inr (v, r)"
  using assms by (cases f) auto

lemma header_nonempty: "0 < length (list_header n)" "0 < length (map_header n)"
  by (simp_all add: list_header_def map_header_def)

lemma ps_dec_encode:
  "PackStreamEncode v = Inr bs \<Longrightarrow> ps_ok v \<Longrightarrow> length bs < f \<Longrightarrow>
     ps_dec F f (bs @ r) = Inr (ps_norm v, r)"
  "packItems vs = Inr bs \<Longrightarrow> ps_ok_list vs \<Longrightarrow> length bs < f \<Longrightarrow>
     readListN F f (length vs) (bs @ r) = Inr (ps_norm_list vs, r)"
  "packEntries fs = Inr bs \<Longrightarrow> ps_ok_fields fs \<Longrightarrow> length bs < f \<Longrightarrow>
     distinct (map fst (m @ fs)) \<Longrightarrow>
     readMapN F f (length fs) m (bs @ r) = Inr (m @ ps_norm_fields fs, r)"
proof (induction v and vs and fs arbitrary: bs f r and bs f r and bs f r m
    rule: PackStreamEncode_packItems_packEntries.induct)
  case 1
  then show ?case by (intro ps_dec_head) (auto simp: head_markers)
next
  case (2 b)
  then show ?case by (intro ps_dec_head) (auto simp: head_markers)
next
  case (3 v)
  then show ?case using head_packInt [of v r] by (intro ps_dec_head) auto
next
  case (4 w)
  have "unat w < 2 ^ 64" using unsigned_less [of w] by simp
  then have "map_sum id (\<lambda>(s, r'). (HVal (VFloat (word_of_nat (un_be s))), r'))
      (read_n 8 (be 8 (unat w) @ r)) = Inr (HVal (VFloat w), r)"
    by (simp add: read_n_append)
  with 4 show ?case by (intro ps_dec_head) (auto simp: head_markers)
next
  case (5 s)
  then show ?case using head_packString [of s r] by (intro ps_dec_head) auto
next
  case 6
  obtain b t where h: "list_header 0 @ r = b # t" "ps_head b t = Inr (HList 0, r)"
    using head_list [of 0 r] by auto
  from 6 obtain f' where "f = Suc f'" by (cases f) auto
  with 6 h show ?case by auto
next
  case (7 vs)
  then obtain cs where cs: "packItems vs = Inr cs" "bs = list_header (length vs) @ cs"
    by (cases "packItems vs") auto
  obtain b t where h: "list_header (length vs) @ (cs @ r) = b # t"
      "ps_head b t = Inr (HList (length vs), cs @ r)"
    using head_list [of "length vs" "cs @ r"] 7 by auto
  from 7 obtain f' where f: "f = Suc f'" by (cases f) auto
  have "length (list_header (length vs)) + length cs < Suc f'" using 7(4) cs(2) f by simp
  then have "length cs < f'" using header_nonempty(1) [of "length vs"] by linarith
  with 7 cs(1) have "readListN F f' (length vs) (cs @ r) = Inr (ps_norm_list vs, r)" by simp
  with h f cs show ?case by simp
next
  case 8
  obtain b t where h: "map_header 0 @ r = b # t" "ps_head b t = Inr (HMap 0, r)"
    using head_map [of 0 r] by auto
  from 8 obtain f' where "f = Suc f'" by (cases f) auto
  with 8 h show ?case by auto
next
  case (9 fs)
  then obtain cs where cs: "packEntries fs = Inr cs" "bs = map_header (length fs) @ cs"
    by (cases "packEntries fs") auto
  obtain b t where h: "map_header (length fs) @ (cs @ r) = b # t"
      "ps_head b t = Inr (HMap (length fs), cs @ r)"
    using head_map [of "length fs" "cs @ r"] 9 by auto
  from 9 obtain f' where f: "f = Suc f'" by (cases f) auto
  have "length (map_header (length fs)) + length cs < Suc f'" using 9(4) cs(2) f by simp
  then have "length cs < f'" using header_nonempty(2) [of "length fs"] by linarith
  with 9 cs(1) have "readMapN F f' (length fs) [] (cs @ r) = Inr (ps_norm_fields fs, r)" by simp
  with h f cs show ?case by simp
next
  case (12 v vs)
  from 12(3) obtain b c where bc: "PackStreamEncode v = Inr b" "packItems vs = Inr c" "bs = b @ c"
    by (auto split: sum.splits simp: map_sum_def)
  have "ps_dec F f (b @ (c @ r)) = Inr (ps_norm v, c @ r)" using 12 bc by simp
  moreover have "readListN F f (length vs) (c @ r) = Inr (ps_norm_list vs, r)" using 12 bc by simp
  ultimately show ?case using bc by simp
next
  case (14 k v fs)
  from 14(3) obtain b c where bc: "PackStreamEncode v = Inr b" "packEntries fs = Inr c"
    "bs = packString k @ b @ c"
    by (auto split: sum.splits simp: map_sum_def)
  have "ps_dec F f (packString k @ (b @ c @ r)) = Inr (VStr k, b @ c @ r)"
    using 14 head_packString [of k "b @ c @ r"] by (intro ps_dec_head) auto
  moreover have "ps_dec F f (b @ (c @ r)) = Inr (ps_norm v, c @ r)" using 14 bc by simp
  moreover have "readMapN F f (length fs) (m @ [(k, ps_norm v)]) (c @ r) =
      Inr ((m @ [(k, ps_norm v)]) @ ps_norm_fields fs, r)"
    using 14 bc by simp
  moreover have "k \<notin> set (map fst m)" using 14(6) by auto
  ultimately show ?case using bc by (simp add: update_fresh)
qed simp_all


section \<open>Fuel\<close>

lemma read_n_length: "read_n n bs = Inr (s, r) \<Longrightarrow> length r \<le> length bs"
  by (auto simp: read_n_def split: if_splits)

lemma map_sum_id_Inr: "map_sum id f x = Inr y \<longleftrightarrow> (\<exists>z. x = Inr z \<and> y = f z)"
  by (cases x) auto

lemma ps_head_length: "ps_head b r = Inr (h, r1) \<Longrightarrow> length r1 \<le> length r"
  unfolding ps_head_def
  by (auto simp: map_sum_id_Inr head_val_def readStringN_def read_signed_def read_str_def
      read_size_def sized_def dest!: read_n_length split: if_splits sum.splits)

text \<open>Decoding a value consumes at least its marker.\<close>

lemma ps_dec_length:
  "ps_dec F f bs = Inr (v, r) \<Longrightarrow> length r < length bs"
  "readListN F f n bs = Inr (vs, r) \<Longrightarrow> length r \<le> length bs"
  "readMapN F f n m bs = Inr (m', r) \<Longrightarrow> length r \<le> length bs"
proof (induction F f bs and F f n bs and F f n m bs arbitrary: v r and vs r and m' r
    rule: ps_dec_readListN_readMapN.induct)
  case (3 F f b t)
  from 3(4) obtain h r1 where h: "ps_head b t = Inr (h, r1)" by (auto split: sum.splits)
  then have le: "length r1 \<le> length t" by (rule ps_head_length)
  show ?case
  proof (cases h)
    case (HVal x)
    with 3(4) h le show ?thesis by simp
  next
    case (HList n)
    with 3(4) h le 3(1) [OF h] show ?thesis by (fastforce simp: map_sum_id_Inr)
  next
    case (HMap n)
    with 3(4) h le 3(2) [OF h] show ?thesis by (fastforce simp: map_sum_id_Inr)
  next
    case (HStruct n)
    with 3(4) h le 3(3) [OF h] show ?thesis
      by (fastforce simp: map_sum_id_Inr dest: read_n_length split: sum.splits)
  qed
next
  case (5 F f n bs)
  from 5(3) obtain v' r1 vs' where "ps_dec F f bs = Inr (v', r1)" "readListN F f n r1 = Inr (vs', r)"
    by (auto simp: map_sum_id_Inr split: sum.splits)
  with 5(1,2) show ?case by fastforce
next
  case (7 F f n m bs)
  from 7(4) obtain k r1 v' r2 where *: "ps_dec F f bs = Inr (k, r1)" "ps_dec F f r1 = Inr (v', r2)"
    "readMapN F f n (AList.update (sprint F k) v' m) r2 = Inr (m', r)"
    by (auto split: sum.splits)
  have "length r1 < length bs" using 7(1) [OF *(1)] .
  moreover have "length r2 < length r1" using 7(2) * by blast
  moreover have "length r \<le> length r2" using 7(3) * by blast
  ultimately show ?case by linarith
qed auto

text \<open>Fuel beyond the length of the input makes no difference.\<close>

lemma ps_dec_fuel:
  "length bs < f \<Longrightarrow> length bs < f' \<Longrightarrow> ps_dec F f bs = ps_dec F f' bs"
  "length bs < f \<Longrightarrow> length bs < f' \<Longrightarrow> readListN F f n bs = readListN F f' n bs"
  "length bs < f \<Longrightarrow> length bs < f' \<Longrightarrow> readMapN F f n m bs = readMapN F f' n m bs"
proof (induction F f bs and F f n bs and F f n m bs arbitrary: f' and f' and f'
    rule: ps_dec_readListN_readMapN.induct)
  case (2 F f)
  then show ?case by (cases f') simp_all
next
  case (3 F f b t)
  then obtain g where f': "f' = Suc g" by (cases f') auto
  show ?case
  proof (cases "ps_head b t")
    case (Inr p)
    obtain h r1 where p: "p = (h, r1)" by fastforce
    with Inr have h: "ps_head b t = Inr (h, r1)" by simp
    have lt: "length r1 < f" "length r1 < g" using ps_head_length [OF h] 3(4,5) f' by simp_all
    show ?thesis
    proof (cases h)
      case (HList n)
      with 3(1) [OF h [unfolded HList] refl refl lt] show ?thesis by (simp add: f' h)
    next
      case (HMap n)
      with 3(2) [OF h [unfolded HMap] refl refl lt] show ?thesis by (simp add: f' h)
    next
      case (HStruct n)
      show ?thesis
      proof (cases "read_n 1 r1")
        case (Inr q)
        obtain sg r2 where q: "q = (sg, r2)" by fastforce
        have "length r2 \<le> length r1" using read_n_length Inr q by blast
        then have "readListN F f n r2 = readListN F g n r2"
          using 3(3) [OF h [unfolded HStruct] refl refl Inr q [symmetric]] lt by fastforce
        with HStruct Inr q show ?thesis by (simp add: f' h)
      qed (simp add: f' h HStruct)
    qed (simp add: f' h)
  qed (simp add: f')
next
  case (5 F f n bs)
  have eq: "ps_dec F f bs = ps_dec F f' bs" using 5(1,3,4) by blast
  show ?case
  proof (cases "ps_dec F f bs")
    case (Inr p)
    obtain v r where p: "p = (v, r)" by fastforce
    have "length r < length bs" using ps_dec_length(1) Inr p by blast
    then have "length r < f" "length r < f'" using 5(3,4) by linarith+
    with 5(2) [OF Inr p [symmetric]] have "readListN F f n r = readListN F f' n r" by blast
    with Inr p show ?thesis by (simp flip: eq)
  qed (simp flip: eq)
next
  case (7 F f n m bs)
  have eq: "ps_dec F f bs = ps_dec F f' bs" using 7(1,4,5) by blast
  show ?case
  proof (cases "ps_dec F f bs")
    case (Inr p)
    obtain k r where p: "p = (k, r)" by fastforce
    have l1: "length r < length bs" using ps_dec_length(1) Inr p by blast
    then have l: "length r < f" "length r < f'" using 7(4,5) by linarith+
    with 7(2) [OF Inr p [symmetric]] have eq2: "ps_dec F f r = ps_dec F f' r" by blast
    show ?thesis
    proof (cases "ps_dec F f r")
      case (Inr p2)
      obtain v r2 where p2: "p2 = (v, r2)" by fastforce
      have "length r2 < length r" using ps_dec_length(1) Inr p2 by blast
      then have "length r2 < f" "length r2 < f'" using l by linarith+
      with 7(3) [OF \<open>ps_dec F f bs = Inr p\<close> p [symmetric] Inr p2 [symmetric]]
      have "readMapN F f n (AList.update (sprint F k) v m) r2 =
          readMapN F f' n (AList.update (sprint F k) v m) r2" by blast
      with \<open>ps_dec F f bs = Inr p\<close> p Inr p2 show ?thesis by (simp flip: eq eq2)
    qed (use \<open>ps_dec F f bs = Inr p\<close> p in \<open>simp flip: eq eq2\<close>)
  qed (simp flip: eq)
qed simp_all

end
