(* ===== verification/Bolt_Message.thy ===== *)
theory Bolt_Message
  imports PackStream
begin

text \<open>
  Bolt messages on the wire (the second half of internal/server/bolt_message.go): the
  chunked transport and the messages, each a PackStream structure.
\<close>

section \<open>Chunks\<close>

function WriteChunked :: "byte list \<Rightarrow> byte list" where
  "WriteChunked bs = (if bs = [] then be 2 0
     else be 2 (length (take 0xFFFF bs)) @ take 0xFFFF bs @ WriteChunked (drop 0xFFFF bs))"
  by pat_completeness auto

termination by (relation "measure length") auto

declare WriteChunked.simps [simp del]

lemma read_n_drop: "read_n n bs = Inr (s, r) \<Longrightarrow> n \<le> length bs \<and> s = take n bs \<and> r = drop n bs"
  by (auto simp: read_n_def split: if_splits)

function ReadChunked :: "byte list \<Rightarrow> gerr + byte list \<times> byte list" where
  "ReadChunked bs = (case read_n 2 bs of Inl e \<Rightarrow> Inl e
     | Inr (sz, r) \<Rightarrow>
        if un_be sz = 0 then Inr ([], r)
        else (case read_n (un_be sz) r of Inl e \<Rightarrow> Inl e
           | Inr (c, r') \<Rightarrow> map_sum id (\<lambda>(d, r''). (c @ d, r'')) (ReadChunked r')))"
  by pat_completeness auto

termination by (relation "measure length") (auto dest!: read_n_drop)

declare ReadChunked.simps [simp del]

lemma ReadChunked_length: "ReadChunked bs = Inr (d, r) \<Longrightarrow> length r < length bs"
proof (induction bs arbitrary: d rule: ReadChunked.induct)
  case (1 bs)
  from 1(2) obtain sz u where sz: "read_n 2 bs = Inr (sz, u)"
    by (subst (asm) ReadChunked.simps) (auto split: sum.splits)
  then have u: "length u < length bs" by (auto dest!: read_n_drop)
  show ?case
  proof (cases "un_be sz = 0")
    case True
    with 1(2) sz u show ?thesis by (subst (asm) ReadChunked.simps) simp
  next
    case False
    with 1(2) sz obtain c w d' where c: "read_n (un_be sz) u = Inr (c, w)"
      "ReadChunked w = Inr (d', r)"
      by (subst (asm) ReadChunked.simps) (auto simp: map_sum_id_Inr split: sum.splits)
    with 1(1) [OF sz refl False c(1) refl] have "length r < length w" by blast
    with u read_n_length [OF c(1)] show ?thesis by linarith
  qed
qed

lemma ReadChunked_end: "ReadChunked (be 2 0 @ r) = Inr ([], r)"
  by (subst ReadChunked.simps) (simp add: read_n_append)

text \<open>What one side writes in chunks, the other reads back, and it stops at the terminator.\<close>

lemma ReadChunked_WriteChunked: "ReadChunked (WriteChunked bs @ r) = Inr (bs, r)"
proof (induction bs rule: WriteChunked.induct)
  case (1 bs)
  show ?case
  proof (cases "bs = []")
    case True
    then show ?thesis by (simp add: WriteChunked.simps ReadChunked_end)
  next
    case False
    define c where "c = take 0xFFFF bs"
    have c: "0 < length c" "length c < 65536" using False by (simp_all add: c_def)
    have "WriteChunked bs @ r = be 2 (length c) @ (c @ (WriteChunked (drop 0xFFFF bs) @ r))"
      using False by (subst WriteChunked.simps) (simp add: c_def)
    moreover have "un_be (be 2 (length c)) = length c" using c(2) by simp
    moreover have "c @ drop 0xFFFF bs = bs" by (simp add: c_def)
    ultimately show ?thesis
      using 1 [OF False] c(1)
      by (subst ReadChunked.simps) (simp add: read_n_append del: un_be_be)
  qed
qed

section \<open>Messages\<close>

definition EncodeMessage :: "byte \<Rightarrow> gval list \<Rightarrow> gerr + byte list" where
  "EncodeMessage t flds =
     (if length flds > 15
      then Inl (Msg (''bolt: too many fields for tiny struct: '' @ show_nat (length flds) @ '' (max 15)''))
      else map_sum id (\<lambda>b. (0xB0 OR word_of_nat (length flds)) # t # b) (packItems flds))"

definition DecodeMessage ::
  "gofmt \<Rightarrow> byte list \<Rightarrow> gerr + (byte \<times> gval list) \<times> byte list" where
  "DecodeMessage F bs = (case ReadChunked bs of Inl e \<Rightarrow> Inl e
     | Inr (data, r) \<Rightarrow> (case PackStreamDecode F data of Inl e \<Rightarrow> Inl e
        | Inr (v, _) \<Rightarrow> (case v of
            VMsg t flds \<Rightarrow> Inr ((t, flds), r)
          | _ \<Rightarrow> Inl (Msg (''expected struct, got '' @ type_name v)))))"

definition SendMessage :: "byte \<Rightarrow> gval list \<Rightarrow> gerr + byte list" where
  "SendMessage t flds = map_sum id WriteChunked (EncodeMessage t flds)"

lemma DecodeMessage_length: "DecodeMessage F bs = Inr (m, r) \<Longrightarrow> length r < length bs"
  using ReadChunked_length [of bs _ r]
  by (auto simp: DecodeMessage_def split: sum.splits gval.splits)

text \<open>A message that was sent is decoded as sent, and the bytes behind it are left alone.\<close>

lemma DecodeMessage_SendMessage:
  assumes send: "SendMessage t flds = Inr bs" and ok: "ps_ok_list flds"
  shows "DecodeMessage F (bs @ r) = Inr ((t, ps_norm_list flds), r)"
proof -
  from send obtain d where d: "EncodeMessage t flds = Inr d" "bs = WriteChunked d"
    by (auto simp: SendMessage_def map_sum_id_Inr)
  then obtain cs where len: "length flds \<le> 15" and cs: "packItems flds = Inr cs"
    "d = (0xB0 OR word_of_nat (length flds)) # t # cs"
    by (auto simp: EncodeMessage_def map_sum_id_Inr split: if_splits)
  have "readListN F (Suc (length cs)) (length flds) (cs @ []) = Inr (ps_norm_list flds, [])"
    by (rule ps_dec_encode(2) [OF cs(1) ok]) simp
  then have "readListN F (Suc (Suc (length cs))) (length flds) cs = Inr (ps_norm_list flds, [])"
    using ps_dec_fuel(2) [of cs "Suc (Suc (length cs))" "Suc (length cs)" F] by simp
  moreover have "ps_head (0xB0 OR word_of_nat (length flds)) (t # cs) =
      Inr (HStruct (length flds), t # cs)"
    using head_tiny(4) len by simp
  ultimately have "PackStreamDecode F d = Inr (VMsg t (ps_norm_list flds), [])"
    by (simp add: PackStreamDecode_def cs(2) read_n_def)
  then show ?thesis
    by (simp add: DecodeMessage_def d(2) ReadChunked_WriteChunked)
qed

end
