(* ===== verification/Query_Result.thy ===== *)
theory Query_Result
  imports Go_Value
begin

text \<open>
  internal/query/result.go: the rows and columns a query returns, and the type of the query
  executor that the Bolt server and the router call (\<open>cluster.QueryExecutor\<close>).
\<close>

type_synonym row = "(string \<times> gval) list"

record result_set =
  rs_columns :: "string list"
  rs_rows :: "row list"

text \<open>\<open>row[col]\<close>: an absent column reads as nil.\<close>

definition row_get :: "row \<Rightarrow> string \<Rightarrow> gval" where
  "row_get r c = (case map_of r c of None \<Rightarrow> VNil | Some v \<Rightarrow> v)"

text \<open>\<open>Execute(cypher, params)\<close> over a database state, with a nil map of parameters as \<open>None\<close>.\<close>

type_synonym 'x executor = "string \<Rightarrow> row option \<Rightarrow> ('x, result_set) go"

text \<open>A formatter for concrete runs in which no float and no pointer is printed.\<close>

definition plain_fmt :: gofmt where
  "plain_fmt = \<lparr>float_text = (\<lambda>_. ''float''), pointer_text = (\<lambda>_ _. ''pointer'')\<rparr>"

end
