(* ===== verification/Bolt_Server.thy ===== *)
theory Bolt_Server
  imports Bolt_Message Query_Result
begin

text \<open>
  internal/server/bolt.go: the version handshake and the message loop of one connection.
  A connection is the bytes the client sends and the bytes the server has answered; the
  client's sending is not interleaved with the answers because the protocol never looks at
  timing. Writing to the socket is taken to succeed. The executor is a parameter.
\<close>

section \<open>Handshake\<close>

definition BoltMagic :: nat where "BoltMagic = 0x6060B017"
definition BoltVersion4_4 :: nat where "BoltVersion4_4 = 0x00000404"

definition hex_word :: "nat \<Rightarrow> string" where
  "hex_word n = concat (map hex_byte (be 4 n))"

primrec read_versions :: "nat \<Rightarrow> nat \<Rightarrow> byte list \<Rightarrow> gerr + nat list \<times> byte list" where
  "read_versions 0 i bs = Inr ([], bs)"
| "read_versions (Suc k) i bs = (case read_n 4 bs of
       Inl e \<Rightarrow> Inl (Wrap (''read version '' @ show_nat i) e)
     | Inr (v, r) \<Rightarrow> map_sum id (\<lambda>(vs, r'). (un_be v # vs, r')) (read_versions k (Suc i) r))"

text \<open>The negotiated version or an error, and what is answered on the connection.\<close>

definition Handshake :: "byte list \<Rightarrow> (gerr + nat \<times> byte list) \<times> byte list" where
  "Handshake bs = (case read_n 4 bs of
      Inl e \<Rightarrow> (Inl (Wrap ''read magic'' e), [])
    | Inr (m, r) \<Rightarrow>
        if un_be m \<noteq> BoltMagic
        then (Inl (Msg (''invalid bolt magic: 0x'' @ hex_word (un_be m))), [])
        else (case read_versions 4 0 r of
            Inl e \<Rightarrow> (Inl e, [])
          | Inr (vs, r') \<Rightarrow>
              let v = (if BoltVersion4_4 \<in> set vs then BoltVersion4_4 else 0)
              in (Inr (v, r'), be 4 v)))"

section \<open>The message loop\<close>

definition MsgHELLO :: byte where "MsgHELLO = 0x01"
definition MsgRUN :: byte where "MsgRUN = 0x10"
definition MsgPULL :: byte where "MsgPULL = 0x3F"
definition MsgSUCCESS :: byte where "MsgSUCCESS = 0x70"
definition MsgRECORD :: byte where "MsgRECORD = 0x71"
definition MsgFAILURE :: byte where "MsgFAILURE = 0x7F"
definition MsgRESET :: byte where "MsgRESET = 0x0F"

lemmas msg_defs = MsgHELLO_def MsgRUN_def MsgPULL_def MsgSUCCESS_def MsgRECORD_def
  MsgFAILURE_def MsgRESET_def

text \<open>
  The state of a connection: unread input, output so far, the database behind the executor,
  and whether a panic of the executor has taken the process down.
\<close>

record 'x conn =
  c_in :: "byte list"
  c_out :: "byte list"
  c_db :: 'x
  c_crashed :: bool

text \<open>The connection after the message, and whether it could be encoded and sent.\<close>

definition send :: "byte \<Rightarrow> gval list \<Rightarrow> 'x conn \<Rightarrow> 'x conn \<times> bool" where
  "send t fs c = (case SendMessage t fs of
      Inl _ \<Rightarrow> (c, False) | Inr bs \<Rightarrow> (c\<lparr>c_out := c_out c @ bs\<rparr>, True))"

definition sendFailure :: "string \<Rightarrow> 'x conn \<Rightarrow> 'x conn" where
  "sendFailure m c = fst (send MsgFAILURE
     [VMap [(''code'', VStr ''Neo.ClientError.Statement.SyntaxError''), (''message'', VStr m)]] c)"

definition extractParams :: "gval list \<Rightarrow> row option" where
  "extractParams fs = (case fs of
      _ # VMap m # _ \<Rightarrow> Some m | _ # VNilMap # _ \<Rightarrow> Some [] | _ \<Rightarrow> None)"

definition toAnySlice :: "string list \<Rightarrow> gval" where
  "toAnySlice ss = VList (map VStr ss)"

fun send_records :: "string list \<Rightarrow> row list \<Rightarrow> 'x conn \<Rightarrow> 'x conn \<times> bool" where
  "send_records cols [] c = (c, True)"
| "send_records cols (r # rs) c =
     (case send MsgRECORD [VList (map (row_get r) cols)] c of
        (c', ok) \<Rightarrow> if ok then send_records cols rs c' else (c', False))"

text \<open>
  The reply to a successful \<open>Execute\<close>: the columns, then one more message is read; only if
  it is PULL do the rows follow. The flag says whether the loop goes on.
\<close>

definition reply_run :: "gofmt \<Rightarrow> result_set \<Rightarrow> 'x conn \<Rightarrow> 'x conn \<times> bool" where
  "reply_run F rs c = (case send MsgSUCCESS [VMap [(''fields'', toAnySlice (rs_columns rs))]] c of
      (c1, ok) \<Rightarrow> if \<not> ok then (c1, False) else
      (case DecodeMessage F (c_in c1) of
        Inl _ \<Rightarrow> (c1, False)
      | Inr ((t, fs), r) \<Rightarrow>
          if t = MsgPULL then
            (case send_records (rs_columns rs) (rs_rows rs) (c1\<lparr>c_in := r\<rparr>) of
               (c2, sent) \<Rightarrow> if sent then send MsgSUCCESS [VMap []] c2 else (c2, False))
          else (c1\<lparr>c_in := r\<rparr>, True)))"

definition handle_message ::
  "gofmt \<Rightarrow> 'x executor \<Rightarrow> byte \<Rightarrow> gval list \<Rightarrow> 'x conn \<Rightarrow> 'x conn \<times> bool" where
  "handle_message F exec t fs c =
     (if t = MsgHELLO then
        send MsgSUCCESS [VMap [(''server'', VStr ''KafGraph/1.0''),
                               (''connection_id'', VStr ''bolt-1'')]] c
      else if t = MsgRUN then
        (case fs of
           [] \<Rightarrow> (sendFailure ''missing query'' c, True)
         | q # _ \<Rightarrow> (case q of
             VStr cypher \<Rightarrow> (case exec cypher (extractParams fs) (c_db c) of
                 (Err e, d) \<Rightarrow> (sendFailure (error_text e) (c\<lparr>c_db := d\<rparr>), True)
               | (Panic, d) \<Rightarrow> (c\<lparr>c_db := d, c_crashed := True\<rparr>, False)
               | (Ok rs, d) \<Rightarrow> reply_run F rs (c\<lparr>c_db := d\<rparr>))
           | _ \<Rightarrow> (sendFailure ''query must be string'' c, True)))
      else if t = MsgRESET then send MsgSUCCESS [VMap []] c
      else (sendFailure (''unknown message type: 0x'' @ hex_byte t) c, True))"

lemma send_in [simp]: "c_in (fst (send t fs c)) = c_in c"
  by (simp add: send_def split: sum.split)

lemma send_inD: "send t fs c = (c', ok) \<Longrightarrow> c_in c' = c_in c"
  using send_in [of t fs c] by simp

lemma sendFailure_in [simp]: "c_in (sendFailure m c) = c_in c"
  by (simp add: sendFailure_def)

lemma send_records_in [simp]: "c_in (fst (send_records cols rs c)) = c_in c"
proof (induction rs arbitrary: c)
  case (Cons r rs)
  then show ?case by (auto dest: send_inD split: prod.split)
qed simp

lemma reply_run_in: "length (c_in (fst (reply_run F rs c))) \<le> length (c_in c)"
proof -
  let ?s = "send MsgSUCCESS [VMap [(''fields'', toAnySlice (rs_columns rs))]] c"
  obtain c1 ok where s: "?s = (c1, ok)" by fastforce
  have in1: "c_in c1 = c_in c" using s by (rule send_inD)
  show ?thesis
  proof (cases "DecodeMessage F (c_in c)")
    case (Inr p)
    obtain t fs r where p: "p = ((t, fs), r)" by (metis prod.exhaust)
    with Inr have "length r < length (c_in c)" using DecodeMessage_length by metis
    moreover obtain c2 sent where
      r: "send_records (rs_columns rs) (rs_rows rs) (c1\<lparr>c_in := r\<rparr>) = (c2, sent)" by fastforce
    moreover have "c_in c2 = r"
      using send_records_in [of "rs_columns rs" "rs_rows rs" "c1\<lparr>c_in := r\<rparr>"] r by simp
    ultimately show ?thesis using Inr by (simp add: reply_run_def s p in1)
  qed (simp add: reply_run_def s in1)
qed

lemma handle_message_in: "length (c_in (fst (handle_message F exec t fs c))) \<le> length (c_in c)"
  using reply_run_in [of F _ "c\<lparr>c_db := _\<rparr>"]
  by (auto simp: handle_message_def split: list.split gval.split outcome.split prod.split)

text \<open>The loop ends because every message takes bytes off the input.\<close>

function messageLoop :: "gofmt \<Rightarrow> 'x executor \<Rightarrow> 'x conn \<Rightarrow> 'x conn" where
  "messageLoop F exec c = (case DecodeMessage F (c_in c) of
      Inl _ \<Rightarrow> c
    | Inr ((t, fs), r) \<Rightarrow> (case handle_message F exec t fs (c\<lparr>c_in := r\<rparr>) of
        (c', go_on) \<Rightarrow> if go_on then messageLoop F exec c' else c'))"
  by pat_completeness auto

termination
proof (relation "measure (\<lambda>(F, exec, c). length (c_in c))", goal_cases)
  case (2 F exec c m p r t fs c' go_on)
  have "length r < length (c_in c)" using 2(1,2) by (auto dest: DecodeMessage_length)
  moreover have "length (c_in c') \<le> length r"
    using handle_message_in [of F exec t fs "c\<lparr>c_in := r\<rparr>"] 2(2-4) by (metis fst_conv conn.select_convs(1) conn.update_convs(1) conn.surjective)
  ultimately show ?case by simp
qed simp

declare messageLoop.simps [simp del]

end
