(* ===== verification/Bolt_Properties.thy ===== *)
theory Bolt_Properties
  imports Bolt_Server
begin

text \<open>
  The correctness of the Bolt wire protocol: the codec loses nothing within its limits and
  always terminates, messages survive the chunked transport, and the replies of the server.
\<close>

section \<open>Codec\<close>

text \<open>
  C6. Decoding what was encoded gives the value back, with nil lists and maps as empty
  ones, and leaves the bytes behind it; for values whose strings are below 4 GiB and whose
  lists and maps have at most 65535 entries.
\<close>
theorem packstream_roundtrip:
  assumes "PackStreamEncode v = Inr bs" and "ps_ok v"
  shows "PackStreamDecode F (bs @ r) = Inr (ps_norm v, r)"
  using ps_dec_encode(1) [OF assms, of "Suc (length (bs @ r))"]
  by (simp add: PackStreamDecode_def)

definition sample_value :: gval where
  "sample_value = VMap [(''n'', VInt (-300)), (''xs'', VList [VNil, VBool True, VStr ''a'', VNilMap])]"

theorem packstream_roundtrip_witness:
  "\<exists>bs. PackStreamEncode sample_value = Inr bs \<and>
     PackStreamDecode plain_fmt (bs @ [1, 2]) = Inr (VMap [(''n'', VInt (-300)),
       (''xs'', VList [VNil, VBool True, VStr ''a'', VMap []])], [1, 2])"
proof -
  have "ps_ok sample_value" by (simp add: sample_value_def)
  moreover obtain bs where "PackStreamEncode sample_value = Inr bs"
    by (simp add: sample_value_def)
  ultimately show ?thesis
    using packstream_roundtrip [of sample_value bs plain_fmt "[1, 2]"] by (simp add: sample_value_def)
qed

lemma read_n_fail: "read_n n bs = Inl e \<Longrightarrow> e \<noteq> Msg ''out of fuel''"
  by (auto simp: read_n_def eof_def unexpected_eof_def split: if_splits)

lemma map_sum_id_Inl: "map_sum id f x = Inl e \<longleftrightarrow> x = Inl e"
  by (cases x) auto

lemma ps_head_fail: "ps_head b r = Inl e \<Longrightarrow> e \<noteq> Msg ''out of fuel''"
  unfolding ps_head_def
  by (auto simp: map_sum_id_Inl head_val_def readStringN_def read_signed_def read_str_def
      read_size_def sized_def dest: read_n_fail split: if_splits sum.splits)

lemma ps_dec_no_fuel_error:
  "length bs < f \<Longrightarrow> ps_dec F f bs \<noteq> Inl (Msg ''out of fuel'')"
  "length bs < f \<Longrightarrow> readListN F f n bs \<noteq> Inl (Msg ''out of fuel'')"
  "length bs < f \<Longrightarrow> readMapN F f n m bs \<noteq> Inl (Msg ''out of fuel'')"
proof (induction F f bs and F f n bs and F f n m bs rule: ps_dec_readListN_readMapN.induct)
  case (2 F f)
  then show ?case by (simp add: eof_def)
next
  case (3 F f b t)
  show ?case
  proof (cases "ps_head b t")
    case (Inl e)
    then show ?thesis using ps_head_fail by auto
  next
    case (Inr p)
    obtain h r1 where p: "p = (h, r1)" by fastforce
    with Inr have h: "ps_head b t = Inr (h, r1)" by simp
    have lt: "length r1 < f" using ps_head_length [OF h] 3(4) by simp
    show ?thesis
    proof (cases h)
      case (HList n)
      with 3(1) [OF h [unfolded HList] refl refl lt] show ?thesis by (simp add: h map_sum_id_Inl)
    next
      case (HMap n)
      with 3(2) [OF h [unfolded HMap] refl refl lt] show ?thesis by (simp add: h map_sum_id_Inl)
    next
      case (HStruct n)
      show ?thesis
      proof (cases "read_n 1 r1")
        case (Inl e)
        then show ?thesis using read_n_fail HStruct by (auto simp: h)
      next
        case (Inr q)
        obtain sg r2 where q: "q = (sg, r2)" by fastforce
        have "length r2 < f" using read_n_length [of 1 r1 sg r2] Inr q lt by simp
        then have "readListN F f n r2 \<noteq> Inl (Msg ''out of fuel'')"
          using 3(3) [OF h [unfolded HStruct] refl refl Inr q [symmetric]] by blast
        with HStruct Inr q show ?thesis by (simp add: h map_sum_id_Inl)
      qed
    qed (simp add: h)
  qed
next
  case (5 F f n bs)
  show ?case
  proof (cases "ps_dec F f bs")
    case (Inl e)
    then show ?thesis using 5(1,3) by auto
  next
    case (Inr p)
    obtain v r where p: "p = (v, r)" by fastforce
    have "length r < f" using ps_dec_length(1) [of F f bs v r] Inr p 5(3) by simp
    with 5(2) [OF Inr p [symmetric]] Inr p show ?thesis by (simp add: map_sum_id_Inl)
  qed
next
  case (7 F f n m bs)
  show ?case
  proof (cases "ps_dec F f bs")
    case (Inl e)
    then show ?thesis using 7(1,4) by auto
  next
    case (Inr p)
    note first = Inr
    obtain k r where p: "p = (k, r)" by fastforce
    have l: "length r < f" using ps_dec_length(1) [of F f bs k r] Inr p 7(4) by simp
    show ?thesis
    proof (cases "ps_dec F f r")
      case (Inl e)
      with 7(2) [OF first p [symmetric] l] first p show ?thesis by auto
    next
      case (Inr p2)
      obtain v r2 where p2: "p2 = (v, r2)" by fastforce
      have "length r2 < f" using ps_dec_length(1) [of F f r v r2] Inr p2 l by simp
      with 7(3) [OF first p [symmetric] Inr p2 [symmetric]] first p Inr p2
      show ?thesis by simp
    qed
  qed
qed simp_all

text \<open>
  C7. Decoding terminates on every input: a recursion as deep as the input is long never
  runs out, a deeper one gives the same result, and a decoded value takes at least one byte
  off the input.
\<close>
theorem packstream_decode_total:
  "PackStreamDecode F bs \<noteq> Inl (Msg ''out of fuel'') \<and>
   ps_dec F (length bs + 1 + k) bs = PackStreamDecode F bs \<and>
   (case PackStreamDecode F bs of Inl _ \<Rightarrow> True | Inr (v, r) \<Rightarrow> length r < length bs)"
proof -
  have "ps_dec F (length bs + 1 + k) bs = PackStreamDecode F bs"
    unfolding PackStreamDecode_def by (rule ps_dec_fuel(1)) simp_all
  then show ?thesis
    using ps_dec_no_fuel_error(1) [of bs "Suc (length bs)" F] ps_dec_length(1) [of F "Suc (length bs)" bs]
    by (auto simp: PackStreamDecode_def split: sum.split)
qed

lemma packItems_append:
  "packItems (us @ vs) = (case packItems us of Inl e \<Rightarrow> Inl e
     | Inr b \<Rightarrow> map_sum id (\<lambda>c. b @ c) (packItems vs))"
proof (induction us)
  case (Cons u us)
  then show ?case by (auto split: sum.split simp: sum.map_comp comp_def map_sum_def)
qed (simp add: sum.map_ident [unfolded id_def] map_sum_def split: sum.split)

text \<open>
  A list of more than 65535 items is written with its length cut to 16 bits: the reader
  gets only that many items and takes the others for what follows.
\<close>
theorem packstream_long_list:
  assumes "PackStreamEncode (VList vs) = Inr bs" and "ps_ok_list vs" and "0xFFFF < length vs"
  shows "\<exists>rest. PackStreamDecode F bs =
    Inr (VList (ps_norm_list (take (length vs mod 0x10000) vs)), rest)"
proof -
  let ?k = "length vs mod 0x10000"
  let ?us = "take ?k vs" and ?ws = "drop ?k vs"
  from assms(1) obtain cs where cs: "packItems vs = Inr cs" "bs = list_header (length vs) @ cs"
    by (auto simp: map_sum_id_Inr)
  have "packItems (?us @ ?ws) = Inr cs" using cs(1) by simp
  then obtain b c where bc: "packItems ?us = Inr b" "packItems ?ws = Inr c" "cs = b @ c"
    unfolding packItems_append by (auto simp: map_sum_id_Inr split: sum.splits)
  have "ps_ok_list us" if "ps_ok_list (us @ ws)" for us ws
    using that by (induction us) auto
  then have ok: "ps_ok_list ?us" using assms(2) by (metis append_take_drop_id)
  have len: "length ?us = ?k" using assms(3) by simp
  have hd: "list_header (length vs) @ cs = 0xD5 # (be 2 (length vs) @ cs)"
    using assms(3) by (simp add: list_header_def)
  have "ps_head 0xD5 (be 2 (length vs) @ cs) = Inr (HList ?k, cs)"
    using read_size_be [of 2 "length vs" cs] by (simp add: head_markers sized_def)
  moreover have "readListN F (length bs) (length ?us) (b @ c) = Inr (ps_norm_list ?us, c)"
    by (rule ps_dec_encode(2) [OF bc(1) ok])
      (use header_nonempty(1) [of "length vs"] in \<open>simp add: cs(2) bc(3)\<close>)
  ultimately have "ps_dec F (Suc (length bs)) (0xD5 # (be 2 (length vs) @ cs)) =
      Inr (VList (ps_norm_list ?us), c)"
    by (simp add: len bc(3))
  moreover have "0xD5 # (be 2 (length vs) @ cs) = bs" by (simp only: cs(2) hd)
  ultimately show ?thesis
    unfolding PackStreamDecode_def by (intro exI [of _ c]) simp
qed

lemma packItems_nils: "packItems (replicate n VNil) = Inr (replicate n 0xC0)"
  by (induction n) auto

lemma ps_ok_nils: "ps_ok_list (replicate n VNil)"
  by (induction n) auto

theorem packstream_long_list_witness:
  "\<exists>rest. PackStreamDecode plain_fmt (0xD5 # be 2 65537 @ replicate 65537 0xC0) = Inr (VList [VNil], rest)"
proof -
  have "PackStreamEncode (VList (replicate 65537 VNil)) = Inr (0xD5 # be 2 65537 @ replicate 65537 0xC0)"
    by (simp only: PackStreamEncode.simps packItems_nils length_replicate list_header_def) simp
  from packstream_long_list [OF this ps_ok_nils, of plain_fmt]
  show ?thesis by (simp add: take_replicate )
qed

text \<open>
  C8. A message sent in chunks is decoded as the message that was sent, whatever follows it
  on the connection.
\<close>
theorem message_roundtrip:
  assumes "SendMessage t flds = Inr bs" and "ps_ok_list flds"
  shows "DecodeMessage F (bs @ r) = Inr ((t, ps_norm_list flds), r)"
  by (rule DecodeMessage_SendMessage [OF assms])

theorem message_roundtrip_witness:
  "\<exists>bs. SendMessage MsgRUN [VStr ''RETURN 1'', VMap []] = Inr bs \<and>
     DecodeMessage plain_fmt (bs @ [7]) = Inr ((MsgRUN, [VStr ''RETURN 1'', VMap []]), [7])"
proof -
  obtain bs where "SendMessage MsgRUN [VStr ''RETURN 1'', VMap []] = Inr bs"
    by (simp add: SendMessage_def EncodeMessage_def)
  with message_roundtrip [OF this] show ?thesis by simp
qed

section \<open>Server\<close>

lemma read_versions_be:
  "list_all (\<lambda>v. v < 2 ^ 32) vs \<Longrightarrow>
    read_versions (length vs) i (concat (map (be 4) vs) @ r) = Inr (vs, r)"
  by (induction vs arbitrary: i) (simp_all add: read_n_append)

text \<open>
  The handshake answers exactly four bytes: version 4.4 when the client offers it in any
  of its four proposals, zero otherwise; with another preamble it answers nothing.
\<close>
theorem handshake_negotiates:
  assumes "magic < 2 ^ 32" and "length vs = 4" and "\<forall>v \<in> set vs. v < 2 ^ 32"
  shows "Handshake (be 4 magic @ concat (map (be 4) vs) @ r) =
    (if magic \<noteq> BoltMagic
     then (Inl (Msg (''invalid bolt magic: 0x'' @ hex_word magic)), [])
     else if BoltVersion4_4 \<in> set vs
     then (Inr (BoltVersion4_4, r), be 4 BoltVersion4_4)
     else (Inr (0, r), be 4 0))"
proof -
  have "list_all (\<lambda>v. v < 2 ^ 32) vs" using assms(3) by (simp add: list_all_iff)
  from read_versions_be [OF this, of 0 r] assms(1,2) show ?thesis
    by (simp add: Handshake_def read_n_append Let_def)
qed

theorem handshake_negotiates_witness:
  "Handshake (be 4 0x6060B017 @ concat (map (be 4) [0x00000005, 0x00000404, 0, 0]) @ [1]) =
    (Inr (0x404, [1]), be 4 0x404) \<and>
   snd (Handshake (be 4 0x47455420 @ concat (map (be 4) [0, 0, 0, 0]) @ [])) = []"
  using handshake_negotiates [of "0x6060B017" "[0x00000005, 0x00000404, 0, 0]" "[1]"]
    handshake_negotiates [of "0x47455420" "[0, 0, 0, 0]" "[]"]
  by (simp add: BoltMagic_def BoltVersion4_4_def)

lemma send_records_all:
  assumes "list_all2 (\<lambda>r b. SendMessage MsgRECORD [VList (map (row_get r) cols)] = Inr b) rows bs"
  shows "send_records cols rows c = (c\<lparr>c_out := c_out c @ concat bs\<rparr>, True)"
  using assms by (induction arbitrary: c rule: list_all2_induct) (simp_all add: send_def)

lemma messageLoop_next:
  assumes "SendMessage t flds = Inr m" and "ps_ok_list flds"
  shows "messageLoop F exec (c\<lparr>c_in := m @ r\<rparr>) =
    (case handle_message F exec t (ps_norm_list flds) (c\<lparr>c_in := r\<rparr>) of
       (c', go_on) \<Rightarrow> if go_on then messageLoop F exec c' else c')"
  by (subst messageLoop.simps) (simp add: DecodeMessage_SendMessage [OF assms])

text \<open>
  C9. A RUN whose query succeeds, followed by PULL, runs the query exactly once with the
  parameters that were sent, and answers the column names, one record per row in order and
  with the values in column order, and a final SUCCESS; the loop goes on behind it.
\<close>
theorem run_pull_streams:
  assumes "SendMessage MsgRUN [VStr q, VMap ps] = Inr m1" and "ps_ok_list [VStr q, VMap ps]"
    and "SendMessage MsgPULL fs = Inr m2" and "ps_ok_list fs"
    and "exec q (Some (ps_norm_fields ps)) (c_db c) = (Ok rs, d)"
    and "SendMessage MsgSUCCESS [VMap [(''fields'', VList (map VStr (rs_columns rs)))]] = Inr o1"
    and "list_all2 (\<lambda>r b. SendMessage MsgRECORD [VList (map (row_get r) (rs_columns rs))] = Inr b)
           (rs_rows rs) recs"
    and "SendMessage MsgSUCCESS [VMap []] = Inr o2"
  shows "messageLoop F exec (c\<lparr>c_in := m1 @ m2 @ rest\<rparr>) =
    messageLoop F exec (c\<lparr>c_in := rest, c_out := c_out c @ o1 @ concat recs @ o2, c_db := d\<rparr>)"
proof -
  have "reply_run F rs (c\<lparr>c_in := m2 @ rest, c_db := d\<rparr>) =
      (c\<lparr>c_in := rest, c_out := c_out c @ o1 @ concat recs @ o2, c_db := d\<rparr>, True)"
    using assms(6,8) DecodeMessage_SendMessage [OF assms(3,4), of F rest]
    by (cases c) (simp add: reply_run_def send_def toAnySlice_def send_records_all [OF assms(7)])
  with assms(5) show ?thesis
    by (simp add: messageLoop_next [OF assms(1,2)] handle_message_def msg_defs extractParams_def)
qed

definition one_row :: "unit executor" where
  "one_row = (\<lambda>q ps d. (Ok \<lparr>rs_columns = [''x''], rs_rows = [[(''x'', VStr q)]]\<rparr>, d))"

theorem run_pull_streams_witness:
  "\<exists>m1 m2 o1 r1 o2.
     SendMessage MsgRUN [VStr ''RETURN'', VMap []] = Inr m1 \<and>
     SendMessage MsgPULL [] = Inr m2 \<and>
     SendMessage MsgRECORD [VList [VStr ''RETURN'']] = Inr r1 \<and>
     messageLoop plain_fmt one_row \<lparr>c_in = m1 @ m2, c_out = [], c_db = (), c_crashed = False\<rparr> =
     messageLoop plain_fmt one_row
       \<lparr>c_in = [], c_out = o1 @ r1 @ o2, c_db = (), c_crashed = False\<rparr>"
proof -
  have enc: "\<exists>m. SendMessage t vs = Inr m" if "packItems vs = Inr b" "length vs \<le> 15" for t vs b
    using that by (simp add: SendMessage_def EncodeMessage_def)
  obtain m1 where m1: "SendMessage MsgRUN [VStr ''RETURN'', VMap []] = Inr m1"
    using enc [of "[VStr ''RETURN'', VMap []]"] by auto
  obtain m2 where m2: "SendMessage MsgPULL [] = Inr m2" using enc [of "[]"] by auto
  obtain o1 where o1: "SendMessage MsgSUCCESS [VMap [(''fields'', VList [VStr ''x''])]] = Inr o1"
    using enc [of "[VMap [(''fields'', VList [VStr ''x''])]]"] by auto
  obtain r1 where r1: "SendMessage MsgRECORD [VList [VStr ''RETURN'']] = Inr r1"
    using enc [of "[VList [VStr ''RETURN'']]"] by auto
  obtain o2 where o2: "SendMessage MsgSUCCESS [VMap []] = Inr o2" using enc [of "[VMap []]"] by auto
  let ?c = "\<lparr>c_in = [], c_out = [], c_db = (), c_crashed = False\<rparr>"
  let ?rs = "\<lparr>rs_columns = [''x''], rs_rows = [[(''x'', VStr ''RETURN'')]]\<rparr>"
  have "messageLoop plain_fmt one_row (?c\<lparr>c_in := m1 @ m2 @ []\<rparr>) =
      messageLoop plain_fmt one_row (?c\<lparr>c_in := [], c_out := c_out ?c @ o1 @ concat [r1] @ o2, c_db := ()\<rparr>)"
    by (rule run_pull_streams [OF m1 _ m2, where rs = ?rs])
      (simp_all add: one_row_def o1 r1 o2 row_get_def)
  with m1 m2 r1 show ?thesis by auto
qed

text \<open>
  A query that fails is answered with one FAILURE carrying the error text, the effects it
  had on the database stay, and the loop goes on with the next message.
\<close>
theorem run_failure_reported:
  assumes "SendMessage MsgRUN [VStr q, VMap ps] = Inr m" and "ps_ok_list [VStr q, VMap ps]"
    and "exec q (Some (ps_norm_fields ps)) (c_db c) = (Err e, d)"
    and "SendMessage MsgFAILURE [VMap [(''code'', VStr ''Neo.ClientError.Statement.SyntaxError''),
           (''message'', VStr (error_text e))]] = Inr o1"
  shows "messageLoop F exec (c\<lparr>c_in := m @ rest\<rparr>) =
    messageLoop F exec (c\<lparr>c_in := rest, c_out := c_out c @ o1, c_db := d\<rparr>)"
  unfolding messageLoop_next [OF assms(1,2)]
  using assms(3,4)
  by (cases c) (simp add: handle_message_def msg_defs extractParams_def
      sendFailure_def send_def)

theorem run_failure_reported_witness:
  "\<exists>m o1. SendMessage MsgRUN [VStr ''BAD'', VMap []] = Inr m \<and>
     messageLoop plain_fmt (\<lambda>q ps d. (Err (Msg q), d))
       \<lparr>c_in = m, c_out = [], c_db = (), c_crashed = False\<rparr> =
     messageLoop plain_fmt (\<lambda>q ps d. (Err (Msg q), d))
       \<lparr>c_in = [], c_out = o1, c_db = (), c_crashed = False\<rparr>"
proof -
  let ?c = "\<lparr>c_in = [], c_out = [], c_db = (), c_crashed = False\<rparr>"
  let ?f = "[VMap [(''code'', VStr ''Neo.ClientError.Statement.SyntaxError''), (''message'', VStr ''BAD'')]]"
  obtain m where m: "SendMessage MsgRUN [VStr ''BAD'', VMap []] = Inr m"
    by (simp add: SendMessage_def EncodeMessage_def)
  obtain o1 where o1: "SendMessage MsgFAILURE ?f = Inr o1"
    by (simp add: SendMessage_def EncodeMessage_def)
  have "messageLoop plain_fmt (\<lambda>q ps d. (Err (Msg q), d)) (?c\<lparr>c_in := m @ []\<rparr>) =
      messageLoop plain_fmt (\<lambda>q ps d. (Err (Msg q), d)) (?c\<lparr>c_in := [], c_out := c_out ?c @ o1, c_db := ()\<rparr>)"
    by (rule run_failure_reported [OF m, where e = "Msg ''BAD''"]) (use o1 in simp_all)
  with m show ?thesis by auto
qed

text \<open>
  After a successful RUN the next message is taken as the PULL: when it is anything else,
  a RESET or another RUN, it is dropped without a reply, and so are the rows.
\<close>
theorem run_swallows_next:
  assumes "SendMessage MsgRUN [VStr q, VMap ps] = Inr m1" and "ps_ok_list [VStr q, VMap ps]"
    and "SendMessage t fs = Inr m2" and "ps_ok_list fs" and "t \<noteq> MsgPULL"
    and "exec q (Some (ps_norm_fields ps)) (c_db c) = (Ok rs, d)"
    and "SendMessage MsgSUCCESS [VMap [(''fields'', VList (map VStr (rs_columns rs)))]] = Inr o1"
  shows "messageLoop F exec (c\<lparr>c_in := m1 @ m2 @ rest\<rparr>) =
    messageLoop F exec (c\<lparr>c_in := rest, c_out := c_out c @ o1, c_db := d\<rparr>)"
proof -
  have "reply_run F rs (c\<lparr>c_in := m2 @ rest, c_db := d\<rparr>) =
      (c\<lparr>c_in := rest, c_out := c_out c @ o1, c_db := d\<rparr>, True)"
    using assms(5,7) DecodeMessage_SendMessage [OF assms(3,4), of F rest]
    by (cases c) (simp add: reply_run_def send_def toAnySlice_def)
  with assms(6) show ?thesis
    by (simp add: messageLoop_next [OF assms(1,2)] handle_message_def msg_defs extractParams_def)
qed

theorem run_swallows_next_witness:
  "\<exists>m1 m2 o1.
     SendMessage MsgRUN [VStr ''RETURN'', VMap []] = Inr m1 \<and>
     SendMessage MsgRESET [] = Inr m2 \<and>
     messageLoop plain_fmt one_row \<lparr>c_in = m1 @ m2, c_out = [], c_db = (), c_crashed = False\<rparr> =
     messageLoop plain_fmt one_row \<lparr>c_in = [], c_out = o1, c_db = (), c_crashed = False\<rparr>"
proof -
  let ?c = "\<lparr>c_in = [], c_out = [], c_db = (), c_crashed = False\<rparr>"
  obtain m1 where m1: "SendMessage MsgRUN [VStr ''RETURN'', VMap []] = Inr m1"
    by (simp add: SendMessage_def EncodeMessage_def)
  obtain m2 where m2: "SendMessage MsgRESET [] = Inr m2"
    by (simp add: SendMessage_def EncodeMessage_def)
  obtain o1 where o1: "SendMessage MsgSUCCESS [VMap [(''fields'', VList [VStr ''x''])]] = Inr o1"
    by (simp add: SendMessage_def EncodeMessage_def)
  have "messageLoop plain_fmt one_row (?c\<lparr>c_in := m1 @ m2 @ []\<rparr>) =
      messageLoop plain_fmt one_row (?c\<lparr>c_in := [], c_out := c_out ?c @ o1, c_db := ()\<rparr>)"
    by (rule run_swallows_next [OF m1 _ m2,
          where rs = "\<lparr>rs_columns = [''x''], rs_rows = [[(''x'', VStr ''RETURN'')]]\<rparr>"])
      (simp_all add: one_row_def o1, simp add: msg_defs)
  with m1 m2 show ?thesis by auto
qed

end
