(* ===== verification/Cluster_Partition.thy ===== *)
theory Cluster_Partition
  imports Go_Text
begin

text \<open>
  internal/cluster/partition.go and types.go: hashing agents to partitions and the map of
  partitions to their owners. The hashing strategy is an interface of the code; its contract
  is the locale \<open>partition_strategy\<close>, met by the FNV-1a partitioner.
\<close>

unbundle bit_operations_syntax

section \<open>Hashing\<close>

text \<open>\<open>fnv.New32a\<close>: multiplication wraps at 32 bits.\<close>

definition fnv1a :: "string \<Rightarrow> 32 word" where
  "fnv1a s = foldl (\<lambda>h c. (h XOR word_of_nat (of_char c)) * 16777619) 2166136261 s"

definition AgentIDPartition :: "string \<Rightarrow> int \<Rightarrow> int" where
  "AgentIDPartition agent n = (if n \<le> 0 then 0 else uint (fnv1a agent) mod n)"

section \<open>The partition map\<close>

record node_info =
  ni_name :: string
  ni_addr :: string
  ni_rpc :: int
  ni_bolt :: int
  ni_http :: int

record partition_map =
  pm_num :: int
  pm_owners :: "(int \<times> node_info) list"

definition NewPartitionMap :: "int \<Rightarrow> partition_map" where
  "NewPartitionMap n = \<lparr>pm_num = (if n \<le> 0 then 1 else n), pm_owners = []\<rparr>"

definition by_name :: "node_info \<Rightarrow> node_info \<Rightarrow> bool" where
  "by_name a b \<longleftrightarrow> ni_name a < ni_name b"

text \<open>Partition \<open>i\<close> goes to member \<open>i mod k\<close> in the order of the names.\<close>

definition Rebalance :: "node_info list \<Rightarrow> partition_map \<Rightarrow> partition_map" where
  "Rebalance members pm = pm\<lparr>pm_owners :=
     (if members = [] then []
      else let sorted = sort_by by_name members in
           map (\<lambda>i. (int i, sorted ! (i mod length sorted))) [0..<nat (pm_num pm)])\<rparr>"

definition owner_of :: "(string \<Rightarrow> int \<Rightarrow> int) \<Rightarrow> partition_map \<Rightarrow> string \<Rightarrow> node_info option" where
  "owner_of strategy pm agent = map_of (pm_owners pm) (strategy agent (pm_num pm))"

definition LocalPartitions :: "partition_map \<Rightarrow> string \<Rightarrow> int list" where
  "LocalPartitions pm self = sort (map fst (filter (\<lambda>(p, n). ni_name n = self) (pm_owners pm)))"

definition IsLocal :: "(string \<Rightarrow> int \<Rightarrow> int) \<Rightarrow> partition_map \<Rightarrow> string \<Rightarrow> string \<Rightarrow> bool" where
  "IsLocal strategy pm agent self =
     (case owner_of strategy pm agent of None \<Rightarrow> False | Some n \<Rightarrow> ni_name n = self)"

text \<open>The owners without repetition: one entry per name, the last one met, sorted by name.\<close>

definition UniqueOwners :: "partition_map \<Rightarrow> node_info list" where
  "UniqueOwners pm = sort_by by_name
     (map snd (foldl (\<lambda>m (p, n). AList.update (ni_name n) n m) [] (pm_owners pm)))"

section \<open>Facts about rebalancing\<close>

lemma by_name_weak: "strict_weak by_name"
  unfolding strict_weak_def by_name_def by (auto simp: not_less)

lemma length_sorted [simp]: "length (sort_by by_name ms) = length ms"
  by (rule length_sort_by)

text \<open>With distinct names the sorted list does not depend on the order of the members.\<close>

lemma sort_by_name_perm:
  assumes "mset ms = mset ms'" and "distinct (map ni_name ms)"
  shows "sort_by by_name ms = sort_by by_name ms'"
proof (rule map_sorted_distinct_set_unique [where f = ni_name])
  have sorted: "sorted (map ni_name (sort_by by_name xs))" for xs
    using sorted_sort_by [OF by_name_weak, of xs]
    by (simp add: sorted_wrt_map by_name_def not_less)
  show "sorted (map ni_name (sort_by by_name ms))" and "sorted (map ni_name (sort_by by_name ms'))"
    by (rule sorted)+
  have d': "distinct (map ni_name ms')"
    using assms by (metis mset_eq_imp_distinct_iff mset_map)
  show "distinct (map ni_name (sort_by by_name ms))" "distinct (map ni_name (sort_by by_name ms'))"
    using assms(2) d' by (simp_all add: distinct_map_sort_by)
  show "set (sort_by by_name ms) = set (sort_by by_name ms')"
    using assms(1) by (metis mset_eq_setD set_sort_by)
  show "inj_on ni_name (set (sort_by by_name ms) \<union> set (sort_by by_name ms'))"
    using assms(2) \<open>set (sort_by by_name ms) = set (sort_by by_name ms')\<close>
    by (simp add: distinct_map)
qed

lemma map_of_int_upt:
  "map_of (map (\<lambda>i. (int i, f i)) [0..<n]) k = (if 0 \<le> k \<and> k < int n then Some (f (nat k)) else None)"
proof -
  have "map_of (map (\<lambda>i. (int i, f i)) is) k =
      (if 0 \<le> k \<and> nat k \<in> set is then Some (f (nat k)) else None)" for "is"
    by (induction "is") auto
  from this [of "[0..<n]"] show ?thesis by auto
qed

lemma owners_Rebalance:
  assumes "members \<noteq> []"
  shows "map_of (pm_owners (Rebalance members pm)) p =
    (if 0 \<le> p \<and> p < pm_num pm
     then Some (sort_by by_name members ! (nat p mod length members)) else None)"
  using assms by (simp add: Rebalance_def Let_def map_of_int_upt)

lemma pm_num_Rebalance [simp]: "pm_num (Rebalance members pm) = pm_num pm"
  by (simp add: Rebalance_def)

text \<open>How many of the numbers below \<open>n\<close> are congruent to \<open>j\<close>.\<close>

lemma card_mod_class:
  assumes "j < k"
  shows "card {i. i < n \<and> i mod k = j} = n div k + (if j < n mod k then 1 else (0::nat))"
proof (induction n)
  case (Suc n)
  have split: "{i. i < Suc n \<and> i mod k = j} =
      (if n mod k = j then insert n {i. i < n \<and> i mod k = j} else {i. i < n \<and> i mod k = j})"
    by (auto simp: less_Suc_eq)
  have fin: "finite {i. i < n \<and> i mod k = j}" by simp
  from assms show ?case
    using Suc unfolding split
    by (auto simp: fin div_Suc mod_Suc card_insert_if split: if_splits)
qed simp

locale partition_strategy =
  fixes strategy :: "string \<Rightarrow> int \<Rightarrow> int"
  assumes in_range: "0 < n \<Longrightarrow> 0 \<le> strategy agent n \<and> strategy agent n < n"
begin

text \<open>Once some member is known, every agent has exactly one owner, and it is a member.\<close>

lemma owner_Rebalance:
  assumes "members \<noteq> []" and "0 < pm_num pm"
  shows "\<exists>n \<in> set members. owner_of strategy (Rebalance members pm) agent = Some n \<and>
    n = sort_by by_name members ! (nat (strategy agent (pm_num pm)) mod length members)"
proof -
  let ?s = "sort_by by_name members" and ?p = "strategy agent (pm_num pm)"
  have "?s ! (nat ?p mod length members) \<in> set ?s"
    using assms(1) by (intro nth_mem) simp
  then show ?thesis
    using in_range [OF assms(2), of agent]
    by (simp add: owner_of_def owners_Rebalance [OF assms(1)])
qed

lemma local_unique:
  assumes "IsLocal strategy pm agent a" and "IsLocal strategy pm agent b"
  shows "a = b"
  using assms by (simp add: IsLocal_def split: option.splits)

end

interpretation fnv: partition_strategy AgentIDPartition
  by unfold_locales (simp add: AgentIDPartition_def)

lemma pm_num_pos [simp]: "0 < pm_num (NewPartitionMap n)"
  by (simp add: NewPartitionMap_def)

section \<open>The owners a rebalance leaves\<close>

lemma unique_fold:
  assumes dist: "distinct (map ni_name s)" and s: "s \<noteq> []"
  shows "foldl (\<lambda>m (p, n). AList.update (ni_name n) n m) []
      (map (\<lambda>i. (int i, s ! (i mod length s))) [0..<n]) =
    map (\<lambda>i. (ni_name (s ! i), s ! i)) [0..<min n (length s)]"
proof (induction n)
  case (Suc n)
  let ?k = "length s"
  let ?l = "map (\<lambda>i. (ni_name (s ! i), s ! i)) [0..<min n ?k]"
  have step: "foldl (\<lambda>m (p, n). AList.update (ni_name n) n m) []
      (map (\<lambda>i. (int i, s ! (i mod ?k))) [0..<Suc n]) =
      AList.update (ni_name (s ! (n mod ?k))) (s ! (n mod ?k)) ?l"
    by (simp add: Suc)
  show ?case
  proof (cases "n < ?k")
    case True
    have "ni_name (s ! n) \<noteq> ni_name (s ! i)" if "i < n" for i
    proof
      assume eq: "ni_name (s ! n) = ni_name (s ! i)"
      have "map ni_name s ! n = map ni_name s ! i" using eq True that by simp
      with dist True that show False
        by (metis length_map nat_less_le nth_eq_iff_index_eq order.strict_trans)
    qed
    moreover have "set (map fst ?l) = {ni_name (s ! i) |i. i < n}"
      using True by (auto simp: min_def)
    ultimately have "ni_name (s ! n) \<notin> set (map fst ?l)" by fastforce
    with True show ?thesis unfolding step by (simp add: update_fresh min_def)
  next
    case False
    let ?j = "n mod ?k"
    have j: "?j < ?k" using s by simp
    have "distinct (map fst ?l)"
    proof -
      have "map fst ?l = take (min n ?k) (map ni_name s)"
        by (intro nth_equalityI) auto
      with dist show ?thesis by simp
    qed
    moreover have "(ni_name (s ! ?j), s ! ?j) \<in> set ?l" using j False by (auto simp: min_def)
    ultimately have "map_of ?l (ni_name (s ! ?j)) = Some (s ! ?j)" by simp
    then show ?thesis unfolding step using False by (simp add: update_triv min_def)
  qed
qed simp

lemma UniqueOwners_Rebalance:
  assumes dist: "distinct (map ni_name ms)" and ms: "ms \<noteq> []"
  shows "UniqueOwners (Rebalance ms pm) = take (nat (pm_num pm)) (sort_by by_name ms)"
proof -
  let ?s = "sort_by by_name ms" and ?n = "nat (pm_num pm)"
  have s: "?s \<noteq> []" using ms by (metis length_0_conv length_sort_by)
  have d: "distinct (map ni_name ?s)" using dist by (simp add: distinct_map_sort_by)
  have owners: "pm_owners (Rebalance ms pm) = map (\<lambda>i. (int i, ?s ! (i mod length ?s))) [0..<?n]"
    using ms by (simp add: Rebalance_def Let_def)
  have "map snd (map (\<lambda>i. (ni_name (?s ! i), ?s ! i)) [0..<min ?n (length ?s)]) = take ?n ?s"
    by (intro nth_equalityI) auto
  moreover have "sorted_wrt (\<lambda>x y. \<not> by_name y x) (take ?n ?s)"
    using sorted_sort_by [OF by_name_weak, of ms] by (simp add: sorted_wrt_take)
  ultimately show ?thesis
    unfolding UniqueOwners_def owners unique_fold [OF d s] by (simp only: sort_by_sorted)
qed

end
