(* ===== verification/Cluster_Membership.thy ===== *)
theory Cluster_Membership
  imports Cluster_Partition
begin

text \<open>
  internal/cluster/membership.go: the events of the gossip library, the bounded channel they
  are put into, and the goroutine that rebalances the partition map. The member list itself
  is the library's: it changes arbitrarily, and each change is announced. The goroutine's
  three actions (take an event, read the members, install the new map) are separate steps,
  so that changes can fall between them.
\<close>

datatype event_kind = EvJoin | EvLeave | EvUpdate

text \<open>A member as the library reports it; \<open>None\<close> is metadata that does not decode.\<close>

record member =
  mb_name :: string
  mb_addr :: string
  mb_meta :: "(int \<times> int \<times> int) option"

definition nodeInfoFromMember :: "member \<Rightarrow> node_info" where
  "nodeInfoFromMember m = (case mb_meta m of
      Some (rpc, bolt, http) \<Rightarrow> \<lparr>ni_name = mb_name m, ni_addr = mb_addr m, ni_rpc = rpc,
                                ni_bolt = bolt, ni_http = http\<rparr>
    | None \<Rightarrow> \<lparr>ni_name = mb_name m, ni_addr = mb_addr m, ni_rpc = 0, ni_bolt = 0, ni_http = 0\<rparr>)"

type_synonym member_event = "event_kind \<times> member"

datatype worker = WIdle | WTaken member_event | WRead member_event "node_info list"

record membership =
  m_list :: "member list"
  m_events :: "member_event list"
  m_worker :: worker
  m_map :: partition_map
  m_joined :: "node_info list"
  m_left :: "node_info list"

definition Members :: "membership \<Rightarrow> node_info list" where
  "Members m = map nodeInfoFromMember (m_list m)"

text \<open>The delegate's send: the channel holds 64 events, further ones are dropped.\<close>

definition notify :: "member_event \<Rightarrow> member_event list \<Rightarrow> member_event list" where
  "notify ev q = (if length q < 64 then q @ [ev] else q)"

text \<open>
  A new membership: the library knows the local node and has announced it; the first
  rebalance is with the local node alone.
\<close>

definition NewMembership :: "member \<Rightarrow> partition_map \<Rightarrow> membership" where
  "NewMembership self pm = \<lparr>m_list = [self], m_events = notify (EvJoin, self) [],
     m_worker = WIdle, m_map = Rebalance [nodeInfoFromMember self] pm, m_joined = [], m_left = []\<rparr>"

definition take_event :: "membership \<Rightarrow> membership option" where
  "take_event m = (case (m_worker m, m_events m) of
      (WIdle, ev # q) \<Rightarrow> Some (m\<lparr>m_events := q, m_worker := WTaken ev\<rparr>) | _ \<Rightarrow> None)"

definition read_members :: "membership \<Rightarrow> membership option" where
  "read_members m = (case m_worker m of
      WTaken ev \<Rightarrow> Some (m\<lparr>m_worker := WRead ev (Members m)\<rparr>) | _ \<Rightarrow> None)"

definition install_map :: "membership \<Rightarrow> membership option" where
  "install_map m = (case m_worker m of
      WRead (k, n) ms \<Rightarrow> Some (m\<lparr>m_worker := WIdle, m_map := Rebalance ms (m_map m),
          m_joined := (if k = EvJoin then m_joined m @ [nodeInfoFromMember n] else m_joined m),
          m_left := (if k = EvLeave then m_left m @ [nodeInfoFromMember n] else m_left m)\<rparr>)
    | _ \<Rightarrow> None)"

inductive member_step :: "membership \<Rightarrow> membership \<Rightarrow> bool" where
  gossip: "member_step m (m\<lparr>m_list := l, m_events := notify ev (m_events m)\<rparr>)"
| worker_take: "take_event m = Some m' \<Longrightarrow> member_step m m'"
| worker_read: "read_members m = Some m' \<Longrightarrow> member_step m m'"
| worker_install: "install_map m = Some m' \<Longrightarrow> member_step m m'"

text \<open>Nothing queued and nothing in progress.\<close>

definition quiescent :: "membership \<Rightarrow> bool" where
  "quiescent m \<longleftrightarrow> m_events m = [] \<and> m_worker m = WIdle"

definition map_current :: "membership \<Rightarrow> bool" where
  "map_current m \<longleftrightarrow> m_map m = Rebalance (Members m) (m_map m)"

definition member_inv :: "membership \<Rightarrow> bool" where
  "member_inv m \<longleftrightarrow> (m_events m = [] \<longrightarrow> (case m_worker m of
      WIdle \<Rightarrow> map_current m | WTaken _ \<Rightarrow> True | WRead _ ms \<Rightarrow> ms = Members m))"

lemma Rebalance_twice [simp]: "Rebalance ms (Rebalance ms' pm) = Rebalance ms pm"
  by (simp add: Rebalance_def)

lemma notify_nonempty [simp]: "notify ev q \<noteq> []"
  by (auto simp: notify_def)

lemma notify_length: "length q \<le> 64 \<Longrightarrow> length (notify ev q) \<le> 64"
  by (simp add: notify_def)

lemma member_inv_step: "member_step m m' \<Longrightarrow> member_inv m \<Longrightarrow> member_inv m'"
  by (induction rule: member_step.induct)
    (auto simp: member_inv_def take_event_def read_members_def install_map_def map_current_def
      Members_def split: worker.splits list.splits prod.splits)

lemma member_inv_new: "member_inv (NewMembership self pm)"
  by (simp add: member_inv_def NewMembership_def)

lemma member_inv_steps: "member_step\<^sup>*\<^sup>* m m' \<Longrightarrow> member_inv m \<Longrightarrow> member_inv m'"
  by (induction rule: rtranclp_induct) (auto intro: member_inv_step)

lemma pm_num_step: "member_step m m' \<Longrightarrow> pm_num (m_map m') = pm_num (m_map m)"
  by (induction rule: member_step.induct)
    (auto simp: take_event_def read_members_def install_map_def
      split: worker.splits list.splits prod.splits)

lemma pm_num_steps: "member_step\<^sup>*\<^sup>* m m' \<Longrightarrow> pm_num (m_map m') = pm_num (m_map m)"
  by (induction rule: rtranclp_induct) (auto dest: pm_num_step)

text \<open>
  Left alone, the goroutine comes to rest: three of its steps take one event off the queue.
\<close>

definition worker_cost :: "membership \<Rightarrow> nat" where
  "worker_cost m = 3 * length (m_events m) +
     (case m_worker m of WIdle \<Rightarrow> 0 | WTaken _ \<Rightarrow> 2 | WRead _ _ \<Rightarrow> 1)"

definition worker_step :: "membership \<Rightarrow> membership option" where
  "worker_step m = (case m_worker m of
      WIdle \<Rightarrow> take_event m | WTaken _ \<Rightarrow> read_members m | WRead _ _ \<Rightarrow> install_map m)"

lemma worker_step_member: "worker_step m = Some m' \<Longrightarrow> member_step m m'"
  by (auto simp: worker_step_def intro: member_step.intros split: worker.splits)

lemma worker_step_cost: "worker_step m = Some m' \<Longrightarrow> worker_cost m' < worker_cost m"
  by (auto simp: worker_step_def worker_cost_def take_event_def read_members_def install_map_def
      split: worker.splits list.splits prod.splits)

lemma worker_step_list: "worker_step m = Some m' \<Longrightarrow> m_list m' = m_list m"
  by (auto simp: worker_step_def take_event_def read_members_def install_map_def
      split: worker.splits list.splits prod.splits)

lemma worker_step_None: "worker_step m = None \<longleftrightarrow> quiescent m"
  by (auto simp: worker_step_def quiescent_def take_event_def read_members_def install_map_def
      split: worker.splits list.splits prod.splits)

primrec run_worker :: "nat \<Rightarrow> membership \<Rightarrow> membership" where
  "run_worker 0 m = m"
| "run_worker (Suc k) m = (case worker_step m of None \<Rightarrow> m | Some m' \<Rightarrow> run_worker k m')"

lemma run_worker_rest:
  "worker_cost m \<le> k \<Longrightarrow> quiescent (run_worker k m) \<and> member_step\<^sup>*\<^sup>* m (run_worker k m) \<and>
     m_list (run_worker k m) = m_list m"
proof (induction k arbitrary: m)
  case 0
  then have "worker_step m = None"
    using worker_step_cost [of m] by (cases "worker_step m") auto
  then show ?case by (simp add: worker_step_None)
next
  case (Suc k)
  show ?case
  proof (cases "worker_step m")
    case None
    then have "quiescent m" by (simp only: worker_step_None)
    with None show ?thesis by simp
  next
    case (Some m')
    with Suc.prems worker_step_cost [OF Some] have "worker_cost m' \<le> k" by simp
    from Suc.IH [OF this] Some show ?thesis
      using worker_step_member [OF Some] worker_step_list [OF Some]
      by (auto intro: converse_rtranclp_into_rtranclp)
  qed
qed

end
