(* ===== verification/Query_Router.thy ===== *)
theory Query_Router
  imports Cluster_Partition PackStream Query_Result
begin

text \<open>
  internal/cluster/router.go and rpc.go: the router that sends a query to every owner and
  merges the answers, and the length-prefixed RPC frames. The JSON text of a message is a
  parameter (an encoder and a decoder); the calls to the shards touch different nodes, so
  running them in the order of the owners gives what running them concurrently gives.
\<close>

section \<open>Merging shard results\<close>

type_synonym shard_result = "gerr + result_set"

primrec first_error :: "shard_result list \<Rightarrow> gerr option" where
  "first_error [] = None"
| "first_error (r # rs) = (case r of Inl e \<Rightarrow> Some e | Inr _ \<Rightarrow> first_error rs)"

definition valid_results :: "shard_result list \<Rightarrow> result_set list" where
  "valid_results rs = concat (map (\<lambda>r. case r of Inl _ \<Rightarrow> [] | Inr x \<Rightarrow> [x]) rs)"

definition mergeResults :: "shard_result list \<Rightarrow> gerr + result_set" where
  "mergeResults rs = (case valid_results rs of
      [] \<Rightarrow> (case first_error rs of
          Some e \<Rightarrow> Inl e | None \<Rightarrow> Inr \<lparr>rs_columns = [], rs_rows = []\<rparr>)
    | v # vs \<Rightarrow> Inr \<lparr>rs_columns = rs_columns v, rs_rows = concat (map rs_rows (v # vs))\<rparr>)"

section \<open>Frames\<close>

definition max_rpc :: nat where "max_rpc = 10 * 1024 * 1024"

definition writeRPCMessage :: "('m \<Rightarrow> gerr + byte list) \<Rightarrow> 'm \<Rightarrow> gerr + byte list" where
  "writeRPCMessage marshal m = (case marshal m of
      Inl e \<Rightarrow> Inl (Wrap ''marshal rpc message'' e)
    | Inr data \<Rightarrow>
        if length data > 2 ^ 32 - 1
        then Inl (Msg (''rpc message too large: '' @ show_nat (length data) @ '' bytes''))
        else Inr (be 4 (length data) @ data))"

definition readRPCMessage ::
  "(byte list \<Rightarrow> gerr + 'm) \<Rightarrow> byte list \<Rightarrow> gerr + 'm \<times> byte list" where
  "readRPCMessage unmarshal bs = (case read_n 4 bs of
      Inl e \<Rightarrow> Inl e
    | Inr (l, r) \<Rightarrow>
        if un_be l > max_rpc
        then Inl (Msg (''rpc message too large: '' @ show_nat (un_be l) @ '' bytes''))
        else (case read_n (un_be l) r of
            Inl e \<Rightarrow> Inl (Wrap ''read rpc payload'' e)
          | Inr (data, r') \<Rightarrow> (case unmarshal data of
              Inl e \<Rightarrow> Inl (Wrap ''unmarshal rpc message'' e)
            | Inr m \<Rightarrow> Inr (m, r'))))"

section \<open>Requests and responses\<close>

record rpc_request =
  rq_cypher :: string
  rq_params :: "row option"

record rpc_response =
  rp_columns :: "string list"
  rp_rows :: "row list"
  rp_error :: string

definition executeRequest :: "'x executor \<Rightarrow> rpc_request \<Rightarrow> 'x \<Rightarrow> rpc_response outcome \<times> 'x" where
  "executeRequest exec req d = (case exec (rq_cypher req) (rq_params req) d of
      (Ok rs, d') \<Rightarrow> (Ok \<lparr>rp_columns = rs_columns rs, rp_rows = rs_rows rs, rp_error = ''''\<rparr>, d')
    | (Err e, d') \<Rightarrow> (Ok \<lparr>rp_columns = [], rp_rows = [], rp_error = error_text e\<rparr>, d')
    | (Panic, d') \<Rightarrow> (Panic, d'))"

definition rpcResponseToResultSet :: "rpc_response \<Rightarrow> result_set" where
  "rpcResponseToResultSet r = \<lparr>rs_columns = rp_columns r, rs_rows = rp_rows r\<rparr>"

text \<open>
  \<open>RPCClient.Query\<close> over a transport: what the remote side read back from the wire, or an
  error of the dial, the write or the read.
\<close>

type_synonym 'w transport = "string \<Rightarrow> rpc_request \<Rightarrow> ('w, rpc_response) go"

definition client_Query :: "'w transport \<Rightarrow> string \<Rightarrow> rpc_request \<Rightarrow> ('w, rpc_response) go" where
  "client_Query net addr req = go_bind (net addr req) (\<lambda>resp.
     if rp_error resp \<noteq> ''''
     then go_raise (Msg (''remote error from '' @ addr @ '': '' @ rp_error resp))
     else go_ret resp)"

section \<open>The router\<close>

text \<open>The world of the router: the local database and the remote nodes.\<close>

definition shard_query ::
  "'w executor \<Rightarrow> 'w transport \<Rightarrow> string \<Rightarrow> string \<Rightarrow> row option \<Rightarrow> node_info \<Rightarrow>
     ('w, shard_result) go" where
  "shard_query local_exec net self cypher ps owner =
     (if ni_name owner = self then go_try (local_exec cypher ps)
      else go_bind (go_try (client_Query net (ni_addr owner @ '':'' @ show_int (ni_rpc owner))
                              \<lparr>rq_cypher = cypher, rq_params = ps\<rparr>))
             (\<lambda>r. go_ret (map_sum id rpcResponseToResultSet r)))"

definition router_Execute ::
  "'w executor \<Rightarrow> 'w transport \<Rightarrow> partition_map \<Rightarrow> string \<Rightarrow> 'w executor" where
  "router_Execute local_exec net pm self cypher ps =
     (let owners = UniqueOwners pm in
      if length owners \<le> 1 then local_exec cypher ps
      else go_bind (go_collect owners (\<lambda>o'.
               go_bind (shard_query local_exec net self cypher ps o') (\<lambda>r. go_ret [r])))
             (\<lambda>rs. case mergeResults rs of Inl e \<Rightarrow> go_raise e | Inr x \<Rightarrow> go_ret x))"

lemma valid_results_simps [simp]:
  "valid_results [] = []"
  "valid_results (Inl e # rs) = valid_results rs"
  "valid_results (Inr x # rs) = x # valid_results rs"
  by (simp_all add: valid_results_def)

lemma first_error_None: "first_error rs = None \<longleftrightarrow> (\<forall>r \<in> set rs. \<exists>x. r = Inr x)"
  by (induction rs) (auto split: sum.split)

end
