(* ===== verification/Cluster_Properties.thy ===== *)
theory Cluster_Properties
  imports Cluster_Membership Query_Router
begin

text \<open>
  The correctness of partitioning, membership and routing: all nodes compute the same map,
  partitions are spread evenly, the map follows the members, and what merging keeps.
\<close>

text \<open>
  Two nodes that know the same members, in whatever order, send every agent to the same
  owner, and that owner is one of the members.
\<close>
theorem rebalance_agrees:
  assumes "mset ms = mset ms'" and "distinct (map ni_name ms)" and "ms \<noteq> []"
    and "pm_num pm = pm_num pm'" and "0 < pm_num pm"
  shows "owner_of AgentIDPartition (Rebalance ms pm) agent =
      owner_of AgentIDPartition (Rebalance ms' pm') agent \<and>
    (\<exists>n \<in> set ms. owner_of AgentIDPartition (Rebalance ms pm) agent = Some n)"
proof -
  have ms': "ms' \<noteq> []" using assms(1,3) by auto
  have "length ms = length ms'" using assms(1) by (metis size_mset)
  then have "owner_of AgentIDPartition (Rebalance ms pm) agent =
      owner_of AgentIDPartition (Rebalance ms' pm') agent"
    by (simp add: owner_of_def owners_Rebalance [OF assms(3)] owners_Rebalance [OF ms']
        sort_by_name_perm [OF assms(1,2)] assms(4))
  then show ?thesis using fnv.owner_Rebalance [OF assms(3,5), of agent] by blast
qed

definition node_a :: node_info where
  "node_a = \<lparr>ni_name = ''a'', ni_addr = ''10.0.0.1'', ni_rpc = 7000, ni_bolt = 7687, ni_http = 7474\<rparr>"
definition node_b :: node_info where
  "node_b = \<lparr>ni_name = ''b'', ni_addr = ''10.0.0.2'', ni_rpc = 7000, ni_bolt = 7687, ni_http = 7474\<rparr>"

lemma nodes_distinct: "distinct (map ni_name [node_a, node_b])"
  by (simp add: node_a_def node_b_def)

theorem rebalance_agrees_witness:
  "owner_of AgentIDPartition (Rebalance [node_a, node_b] (NewPartitionMap 16)) ''agent-1'' =
   owner_of AgentIDPartition (Rebalance [node_b, node_a] (NewPartitionMap 16)) ''agent-1''"
  using rebalance_agrees [of "[node_a, node_b]" "[node_b, node_a]" "NewPartitionMap 16"
      "NewPartitionMap 16" "''agent-1''"] nodes_distinct
  by simp

text \<open>
  C11. Of \<open>n\<close> partitions every one of \<open>k\<close> members gets \<open>n div k\<close>, and the first \<open>n mod k\<close>
  members by name one more.
\<close>
theorem rebalance_balanced:
  assumes "distinct (map ni_name ms)" and "j < length ms" and "0 < pm_num pm"
  shows "card {p. map_of (pm_owners (Rebalance ms pm)) p = Some (sort_by by_name ms ! j)} =
    nat (pm_num pm) div length ms + (if j < nat (pm_num pm) mod length ms then 1 else 0)"
proof -
  let ?s = "sort_by by_name ms" and ?k = "length ms" and ?n = "nat (pm_num pm)"
  have ms: "ms \<noteq> []" using assms(2) by auto
  have "distinct (map ni_name ?s)" using assms(1) by (simp add: distinct_map_sort_by)
  then have ds: "distinct ?s" using distinct_map by blast
  have "{p. map_of (pm_owners (Rebalance ms pm)) p = Some (?s ! j)} =
      int ` {i. i < ?n \<and> i mod ?k = j}"
  proof (intro set_eqI iffI)
    fix p assume "p \<in> {p. map_of (pm_owners (Rebalance ms pm)) p = Some (?s ! j)}"
    then have p: "0 \<le> p" "p < pm_num pm" "?s ! (nat p mod ?k) = ?s ! j"
      by (auto simp: owners_Rebalance [OF ms] split: if_splits)
    have "nat p mod ?k = j"
      using p(3) ds assms(2) ms by (simp add: nth_eq_iff_index_eq)
    with p(1,2) show "p \<in> int ` {i. i < ?n \<and> i mod ?k = j}"
      by (intro image_eqI [of _ _ "nat p"]) auto
  next
    fix p assume "p \<in> int ` {i. i < ?n \<and> i mod ?k = j}"
    then show "p \<in> {p. map_of (pm_owners (Rebalance ms pm)) p = Some (?s ! j)}"
      by (auto simp: owners_Rebalance [OF ms])
  qed
  then show ?thesis
    using card_mod_class [OF assms(2), of ?n] by (simp add: card_image)
qed

theorem rebalance_balanced_witness:
  "card {p. map_of (pm_owners (Rebalance [node_a, node_b] (NewPartitionMap 7))) p = Some node_a} = 4"
  using rebalance_balanced [of "[node_a, node_b]" 0 "NewPartitionMap 7"] nodes_distinct
  by (simp add: by_name_def node_a_def node_b_def NewPartitionMap_def flip: numeral_2_eq_2)

text \<open>
  An agent is local to a node exactly when its partition is among the node's local
  partitions, and it is local to at most one node name.
\<close>
theorem local_partitions_consistent:
  "(IsLocal AgentIDPartition (Rebalance ms pm) agent self \<longleftrightarrow>
      AgentIDPartition agent (pm_num pm) \<in> set (LocalPartitions (Rebalance ms pm) self)) \<and>
   (IsLocal AgentIDPartition (Rebalance ms pm) agent a \<longrightarrow>
    IsLocal AgentIDPartition (Rebalance ms pm) agent b \<longrightarrow> a = b)"
proof
  let ?o = "pm_owners (Rebalance ms pm)"
  have "distinct (map fst ?o)"
    by (simp add: Rebalance_def Let_def comp_def distinct_map inj_on_def)
  then have lookup: "(p, n) \<in> set ?o \<longleftrightarrow> map_of ?o p = Some n" for p n by simp
  have "IsLocal AgentIDPartition (Rebalance ms pm) agent self \<longleftrightarrow>
      (\<exists>n. (AgentIDPartition agent (pm_num pm), n) \<in> set ?o \<and> ni_name n = self)"
    by (auto simp: IsLocal_def owner_of_def lookup split: option.split)
  moreover have "set (LocalPartitions (Rebalance ms pm) self) =
      {p. \<exists>n. (p, n) \<in> set ?o \<and> ni_name n = self}"
    by (auto simp: LocalPartitions_def image_iff)
  ultimately show "IsLocal AgentIDPartition (Rebalance ms pm) agent self \<longleftrightarrow>
      AgentIDPartition agent (pm_num pm) \<in> set (LocalPartitions (Rebalance ms pm) self)"
    by simp
  show "IsLocal AgentIDPartition (Rebalance ms pm) agent a \<longrightarrow>
      IsLocal AgentIDPartition (Rebalance ms pm) agent b \<longrightarrow> a = b"
    using fnv.local_unique by blast
qed

theorem local_partitions_consistent_witness:
  "IsLocal AgentIDPartition (Rebalance [node_a, node_b] (NewPartitionMap 2)) '''' ''b'' \<and>
   AgentIDPartition '''' 2 \<in> set (LocalPartitions (Rebalance [node_a, node_b] (NewPartitionMap 2)) ''b'')"
proof -
  have "IsLocal AgentIDPartition (Rebalance [node_a, node_b] (NewPartitionMap 2)) '''' ''b''"
    by (simp add: IsLocal_def owner_of_def owners_Rebalance AgentIDPartition_def fnv1a_def
        NewPartitionMap_def by_name_def node_a_def node_b_def)
  moreover have "pm_num (NewPartitionMap 2) = 2" by (simp add: NewPartitionMap_def)
  ultimately show ?thesis
    using local_partitions_consistent [of "[node_a, node_b]" "NewPartitionMap 2" "''''" "''b''"]
    by simp
qed

text \<open>
  The owners a query is sent to are the members in the order of their names, but with
  fewer partitions than members only the first ones: the others are never asked.
\<close>
theorem unique_owners_after_rebalance:
  assumes "distinct (map ni_name ms)" and "ms \<noteq> []"
  shows "UniqueOwners (Rebalance ms pm) = take (nat (pm_num pm)) (sort_by by_name ms)"
  by (rule UniqueOwners_Rebalance [OF assms])

theorem unique_owners_after_rebalance_witness:
  "UniqueOwners (Rebalance [node_b, node_a] (NewPartitionMap 16)) = [node_a, node_b] \<and>
   UniqueOwners (Rebalance [node_b, node_a] (NewPartitionMap 1)) = [node_a]"
  using unique_owners_after_rebalance [of "[node_b, node_a]" "NewPartitionMap 16"]
    unique_owners_after_rebalance [of "[node_b, node_a]" "NewPartitionMap 1"]
  by (simp add: by_name_def node_a_def node_b_def NewPartitionMap_def)

text \<open>
  C10. However membership changes and the goroutine's steps interleave, and although a full
  channel drops events: whenever nothing is queued and nothing is in progress, the map is
  the rebalancing of the current members; and left alone the goroutine gets there within
  three steps per queued event.
\<close>
theorem membership_converges:
  assumes "member_step\<^sup>*\<^sup>* (NewMembership self pm) m"
  shows "(quiescent m \<longrightarrow> m_map m = Rebalance (Members m) pm) \<and>
    (let m' = run_worker (worker_cost m) m in
     quiescent m' \<and> m_list m' = m_list m \<and> m_map m' = Rebalance (Members m) pm)"
proof -
  have reb: "m_map x = Rebalance (Members x) pm"
    if "member_step\<^sup>*\<^sup>* (NewMembership self pm) x" "quiescent x" for x
  proof -
    have "map_current x"
      using member_inv_steps [OF that(1) member_inv_new] that(2)
      by (simp add: member_inv_def quiescent_def)
    moreover have "pm_num (m_map x) = pm_num pm"
      using pm_num_steps [OF that(1)] by (simp add: NewMembership_def)
    then have "Rebalance (Members x) (m_map x) = Rebalance (Members x) pm"
      by (simp add: Rebalance_def)
    ultimately show ?thesis by (simp add: map_current_def)
  qed
  let ?m' = "run_worker (worker_cost m) m"
  have rest: "quiescent ?m' \<and> member_step\<^sup>*\<^sup>* m ?m' \<and> m_list ?m' = m_list m"
    by (rule run_worker_rest) simp
  then have "member_step\<^sup>*\<^sup>* (NewMembership self pm) ?m'"
    using assms by (meson rtranclp_trans)
  from reb [OF this] rest have "m_map ?m' = Rebalance (Members ?m') pm" by blast
  moreover have "Members ?m' = Members m" using rest by (simp add: Members_def)
  ultimately show ?thesis using reb [OF assms] rest by (simp add: Let_def)
qed

definition mem_self :: member where
  "mem_self = \<lparr>mb_name = ''a'', mb_addr = ''10.0.0.1'', mb_meta = Some (7000, 7687, 7474)\<rparr>"
definition mem_peer :: member where
  "mem_peer = \<lparr>mb_name = ''b'', mb_addr = ''10.0.0.2'', mb_meta = Some (7000, 7687, 7474)\<rparr>"

theorem membership_converges_witness:
  "let m = (NewMembership mem_self (NewPartitionMap 4))\<lparr>m_list := [mem_peer, mem_self],
             m_events := [(EvJoin, mem_self), (EvJoin, mem_peer)]\<rparr>
   in m_map (run_worker (worker_cost m) m) = Rebalance [node_b, node_a] (NewPartitionMap 4)"
proof -
  let ?n = "NewMembership mem_self (NewPartitionMap 4)"
  let ?m = "?n\<lparr>m_list := [mem_peer, mem_self], m_events := [(EvJoin, mem_self), (EvJoin, mem_peer)]\<rparr>"
  have "notify (EvJoin, mem_peer) (m_events ?n) = [(EvJoin, mem_self), (EvJoin, mem_peer)]"
    by (simp add: NewMembership_def notify_def)
  with gossip [where m = ?n and l = "[mem_peer, mem_self]" and ev = "(EvJoin, mem_peer)"]
  have "member_step ?n ?m" by simp
  then have "member_step\<^sup>*\<^sup>* ?n ?m" by blast
  from membership_converges [OF this]
  have "m_map (run_worker (worker_cost ?m) ?m) = Rebalance (Members ?m) (NewPartitionMap 4)"
    by (simp add: Let_def)
  moreover have "Members ?m = [node_b, node_a]"
    by (simp add: Members_def nodeInfoFromMember_def mem_peer_def mem_self_def node_a_def node_b_def)
  ultimately show ?thesis by (simp add: Let_def)
qed

lemma valid_results_concat:
  "concat (map rs_rows (valid_results rs)) =
    concat (map (\<lambda>r. case r of Inl _ \<Rightarrow> [] | Inr x \<Rightarrow> rs_rows x) rs)"
  by (induction rs) (auto split: sum.split)

lemma valid_results_Nil: "valid_results rs = [] \<longleftrightarrow> (\<forall>r \<in> set rs. \<exists>e. r = Inl e)"
  by (induction rs) (auto simp: valid_results_def split: sum.split)

text \<open>
  C12. Merging fails only when every shard failed; otherwise the rows are those of the shards
  that answered, in the order of the shards and none of them combined: an error of some
  shards leaves no trace in the result, and a count or a limit holds per shard only.
\<close>
theorem merge_results_spec:
  assumes "rs \<noteq> []"
  shows "(\<forall>e. mergeResults rs = Inl e \<longrightarrow> (\<forall>r \<in> set rs. \<exists>x. r = Inl x)) \<and>
    ((\<exists>x. Inr x \<in> set rs) \<longrightarrow> (\<exists>m. mergeResults rs = Inr m \<and>
       rs_rows m = concat (map (\<lambda>r. case r of Inl _ \<Rightarrow> [] | Inr x \<Rightarrow> rs_rows x) rs)))"
proof (cases "valid_results rs")
  case Nil
  then have all: "\<forall>r \<in> set rs. \<exists>e. r = Inl e" by (simp add: valid_results_Nil)
  then show ?thesis by fastforce
next
  case (Cons v vs)
  then have "\<not> (\<forall>r \<in> set rs. \<exists>e. r = Inl e)" by (simp flip: valid_results_Nil)
  with Cons show ?thesis
    using valid_results_concat [of rs] by (simp add: mergeResults_def)
qed

theorem merge_results_spec_witness:
  "map_sum id rs_rows (mergeResults
     [Inr \<lparr>rs_columns = [''count(*)''], rs_rows = [[(''count(*)'', VInt 3)]]\<rparr>, Inl (Msg ''timeout''),
      Inr \<lparr>rs_columns = [''count(*)''], rs_rows = [[(''count(*)'', VInt 4)]]\<rparr>]) =
   Inr [[(''count(*)'', VInt 3)], [(''count(*)'', VInt 4)]]"
proof -
  let ?rs = "[Inr \<lparr>rs_columns = [''count(*)''], rs_rows = [[(''count(*)'', VInt 3)]]\<rparr>, Inl (Msg ''timeout''),
      Inr \<lparr>rs_columns = [''count(*)''], rs_rows = [[(''count(*)'', VInt 4)]]\<rparr>] :: shard_result list"
  from merge_results_spec [of ?rs] obtain m where "mergeResults ?rs = Inr m"
    "rs_rows m = [[(''count(*)'', VInt 3)], [(''count(*)'', VInt 4)]]" by fastforce
  then show ?thesis by simp
qed

text \<open>
  A message that fits 10 MiB is read back as it was written and the bytes behind it are
  left alone; a longer one, up to 4 GiB, is written without an error and refused by every
  reader.
\<close>
theorem rpc_frame_roundtrip:
  assumes "marshal m = Inr text" and "unmarshal text = Inr m'" and "length text < 2 ^ 32"
  shows "\<exists>frame. writeRPCMessage marshal m = Inr frame \<and>
    readRPCMessage unmarshal (frame @ r) =
      (if length text \<le> max_rpc then Inr (m', r)
       else Inl (Msg (''rpc message too large: '' @ show_nat (length text) @ '' bytes'')))"
  using assms
  by (simp add: writeRPCMessage_def readRPCMessage_def read_n_append max_rpc_def)

theorem rpc_frame_roundtrip_witness:
  "(\<exists>frame. writeRPCMessage (\<lambda>bs. Inr bs) [1, 2, 3] = Inr frame \<and>
      readRPCMessage (\<lambda>bs. Inr bs) (frame @ [9]) = Inr ([1, 2, 3], [9])) \<and>
   (\<exists>frame. writeRPCMessage (\<lambda>bs. Inr bs) (replicate 10485761 0) = Inr frame \<and>
      readRPCMessage (\<lambda>bs. Inr bs) (frame @ []) =
        Inl (Msg (''rpc message too large: '' @ show_nat 10485761 @ '' bytes'')))"
  using rpc_frame_roundtrip [of "\<lambda>bs. Inr bs" "[1, 2, 3]" "[1, 2, 3]" "\<lambda>bs. Inr bs" "[1, 2, 3]" "[9]"]
    rpc_frame_roundtrip [of "\<lambda>bs. Inr bs" "replicate 10485761 0" "replicate 10485761 0" "\<lambda>bs. Inr bs"
      "replicate 10485761 0" "[]"]
  by (simp add: max_rpc_def)

end
