(* ===== verification/Cypher_Ast.thy ===== *)
theory Cypher_Ast
  imports Go_Value
begin

text \<open>
  internal/query/ast.go: statements, clauses, patterns and expressions. A property map of a
  node pattern is an association list; \<open>None\<close> is the nil map of a pattern without braces.
\<close>

datatype expr =
    IdentExpr string
  | PropertyExpr string string
  | LiteralExpr gval
  | ParamExpr string
  | BinaryExpr expr string expr
  | UnaryExpr string expr
  | FuncCallExpr string "expr list"
  | StarExpr
  | ListExpr "expr list"

record node_pattern =
  np_variable :: string
  np_label :: string
  np_props :: "(string \<times> expr) list option"

datatype edge_direction = EdgeRight | EdgeLeft

record edge_pattern =
  ep_variable :: string
  ep_label :: string
  ep_direction :: edge_direction

record pattern =
  pt_nodes :: "node_pattern list"
  pt_edges :: "edge_pattern list"

record return_item =
  ri_expr :: expr
  ri_alias :: string

record order_item =
  oi_expr :: expr
  oi_desc :: bool

record set_item =
  si_variable :: string
  si_property :: string
  si_value :: expr

record return_clause =
  rc_items :: "return_item list"
  rc_order_by :: "order_item list"
  rc_limit :: "int option"
  rc_skip :: "int option"

datatype clause =
    MatchClause "pattern list"
  | WhereClause expr
  | ReturnClause return_clause
  | CreateClause "pattern list"
  | MergeClause pattern
  | SetClause "set_item list"
  | DeleteClause "string list"
  | CallClause string "expr list" "string list"

type_synonym statement = "clause list"

end
