(* ===== verification/Go_Runes.thy ===== *)
theory Go_Runes
  imports Go_Text
begin

text \<open>
  Strings as runes: the UTF-8 decoding of \<open>[]rune(s)\<close> (a byte that starts no valid sequence
  reads as U+FFFD, one byte wide) and the encoding of \<open>string(runes)\<close> and \<open>WriteRune\<close>.
  A rune is a natural number.
\<close>

section \<open>Encoding and decoding\<close>

definition valid_rune :: "nat \<Rightarrow> bool" where
  "valid_rune r \<longleftrightarrow> r < 0xD800 \<or> 0xDFFF < r \<and> r \<le> 0x10FFFF"

definition encode_rune :: "nat \<Rightarrow> string" where
  "encode_rune r = map char_of
     (if \<not> valid_rune r then [0xEF, 0xBF, 0xBD]
      else if r < 0x80 then [r]
      else if r < 0x800 then [0xC0 + r div 64, 0x80 + r mod 64]
      else if r < 0x10000 then [0xE0 + r div 4096, 0x80 + r div 64 mod 64, 0x80 + r mod 64]
      else [0xF0 + r div 262144, 0x80 + r div 4096 mod 64, 0x80 + r div 64 mod 64,
            0x80 + r mod 64])"

definition encode_runes :: "nat list \<Rightarrow> string" where
  "encode_runes rs = concat (map encode_rune rs)"

definition byte_at :: "nat list \<Rightarrow> nat \<Rightarrow> nat" where
  "byte_at bs i = (if i < length bs then bs ! i else 0)"

definition cont_byte :: "nat \<Rightarrow> bool" where
  "cont_byte c \<longleftrightarrow> 0x80 \<le> c \<and> c \<le> 0xBF"

text \<open>The second byte rules out overlong forms, surrogates and values above U+10FFFF.\<close>

definition second_byte :: "nat \<Rightarrow> nat \<Rightarrow> bool" where
  "second_byte b c \<longleftrightarrow>
     (if b = 0xE0 then 0xA0 else if b = 0xF0 then 0x90 else 0x80) \<le> c \<and>
     c \<le> (if b = 0xED then 0x9F else if b = 0xF4 then 0x8F else 0xBF)"

text \<open>The first rune of a non-empty byte sequence, with its width.\<close>

definition decode_rune :: "nat list \<Rightarrow> nat \<times> nat" where
  "decode_rune bs =
     (let b = byte_at bs 0; c = byte_at bs 1; d = byte_at bs 2; e = byte_at bs 3 in
      if b < 0x80 then (b, 1)
      else if 0xC2 \<le> b \<and> b \<le> 0xDF \<and> cont_byte c then ((b - 0xC0) * 64 + (c - 0x80), 2)
      else if 0xE0 \<le> b \<and> b \<le> 0xEF \<and> second_byte b c \<and> cont_byte d
      then ((b - 0xE0) * 4096 + (c - 0x80) * 64 + (d - 0x80), 3)
      else if 0xF0 \<le> b \<and> b \<le> 0xF4 \<and> second_byte b c \<and> cont_byte d \<and> cont_byte e
      then ((b - 0xF0) * 262144 + (c - 0x80) * 4096 + (d - 0x80) * 64 + (e - 0x80), 4)
      else (0xFFFD, 1))"

fun decode_bytes :: "nat list \<Rightarrow> nat list" where
  "decode_bytes [] = []"
| "decode_bytes (b # bs) =
     (let (r, w) = decode_rune (b # bs) in r # decode_bytes (drop (w - 1) bs))"

definition runes :: "string \<Rightarrow> nat list" where
  "runes s = decode_bytes (map of_char s)"

section \<open>Decoding what was encoded\<close>

lemma byte_at_simps [simp]:
  "byte_at (x # xs) 0 = x"
  "byte_at (x # xs) (Suc i) = byte_at xs i"
  by (simp_all add: byte_at_def)

lemma base64_div:
  "(r::nat) div 4096 = r div 64 div 64" "r div 262144 = r div 64 div 64 div 64"
  by (simp_all add: div_mult2_eq [symmetric])

lemma base64_split:
  obtains x c where "r div 64 = x" and "r mod 64 = c" and "c + 64 * x = r" and "c < (64::nat)"
  by (rule that [OF refl refl]) simp_all

lemmas encode_simps = encode_rune_def decode_rune_def of_char_of cont_byte_def second_byte_def
  base64_div valid_rune_def numeral_2_eq_2 numeral_3_eq_3 Let_def

lemma decode_encode_rune:
  assumes "valid_rune r"
  shows "decode_rune (map of_char (encode_rune r) @ bs) = (r, length (encode_rune r))"
proof -
  consider "r < 0x80" | "0x80 \<le> r" "r < 0x800" | "0x800 \<le> r" "r < 0x10000"
    | "0x10000 \<le> r" by linarith
  then show ?thesis
  proof cases
    case 1
    then show ?thesis using assms
      by (simp add: encode_rune_def decode_rune_def of_char_of)
  next
    case 2
    obtain a b where r: "r div 64 = a" "r mod 64 = b" "b + 64 * a = r" "b < 64"
      by (rule base64_split)
    then show ?thesis using 2 by (simp add: encode_simps)
  next
    case 3
    obtain x c where r: "r div 64 = x" "r mod 64 = c" "c + 64 * x = r" "c < 64"
      by (rule base64_split)
    obtain a b where x: "x div 64 = a" "x mod 64 = b" "b + 64 * a = x" "b < 64"
      by (rule base64_split)
    have a: "a < 16" using 3 r x by linarith
    have lo: "32 \<le> b" if "a = 0" using 3 r x that by linarith
    have hi: "b \<le> 31" if "a = 13" using assms r x that by (auto simp: valid_rune_def)
    show ?thesis using assms 3 r x a lo hi by (simp add: encode_simps)
  next
    case 4
    obtain y d where r: "r div 64 = y" "r mod 64 = d" "d + 64 * y = r" "d < 64"
      by (rule base64_split)
    obtain x c where y: "y div 64 = x" "y mod 64 = c" "c + 64 * x = y" "c < 64"
      by (rule base64_split)
    obtain a b where x: "x div 64 = a" "x mod 64 = b" "b + 64 * a = x" "b < 64"
      by (rule base64_split)
    have r4: "r \<le> 0x10FFFF" using assms 4 by (simp add: valid_rune_def)
    have a: "a \<le> 4" using r4 r x y by linarith
    have lo: "16 \<le> b" if "a = 0" using 4 r x y that by linarith
    have hi: "b \<le> 15" if "a = 4" using r4 r x y that by linarith
    show ?thesis using assms 4 r y x a lo hi by (simp add: encode_simps)
  qed
qed

lemma encode_rune_not_Nil [simp]: "encode_rune r \<noteq> []"
  by (simp add: encode_rune_def)

lemma decode_bytes_encode:
  assumes "valid_rune r"
  shows "decode_bytes (map of_char (encode_rune r) @ bs) = r # decode_bytes bs"
proof -
  obtain b and cs :: "nat list" where bcs: "map of_char (encode_rune r) = b # cs"
    by (cases "encode_rune r") simp_all
  then have len: "length (encode_rune r) = Suc (length cs)"
    by (metis length_map length_Cons)
  have "decode_rune (b # cs @ bs) = (r, length (encode_rune r))"
    using decode_encode_rune [OF assms, of bs] bcs by simp
  then show ?thesis by (simp add: bcs len)
qed

lemma runes_encode_runes:
  "list_all valid_rune rs \<Longrightarrow> runes (encode_runes rs) = rs"
  unfolding runes_def encode_runes_def
  by (induction rs) (simp_all add: decode_bytes_encode)

lemma encode_runes_simps [simp]:
  "encode_runes [] = []"
  "encode_runes (r # rs) = encode_rune r @ encode_runes rs"
  "encode_runes (rs @ ss) = encode_runes rs @ encode_runes ss"
  by (simp_all add: encode_runes_def)

text \<open>ASCII bytes stand for themselves only: no other rune's encoding contains one.\<close>

lemma encode_ascii: "r < 0x80 \<Longrightarrow> encode_rune r = [char_of r]"
  by (simp add: encode_rune_def valid_rune_def)

lemma of_char_nat_less: "of_char c < (256::nat)"
  by (metis of_char_mod_256 mod_less_divisor zero_less_numeral)

lemma encode_rune_bytes:
  assumes "c \<in> set (encode_rune r)"
  shows "of_char c = r \<or> (0x80::nat) \<le> of_char c"
proof (cases "r < 0x80")
  case True
  with assms show ?thesis by (simp add: encode_ascii of_char_of)
next
  case False
  have hi: "(0x80::nat) \<le> of_char (char_of n :: char)" if "0x80 \<le> n" "n < 0x100" for n :: nat
    using that by (simp add: of_char_of)
  have div: "r div 64 < 32" if "r < 0x800" using that by (simp add: less_mult_imp_div_less)
  have div2: "r div 4096 < 16" if "r < 0x10000" using that by (simp add: less_mult_imp_div_less)
  have div3: "r div 262144 < 5" if "valid_rune r" using that
    by (intro less_mult_imp_div_less) (auto simp: valid_rune_def)
  have m: "n mod 64 < 64" for n :: nat by simp
  from assms False show ?thesis
    using hi [of "0xC0 + r div 64"] hi [of "0xE0 + r div 4096"] hi [of "0xF0 + r div 262144"]
      hi [of "0x80 + r mod 64"] hi [of "0x80 + r div 64 mod 64"] hi [of "0x80 + r div 4096 mod 64"]
      m [of r] m [of "r div 64"] m [of "r div 4096"] div div2 div3
    unfolding encode_rune_def by (auto simp: of_char_of simp del: of_char_mod_256 split: if_splits)
qed

end
