(* ===== verification/Cypher_Lexer.thy ===== *)
theory Cypher_Lexer
  imports Go_Runes
begin

text \<open>
  internal/query/token.go and lexer.go: the tokens of the Cypher subset and the lexer.
  The lexer's state (the runes and a position) is the list of unread runes; the position is
  what the input's length exceeds it by. What Go's tables say of runes above Latin-1, float
  parsing and \<open>%q\<close> quoting are parameters.
\<close>

section \<open>Tokens\<close>

datatype token_type =
    TokenIdent | TokenString | TokenInt | TokenFloat | TokenParam
  | TokenMATCH | TokenWHERE | TokenRETURN | TokenCREATE | TokenMERGE | TokenSET
  | TokenDELETE | TokenORDER | TokenBY | TokenLIMIT | TokenSKIP | TokenAS | TokenAND
  | TokenOR | TokenNOT | TokenCONTAINS | TokenIN | TokenCALL | TokenYIELD | TokenASC
  | TokenDESC | TokenCOUNT | TokenWITH | TokenUNWIND | TokenTRUE | TokenFALSE | TokenNULL
  | TokenLParen | TokenRParen | TokenLBracket | TokenRBracket | TokenLBrace | TokenRBrace
  | TokenColon | TokenComma | TokenDot | TokenStar | TokenEQ | TokenNEQ | TokenLT | TokenGT
  | TokenLTE | TokenGTE | TokenDash | TokenArrow | TokenLArrow | TokenPipe
  | TokenEOF | TokenIllegal

record token =
  tk_type :: token_type
  tk_literal :: string
  tk_pos :: nat

abbreviation tok :: "token_type \<Rightarrow> string \<Rightarrow> nat \<Rightarrow> token" where
  "tok t l p \<equiv> \<lparr>tk_type = t, tk_literal = l, tk_pos = p\<rparr>"

definition keyword_table :: "(string \<times> token_type) list" where
  "keyword_table =
     [(''MATCH'', TokenMATCH), (''WHERE'', TokenWHERE), (''RETURN'', TokenRETURN),
      (''CREATE'', TokenCREATE), (''MERGE'', TokenMERGE), (''SET'', TokenSET),
      (''DELETE'', TokenDELETE), (''ORDER'', TokenORDER), (''BY'', TokenBY),
      (''LIMIT'', TokenLIMIT), (''SKIP'', TokenSKIP), (''AS'', TokenAS), (''AND'', TokenAND),
      (''OR'', TokenOR), (''NOT'', TokenNOT), (''CONTAINS'', TokenCONTAINS), (''IN'', TokenIN),
      (''CALL'', TokenCALL), (''YIELD'', TokenYIELD), (''ASC'', TokenASC), (''DESC'', TokenDESC),
      (''COUNT'', TokenCOUNT), (''WITH'', TokenWITH), (''UNWIND'', TokenUNWIND),
      (''TRUE'', TokenTRUE), (''FALSE'', TokenFALSE), (''NULL'', TokenNULL)]"

definition LookupIdent :: "string \<Rightarrow> token_type" where
  "LookupIdent ident = (case map_of keyword_table ident of Some t \<Rightarrow> t | None \<Rightarrow> TokenIdent)"

section \<open>Classes of runes\<close>

text \<open>
  \<open>cy_letter\<close> and \<open>cy_digit\<close> answer \<open>unicode.IsLetter\<close> and \<open>unicode.IsDigit\<close> above Latin-1.
\<close>

record cypher_lib =
  cy_letter :: "nat \<Rightarrow> bool"
  cy_digit :: "nat \<Rightarrow> bool"
  cy_parse_float :: "string \<Rightarrow> 64 word"
  cy_quote :: "string \<Rightarrow> string"

definition IsLetter :: "cypher_lib \<Rightarrow> nat \<Rightarrow> bool" where
  "IsLetter L c \<longleftrightarrow>
     65 \<le> c \<and> c \<le> 90 \<or> 97 \<le> c \<and> c \<le> 122 \<or> c = 0xAA \<or> c = 0xB5 \<or> c = 0xBA \<or>
     0xC0 \<le> c \<and> c \<le> 0xFF \<and> c \<noteq> 0xD7 \<and> c \<noteq> 0xF7 \<or> 0xFF < c \<and> cy_letter L c"

definition IsDigit :: "cypher_lib \<Rightarrow> nat \<Rightarrow> bool" where
  "IsDigit L c \<longleftrightarrow> 48 \<le> c \<and> c \<le> 57 \<or> 0xFF < c \<and> cy_digit L c"

definition IsSpace :: "nat \<Rightarrow> bool" where
  "IsSpace c \<longleftrightarrow> c \<in> {9, 10, 11, 12, 13, 32, 0x85, 0xA0, 0x1680, 0x2028, 0x2029, 0x202F,
     0x205F, 0x3000} \<or> 0x2000 \<le> c \<and> c \<le> 0x200A"

text \<open>
  \<open>strings.ToUpper\<close> as far as the keyword table can tell: the only other runes whose upper
  case is an ASCII letter are the dotless i and the long s.
\<close>

definition upper_rune :: "nat \<Rightarrow> nat" where
  "upper_rune c = (if 97 \<le> c \<and> c \<le> 122 then c - 32 else if c = 0x131 then 73
     else if c = 0x17F then 83 else c)"

abbreviation ident_rune :: "cypher_lib \<Rightarrow> nat \<Rightarrow> bool" where
  "ident_rune L c \<equiv> IsLetter L c \<or> IsDigit L c \<or> c = 95"

section \<open>The lexer\<close>

text \<open>\<open>readString\<close> after the opening quote: whether it was closed, the text, what is left.\<close>

definition unescape :: "nat \<Rightarrow> string" where
  "unescape c = (if c = 110 then [char_of (10::nat)] else if c = 116 then [char_of (9::nat)]
     else encode_rune c)"

fun readString :: "nat \<Rightarrow> nat list \<Rightarrow> bool \<times> string \<times> nat list" where
  "readString q [] = (False, [], [])"
| "readString q (c # cs) =
     (if c = q then (True, [], cs)
      else case cs of
          [] \<Rightarrow> (False, encode_rune c, [])
        | d # ds \<Rightarrow>
            if c = 92
            then (case readString q ds of (ok, s, r) \<Rightarrow> (ok, unescape d @ s, r))
            else (case readString q cs of (ok, s, r) \<Rightarrow> (ok, encode_rune c @ s, r)))"

text \<open>\<open>readNumber\<close>: the digits read, whether a dot was among them, what is left.\<close>

fun readNumber :: "cypher_lib \<Rightarrow> bool \<Rightarrow> nat list \<Rightarrow> nat list \<times> bool \<times> nat list" where
  "readNumber L isFloat [] = ([], isFloat, [])"
| "readNumber L isFloat (c # cs) =
     (if \<not> (IsDigit L c \<or> c = 46) \<or> c = 46 \<and> isFloat then ([], isFloat, c # cs)
      else case readNumber L (isFloat \<or> c = 46) cs of (ds, f, r) \<Rightarrow> (c # ds, f, r))"

definition readIdentOrKeyword :: "cypher_lib \<Rightarrow> nat \<Rightarrow> nat list \<Rightarrow> token \<times> nat list" where
  "readIdentOrKeyword L start cs =
     (let lit = takeWhile (ident_rune L) cs in
      (tok (LookupIdent (encode_runes (map upper_rune lit))) (encode_runes lit) start,
       dropWhile (ident_rune L) cs))"

text \<open>The symbols, decided by one rune and a look at the next (0 at the end of the input).\<close>

definition lex_symbol :: "nat \<Rightarrow> nat \<Rightarrow> nat list \<Rightarrow> token \<times> nat list" where
  "lex_symbol start ch cs =
     (let peek = (case cs of [] \<Rightarrow> 0 | d # _ \<Rightarrow> d) in
      if ch = 40 then (tok TokenLParen ''('' start, cs)
      else if ch = 41 then (tok TokenRParen '')'' start, cs)
      else if ch = 91 then (tok TokenLBracket ''['' start, cs)
      else if ch = 93 then (tok TokenRBracket '']'' start, cs)
      else if ch = 123 then (tok TokenLBrace ''{'' start, cs)
      else if ch = 125 then (tok TokenRBrace ''}'' start, cs)
      else if ch = 58 then (tok TokenColon '':'' start, cs)
      else if ch = 44 then (tok TokenComma '','' start, cs)
      else if ch = 46 then (tok TokenDot ''.'' start, cs)
      else if ch = 42 then (tok TokenStar ''*'' start, cs)
      else if ch = 124 then (tok TokenPipe ''|'' start, cs)
      else if ch = 61 then (tok TokenEQ ''='' start, cs)
      else if ch = 60 then
        (if peek = 62 then (tok TokenNEQ ''<>'' start, tl cs)
         else if peek = 61 then (tok TokenLTE ''<='' start, tl cs)
         else if peek = 45 then (tok TokenLArrow ''<-'' start, tl cs)
         else (tok TokenLT ''<'' start, cs))
      else if ch = 62 then
        (if peek = 61 then (tok TokenGTE ''>='' start, tl cs)
         else (tok TokenGT ''>'' start, cs))
      else if ch = 45 then
        (if peek = 62 then (tok TokenArrow ''->'' start, tl cs)
         else (tok TokenDash ''-'' start, cs))
      else (tok TokenIllegal (encode_rune ch) start, cs))"

text \<open>\<open>Next\<close>, for an input of \<open>n\<close> runes with the runes \<open>rest\<close> unread.\<close>

definition Next :: "cypher_lib \<Rightarrow> nat \<Rightarrow> nat list \<Rightarrow> token \<times> nat list" where
  "Next L n rest =
     (case dropWhile IsSpace rest of
        [] \<Rightarrow> (tok TokenEOF [] n, [])
      | ch # cs \<Rightarrow>
          let start = n - Suc (length cs) in
          if ch = 39 \<or> ch = 34 then
            (case readString ch cs of (ok, s, r) \<Rightarrow>
               (tok (if ok then TokenString else TokenIllegal) s start, r))
          else if IsDigit L ch then
            (case readNumber L False (ch # cs) of (ds, isFloat, r) \<Rightarrow>
               (tok (if isFloat then TokenFloat else TokenInt) (encode_runes ds) start, r))
          else if IsLetter L ch \<or> ch = 95 then readIdentOrKeyword L start (ch # cs)
          else if ch = 36 then
            (case readIdentOrKeyword L start cs of (t, r) \<Rightarrow>
               (tok TokenParam (CHR ''$'' # tk_literal t) start, r))
          else lex_symbol start ch cs)"

lemma readString_length: "length (snd (snd (readString q cs))) \<le> length cs"
proof (induction q cs rule: readString.induct)
  case (2 q c cs)
  show ?case
  proof (cases cs)
    case (Cons d ds)
    with 2 show ?thesis
      by (cases "c = q"; cases "c = 92") (simp_all add: split_beta)
  qed simp
qed simp

lemma readNumber_length: "length (snd (snd (readNumber L f cs))) \<le> length cs"
  by (induction cs arbitrary: f) (simp_all add: split_beta le_SucI)

lemma if_length_snd:
  "(c \<Longrightarrow> length (snd a) \<le> k) \<Longrightarrow> (\<not> c \<Longrightarrow> length (snd b) \<le> k) \<Longrightarrow>
    length (snd (if c then a else b)) \<le> k"
  by simp

lemma lex_symbol_length: "length (snd (lex_symbol p ch cs)) \<le> length cs"
  unfolding lex_symbol_def Let_def by (intro if_length_snd) simp_all

lemma readNumber_digit_length:
  "IsDigit L c \<Longrightarrow> length (snd (snd (readNumber L False (c # cs)))) \<le> length cs"
  using readNumber_length [of L "c = 46" cs] by (auto split: prod.splits)

text \<open>Every token but the end of the input uses up at least one rune.\<close>

lemma Next_progress:
  assumes "Next L n rest = (t, r)"
  shows "length r < length rest \<or> tk_type t = TokenEOF \<and> r = []"
proof (cases "dropWhile IsSpace rest")
  case Nil
  with assms show ?thesis by (auto simp: Next_def)
next
  case (Cons ch cs)
  have len: "Suc (length cs) \<le> length rest"
    using length_dropWhile_le [of IsSpace rest] Cons by simp
  have "length (snd (Next L n rest)) \<le> length cs"
    using readString_length [of ch cs] readNumber_digit_length [of L ch cs]
      length_dropWhile_le [of "ident_rune L" cs] lex_symbol_length [of "n - Suc (length cs)" ch cs]
    unfolding Next_def Cons list.case Let_def readIdentOrKeyword_def
    by (intro if_length_snd) (simp_all add: split_beta)
  with assms have "length r \<le> length cs" by simp
  with len show ?thesis by simp
qed

text \<open>\<open>Tokenize\<close> stops at the end of the input or at the first illegal token.\<close>

function lex_all :: "cypher_lib \<Rightarrow> nat \<Rightarrow> nat list \<Rightarrow> token list" where
  "lex_all L n rest =
     (case Next L n rest of (t, r) \<Rightarrow>
        if tk_type t = TokenEOF \<or> tk_type t = TokenIllegal then [t] else t # lex_all L n r)"
  by pat_completeness auto
termination
  by (relation "measure (\<lambda>(L, n, rest). length rest)")
    (auto dest: Next_progress [OF sym])

declare lex_all.simps [simp del]

definition Tokenize :: "cypher_lib \<Rightarrow> string \<Rightarrow> token list" where
  "Tokenize L input = (let rs = runes input in lex_all L (length rs) rs)"

section \<open>What the tokens are\<close>

text \<open>The list ends at its first end-of-input or illegal token.\<close>

definition stop_token :: "token \<Rightarrow> bool" where
  "stop_token t \<longleftrightarrow> tk_type t = TokenEOF \<or> tk_type t = TokenIllegal"

lemma lex_all_ends:
  "lex_all L n rest \<noteq> [] \<and> stop_token (last (lex_all L n rest)) \<and>
    list_all (\<lambda>t. \<not> stop_token t) (butlast (lex_all L n rest))"
proof (induction L n rest rule: lex_all.induct)
  case (1 L n rest)
  obtain t r where tr: "Next L n rest = (t, r)" by fastforce
  show ?case
  proof (cases "stop_token t")
    case True
    then show ?thesis by (subst (1 2 3) lex_all.simps) (simp add: tr stop_token_def)
  next
    case False
    with 1 [OF tr [symmetric]] show ?thesis
      by (subst (1 2 3) lex_all.simps) (simp add: tr stop_token_def)
  qed
qed

text \<open>Identifiers consist of letters, digits and underscores; a colon is none of them.\<close>

lemma ident_rune_not_colon: "ident_rune L c \<Longrightarrow> c \<noteq> 58"
  by (auto simp: IsLetter_def IsDigit_def)

lemma encode_colon:
  assumes "colon \<in> set (encode_rune r)" shows "r = 58"
  using encode_rune_bytes [OF assms] by simp

lemma encode_runes_colon_free: "58 \<notin> set rs \<Longrightarrow> colon_free (encode_runes rs)"
  unfolding colons_def encode_runes_def count_list_0_iff
  by (auto dest: encode_colon)

definition token_ok :: "token \<Rightarrow> bool" where
  "token_ok t \<longleftrightarrow>
     (tk_type t = TokenIdent \<longrightarrow> colon_free (tk_literal t)) \<and>
     (tk_type t = TokenInt \<longrightarrow> 0 \<le> fst (parse_int64 (tk_literal t)))"

lemma readIdent_ok: "colon_free (tk_literal (fst (readIdentOrKeyword L p cs)))"
proof -
  have "58 \<notin> set (takeWhile (ident_rune L) cs)"
  proof
    assume "58 \<in> set (takeWhile (ident_rune L) cs)"
    then have "ident_rune L 58" by (rule set_takeWhileD [THEN conjunct2])
    from ident_rune_not_colon [OF this] show False by simp
  qed
  then show ?thesis
    by (simp add: readIdentOrKeyword_def Let_def encode_runes_colon_free)
qed

lemma LookupIdent_not_int: "LookupIdent s \<noteq> TokenInt"
proof -
  have "TokenInt \<notin> ran (map_of keyword_table)"
    using ran_map_of [of keyword_table] by (auto simp: keyword_table_def dest: map_of_SomeD)
  then show ?thesis by (auto simp: LookupIdent_def ran_def split: option.splits)
qed

lemma readIdent_token_ok: "token_ok (fst (readIdentOrKeyword L p cs))"
  using readIdent_ok [of L p cs] LookupIdent_not_int
  by (simp add: token_ok_def readIdentOrKeyword_def Let_def)

text \<open>A number starts with a digit, so its value carries no sign.\<close>

lemma parse_int64_unsigned:
  "s \<noteq> [] \<Longrightarrow> hd s \<noteq> CHR ''-'' \<Longrightarrow> 0 \<le> fst (parse_int64 s)"
  by (cases s) (auto simp: parse_int64_def int64_max_def int64_min_def Let_def)

lemma readNumber_nonneg:
  assumes "IsDigit L c"
  shows "0 \<le> fst (parse_int64 (encode_runes (fst (readNumber L False (c # cs)))))"
proof -
  have "fst (readNumber L False (c # cs)) = c # fst (readNumber L (c = 46) cs)"
    using assms by (simp add: split_beta)
  moreover have "hd (encode_rune c) \<noteq> CHR ''-''"
  proof
    assume "hd (encode_rune c) = CHR ''-''"
    then have "CHR ''-'' \<in> set (encode_rune c)" by (metis hd_in_set encode_rune_not_Nil)
    from encode_rune_bytes [OF this] have "c = 45" by simp
    with assms show False by (simp add: IsDigit_def)
  qed
  ultimately show ?thesis by (auto intro!: parse_int64_unsigned)
qed

lemma if_token_ok:
  "(c \<Longrightarrow> token_ok (fst a)) \<Longrightarrow> (\<not> c \<Longrightarrow> token_ok (fst b)) \<Longrightarrow> token_ok (fst (if c then a else b))"
  by simp

lemma token_ok_tok: "t \<noteq> TokenIdent \<Longrightarrow> t \<noteq> TokenInt \<Longrightarrow> token_ok (tok t l p)"
  by (simp add: token_ok_def)

lemma lex_symbol_ok: "token_ok (fst (lex_symbol p ch cs))"
  unfolding lex_symbol_def Let_def by (intro if_token_ok) (simp_all add: token_ok_tok)

lemma Next_token_ok: "token_ok (fst (Next L n rest))"
proof (cases "dropWhile IsSpace rest")
  case Nil
  show ?thesis unfolding Next_def Nil by (simp add: token_ok_tok)
next
  case (Cons ch cs)
  have num: "token_ok (tok (if f then TokenFloat else TokenInt) s p)"
    if "0 \<le> fst (parse_int64 s)" for f s p
    using that by (simp add: token_ok_def)
  show ?thesis
    unfolding Next_def Cons list.case Let_def
    by (intro if_token_ok)
      (simp_all add: split_beta lex_symbol_ok readIdent_token_ok token_ok_tok num readNumber_nonneg
        del: readNumber.simps)
qed

lemma lex_all_ok: "t \<in> set (lex_all L n rest) \<Longrightarrow> token_ok t"
proof (induction L n rest rule: lex_all.induct)
  case (1 L n rest)
  obtain u r where tr: "Next L n rest = (u, r)" by fastforce
  then have u: "token_ok u" using Next_token_ok [of L n rest] by simp
  have "t = u \<or> \<not> stop_token u \<and> t \<in> set (lex_all L n r)"
    using "1.prems" by (subst (asm) lex_all.simps) (auto simp: tr stop_token_def split: if_splits)
  with "1.IH" [OF tr [symmetric]] u show ?case by (auto simp: stop_token_def)
qed

lemma Tokenize_ok: "list_all token_ok (Tokenize L input)"
  by (auto simp: Tokenize_def Let_def list_all_iff intro: lex_all_ok)

section \<open>String literals\<close>

text \<open>A single-quoted literal with its quotes and backslashes escaped.\<close>

definition escape_rune :: "nat \<Rightarrow> nat list" where
  "escape_rune c = (if c = 39 \<or> c = 92 then [92, c] else [c])"

definition quoted :: "nat list \<Rightarrow> nat list" where
  "quoted rs = 39 # concat (map escape_rune rs) @ [39]"

lemma readString_escape:
  "readString 39 (escape_rune c @ d # ds) =
     (case readString 39 (d # ds) of (ok, s, r) \<Rightarrow> (ok, encode_rune c @ s, r))"
  by (simp add: escape_rune_def unescape_def)

lemma readString_quoted:
  "readString 39 (concat (map escape_rune rs) @ 39 # rest) = (True, encode_runes rs, rest)"
proof (induction rs)
  case (Cons c rs)
  obtain d ds where d: "concat (map escape_rune rs) @ 39 # rest = d # ds"
    by (cases "concat (map escape_rune rs)") auto
  show ?case using Cons readString_escape [of c d ds] by (simp add: d)
qed simp

lemma Next_quoted:
  "Next L (length (quoted rs @ rest)) (quoted rs @ rest) =
     (tok TokenString (encode_runes rs) 0, rest)"
proof -
  have "\<not> IsSpace 39" by (simp add: IsSpace_def)
  then show ?thesis by (simp add: Next_def quoted_def readString_quoted Let_def)
qed

end
