(* ===== verification/Cypher_Parser.thy ===== *)
theory Cypher_Parser
  imports Cypher_Ast Cypher_Lexer
begin

text \<open>
  internal/query/parser.go: the recursive-descent parser. Its state (the tokens and a
  position) is the list of tokens not yet read; past the end \<open>peek\<close> answers an end-of-input
  token. The recursion of the grammar runs on fuel, and \<open>ParseStatement\<close> supplies an amount
  that is shown to suffice for every token list.
\<close>

section \<open>Parsers\<close>

datatype 'a parsed = NoFuel | PErr gerr | POk 'a "token list"

type_synonym 'a parser = "token list \<Rightarrow> 'a parsed"

definition ppeek :: "token list \<Rightarrow> token" where
  "ppeek ts = (case ts of [] \<Rightarrow> tok TokenEOF [] 0 | t # _ \<Rightarrow> t)"

definition p_ret :: "'a \<Rightarrow> 'a parser" where
  "p_ret x = (\<lambda>ts. POk x ts)"

definition p_out :: "'a parser" where
  "p_out = (\<lambda>ts. NoFuel)"

definition p_bind :: "'a parser \<Rightarrow> ('a \<Rightarrow> 'b parser) \<Rightarrow> 'b parser" where
  "p_bind m f = (\<lambda>ts. case m ts of POk x r \<Rightarrow> f x r | PErr e \<Rightarrow> PErr e | NoFuel \<Rightarrow> NoFuel)"

definition p_wrap :: "string \<Rightarrow> 'a parser \<Rightarrow> 'a parser" where
  "p_wrap p m = (\<lambda>ts. case m ts of PErr e \<Rightarrow> PErr (Wrap p e) | r \<Rightarrow> r)"

text \<open>\<open>advance\<close>; \<open>if peek().Type == tt { advance(); f } else g\<close>; a dispatch on \<open>peek().Type\<close>.\<close>

definition p_advance :: "token parser" where
  "p_advance = (\<lambda>ts. POk (ppeek ts) (tl ts))"

definition p_on :: "token_type \<Rightarrow> (token \<Rightarrow> 'a parser) \<Rightarrow> 'a parser \<Rightarrow> 'a parser" where
  "p_on tt f g = (\<lambda>ts. if tk_type (ppeek ts) = tt then f (ppeek ts) (tl ts) else g ts)"

definition p_look :: "(token \<Rightarrow> 'a parser) \<Rightarrow> 'a parser" where
  "p_look f = (\<lambda>ts. f (ppeek ts) ts)"

text \<open>A token type prints as its number.\<close>

definition token_types :: "token_type list" where
  "token_types =
    [TokenIdent, TokenString, TokenInt, TokenFloat, TokenParam, TokenMATCH, TokenWHERE,
     TokenRETURN, TokenCREATE, TokenMERGE, TokenSET, TokenDELETE, TokenORDER, TokenBY,
     TokenLIMIT, TokenSKIP, TokenAS, TokenAND, TokenOR, TokenNOT, TokenCONTAINS, TokenIN,
     TokenCALL, TokenYIELD, TokenASC, TokenDESC, TokenCOUNT, TokenWITH, TokenUNWIND,
     TokenTRUE, TokenFALSE, TokenNULL, TokenLParen, TokenRParen, TokenLBracket,
     TokenRBracket, TokenLBrace, TokenRBrace, TokenColon, TokenComma, TokenDot, TokenStar,
     TokenEQ, TokenNEQ, TokenLT, TokenGT, TokenLTE, TokenGTE, TokenDash, TokenArrow,
     TokenLArrow, TokenPipe, TokenEOF, TokenIllegal]"

definition token_code :: "token_type \<Rightarrow> nat" where
  "token_code t = length (takeWhile (\<lambda>u. u \<noteq> t) token_types)"

definition p_expect :: "cypher_lib \<Rightarrow> token_type \<Rightarrow> token parser" where
  "p_expect L tt = (\<lambda>ts. let t = ppeek ts in
     if tk_type t = tt then POk t (tl ts)
     else PErr (Msg (''expected '' @ show_nat (token_code tt) @ '', got '' @
       cy_quote L (tk_literal t) @ '' at pos '' @ show_nat (tk_pos t))))"

definition p_unexpected :: "cypher_lib \<Rightarrow> 'a parser" where
  "p_unexpected L = (\<lambda>ts. PErr (Msg (''unexpected token '' @ cy_quote L (tk_literal (ppeek ts)) @
     '' at pos '' @ show_nat (tk_pos (ppeek ts)))))"

text \<open>\<open>for match(TokenComma) { item }\<close>, and a list that starts with an item.\<close>

fun comma_more :: "nat \<Rightarrow> 'a parser \<Rightarrow> 'a list parser" where
  "comma_more 0 item = p_out"
| "comma_more (Suc n) item =
     p_on TokenComma (\<lambda>_. p_bind item (\<lambda>x. p_bind (comma_more n item) (\<lambda>xs. p_ret (x # xs))))
       (p_ret [])"

definition comma_list :: "nat \<Rightarrow> 'a parser \<Rightarrow> 'a list parser" where
  "comma_list n item = p_bind item (\<lambda>x. p_bind (comma_more n item) (\<lambda>xs. p_ret (x # xs)))"

text \<open>\<open>for peek().Type == tt { advance(); right := item; left = BinaryExpr{left, op, right} }\<close>\<close>

fun left_loop :: "nat \<Rightarrow> token_type \<Rightarrow> string \<Rightarrow> expr parser \<Rightarrow> expr \<Rightarrow> expr parser" where
  "left_loop 0 tt op item left = p_out"
| "left_loop (Suc n) tt op item left =
     p_on tt (\<lambda>_. p_bind item (\<lambda>right. left_loop n tt op item (BinaryExpr left op right)))
       (p_ret left)"

section \<open>Expressions\<close>

text \<open>\<open>strconv.ParseInt\<close> with the error discarded.\<close>

definition int_value :: "token \<Rightarrow> 64 word" where
  "int_value t = word_of_int (fst (parse_int64 (tk_literal t)))"

definition float_neg :: "64 word \<Rightarrow> 64 word" where
  "float_neg w = xor w (2 ^ 63)"

text \<open>
  Precedence, loosest first: OR, AND, NOT, comparison, atom. \<open>parseListLiteral\<close> starts
  behind its bracket.
\<close>

definition parseArgs :: "nat \<Rightarrow> expr parser \<Rightarrow> expr list parser" where
  "parseArgs n parseExpr = p_look (\<lambda>t.
     if tk_type t = TokenRParen then p_ret []
     else p_bind (p_on TokenStar (\<lambda>_. p_ret StarExpr) parseExpr)
       (\<lambda>a. p_bind (comma_more n parseExpr) (\<lambda>as. p_ret (a # as))))"

definition parseNamed :: "cypher_lib \<Rightarrow> nat \<Rightarrow> expr parser \<Rightarrow> token \<Rightarrow> expr parser" where
  "parseNamed L n parseExpr name =
     p_on TokenLParen
       (\<lambda>_. p_bind (parseArgs n parseExpr) (\<lambda>args. p_bind (p_expect L TokenRParen)
         (\<lambda>_. p_ret (FuncCallExpr (tk_literal name) args))))
     (p_on TokenDot
       (\<lambda>_. p_bind (p_expect L TokenIdent)
         (\<lambda>prop. p_ret (PropertyExpr (tk_literal name) (tk_literal prop))))
     (p_ret (IdentExpr (tk_literal name))))"

definition parseListLiteral :: "cypher_lib \<Rightarrow> nat \<Rightarrow> expr parser \<Rightarrow> expr parser" where
  "parseListLiteral L n parseExpr =
     p_bind (p_look (\<lambda>t. if tk_type t = TokenRBracket then p_ret [] else comma_list n parseExpr))
       (\<lambda>es. p_bind (p_expect L TokenRBracket) (\<lambda>_. p_ret (ListExpr es)))"

definition parseNegative :: "cypher_lib \<Rightarrow> token \<Rightarrow> expr parser" where
  "parseNegative L dash =
     p_on TokenInt (\<lambda>t. p_ret (LiteralExpr (VInt (- int_value t))))
     (p_on TokenFloat
       (\<lambda>t. p_ret (LiteralExpr (VFloat (float_neg (cy_parse_float L (tk_literal t))))))
     (\<lambda>_. PErr (Msg (''unexpected token after - at pos '' @ show_nat (tk_pos dash)))))"

definition parseOperator :: "expr parser \<Rightarrow> expr \<Rightarrow> expr parser" where
  "parseOperator parseAtom left =
     (let operator = (\<lambda>op. p_bind parseAtom (\<lambda>right. p_ret (BinaryExpr left op right))) in
      p_on TokenEQ (\<lambda>t. operator (tk_literal t))
      (p_on TokenNEQ (\<lambda>t. operator (tk_literal t))
      (p_on TokenLT (\<lambda>t. operator (tk_literal t))
      (p_on TokenGT (\<lambda>t. operator (tk_literal t))
      (p_on TokenLTE (\<lambda>t. operator (tk_literal t))
      (p_on TokenGTE (\<lambda>t. operator (tk_literal t))
      (p_on TokenCONTAINS (\<lambda>_. operator ''CONTAINS'')
      (p_on TokenIN (\<lambda>_. operator ''IN'')
      (p_ret left)))))))))"

fun parseOr :: "cypher_lib \<Rightarrow> nat \<Rightarrow> expr parser"
and parseAnd :: "cypher_lib \<Rightarrow> nat \<Rightarrow> expr parser"
and parseNot :: "cypher_lib \<Rightarrow> nat \<Rightarrow> expr parser"
and parseComparison :: "cypher_lib \<Rightarrow> nat \<Rightarrow> expr parser"
and parseAtom :: "cypher_lib \<Rightarrow> nat \<Rightarrow> expr parser" where
  "parseOr L 0 = p_out"
| "parseOr L (Suc n) =
     p_bind (parseAnd L n) (left_loop n TokenOR ''OR'' (parseAnd L n))"
| "parseAnd L 0 = p_out"
| "parseAnd L (Suc n) =
     p_bind (parseNot L n) (left_loop n TokenAND ''AND'' (parseNot L n))"
| "parseNot L 0 = p_out"
| "parseNot L (Suc n) =
     p_on TokenNOT
       (\<lambda>_. p_bind (parseComparison L n) (\<lambda>e. p_ret (UnaryExpr ''NOT'' e)))
       (parseComparison L n)"
| "parseComparison L 0 = p_out"
| "parseComparison L (Suc n) = p_bind (parseAtom L n) (parseOperator (parseAtom L n))"
| "parseAtom L 0 = p_out"
| "parseAtom L (Suc n) =
     p_on TokenStar (\<lambda>_. p_ret StarExpr)
     (p_on TokenInt (\<lambda>t. p_ret (LiteralExpr (VInt (int_value t))))
     (p_on TokenFloat (\<lambda>t. p_ret (LiteralExpr (VFloat (cy_parse_float L (tk_literal t)))))
     (p_on TokenString (\<lambda>t. p_ret (LiteralExpr (VStr (tk_literal t))))
     (p_on TokenTRUE (\<lambda>_. p_ret (LiteralExpr (VBool True)))
     (p_on TokenFALSE (\<lambda>_. p_ret (LiteralExpr (VBool False)))
     (p_on TokenNULL (\<lambda>_. p_ret (LiteralExpr VNil))
     (p_on TokenParam (\<lambda>t. p_ret (ParamExpr (tl (tk_literal t))))
     (p_on TokenLBracket (\<lambda>_. parseListLiteral L n (parseOr L n))
     (p_on TokenLParen
        (\<lambda>_. p_bind (parseOr L n) (\<lambda>e. p_bind (p_expect L TokenRParen) (\<lambda>_. p_ret e)))
     (p_on TokenIdent (parseNamed L n (parseOr L n))
     (p_on TokenCOUNT (parseNamed L n (parseOr L n))
     (p_on TokenDash (parseNegative L)
     (p_unexpected L)))))))))))))"

abbreviation parseExpr :: "cypher_lib \<Rightarrow> nat \<Rightarrow> expr parser" where
  "parseExpr \<equiv> parseOr"

section \<open>Patterns\<close>

text \<open>The entries of a map literal, behind its brace: a repeated key overwrites.\<close>

fun map_entries :: "cypher_lib \<Rightarrow> nat \<Rightarrow> expr parser \<Rightarrow> (string \<times> expr) list \<Rightarrow>
    (string \<times> expr) list parser" where
  "map_entries L 0 pe acc = p_out"
| "map_entries L (Suc n) pe acc =
     p_bind (p_wrap ''expected property key'' (p_expect L TokenIdent)) (\<lambda>key.
     p_bind (p_expect L TokenColon) (\<lambda>_.
     p_bind pe (\<lambda>val.
     let acc' = AList.update (tk_literal key) val acc in
     p_on TokenComma (\<lambda>_. map_entries L n pe acc') (p_ret acc'))))"

definition parseMapLiteral :: "cypher_lib \<Rightarrow> nat \<Rightarrow> (string \<times> expr) list parser" where
  "parseMapLiteral L n =
     p_on TokenRBrace (\<lambda>_. p_ret [])
     (p_bind (map_entries L n (parseExpr L n) [])
       (\<lambda>props. p_bind (p_expect L TokenRBrace) (\<lambda>_. p_ret props)))"

text \<open>An optional variable and an optional label, as in \<open>(v:Label)\<close> and \<open>[r:LABEL]\<close>.\<close>

definition opt_ident :: "string parser" where
  "opt_ident = p_on TokenIdent (\<lambda>t. p_ret (tk_literal t)) (p_ret [])"

definition opt_label :: "cypher_lib \<Rightarrow> string \<Rightarrow> string parser" where
  "opt_label L what = p_on TokenColon
     (\<lambda>_. p_bind (p_wrap what (p_expect L TokenIdent)) (\<lambda>t. p_ret (tk_literal t))) (p_ret [])"

definition parseNodePattern :: "cypher_lib \<Rightarrow> nat \<Rightarrow> node_pattern parser" where
  "parseNodePattern L n =
     p_bind (p_expect L TokenLParen) (\<lambda>_.
     p_bind opt_ident (\<lambda>v.
     p_bind (opt_label L ''expected label'') (\<lambda>l.
     p_bind (p_on TokenLBrace (\<lambda>_. p_bind (parseMapLiteral L n) (\<lambda>ps. p_ret (Some ps)))
       (p_ret None)) (\<lambda>props.
     p_bind (p_expect L TokenRParen) (\<lambda>_.
     p_ret \<lparr>np_variable = v, np_label = l, np_props = props\<rparr>)))))"

definition parseRelDetail :: "cypher_lib \<Rightarrow> edge_direction \<Rightarrow> edge_pattern parser" where
  "parseRelDetail L dir =
     p_on TokenLBracket
       (\<lambda>_. p_bind opt_ident (\<lambda>v.
        p_bind (opt_label L ''expected relationship label'') (\<lambda>l.
        p_bind (p_expect L TokenRBracket) (\<lambda>_.
        p_ret \<lparr>ep_variable = v, ep_label = l, ep_direction = dir\<rparr>))))
       (p_ret \<lparr>ep_variable = [], ep_label = [], ep_direction = dir\<rparr>)"

definition parseRelAndNode :: "cypher_lib \<Rightarrow> nat \<Rightarrow> (edge_pattern \<times> node_pattern) parser" where
  "parseRelAndNode L n =
     p_bind
       (p_on TokenLArrow
         (\<lambda>_. p_bind (parseRelDetail L EdgeLeft) (\<lambda>ep.
          p_bind (p_expect L TokenDash) (\<lambda>_. p_ret ep)))
       (p_bind p_advance (\<lambda>_. p_bind (parseRelDetail L EdgeRight) (\<lambda>ep.
          p_bind (p_expect L TokenArrow) (\<lambda>_. p_ret ep)))))
     (\<lambda>ep. p_bind (parseNodePattern L n) (\<lambda>np. p_ret (ep, np)))"

fun rel_chain :: "cypher_lib \<Rightarrow> nat \<Rightarrow> nat \<Rightarrow> (edge_pattern \<times> node_pattern) list parser" where
  "rel_chain L n 0 = p_out"
| "rel_chain L n (Suc k) = p_look (\<lambda>t.
     if tk_type t = TokenDash \<or> tk_type t = TokenLArrow
     then p_bind (parseRelAndNode L n) (\<lambda>r. p_bind (rel_chain L n k) (\<lambda>rs. p_ret (r # rs)))
     else p_ret [])"

definition parsePattern :: "cypher_lib \<Rightarrow> nat \<Rightarrow> pattern parser" where
  "parsePattern L n =
     p_bind (parseNodePattern L n) (\<lambda>np. p_bind (rel_chain L n n) (\<lambda>rs.
       p_ret \<lparr>pt_nodes = np # map snd rs, pt_edges = map fst rs\<rparr>))"

section \<open>Clauses and statements\<close>

definition parseMatch :: "cypher_lib \<Rightarrow> nat \<Rightarrow> clause parser" where
  "parseMatch L n = p_bind p_advance (\<lambda>_.
     p_bind (comma_list n (parsePattern L n)) (\<lambda>ps. p_ret (MatchClause ps)))"

definition parseWhere :: "cypher_lib \<Rightarrow> nat \<Rightarrow> clause parser" where
  "parseWhere L n = p_bind p_advance (\<lambda>_.
     p_bind (parseExpr L n) (\<lambda>e. p_ret (WhereClause e)))"

definition parseReturnItem :: "cypher_lib \<Rightarrow> nat \<Rightarrow> return_item parser" where
  "parseReturnItem L n =
     p_bind (parseExpr L n) (\<lambda>e.
     p_bind (p_on TokenAS (\<lambda>_. p_bind (p_expect L TokenIdent) (\<lambda>t. p_ret (tk_literal t)))
       (p_ret [])) (\<lambda>a.
     p_ret \<lparr>ri_expr = e, ri_alias = a\<rparr>))"

definition parseOrderItem :: "cypher_lib \<Rightarrow> nat \<Rightarrow> order_item parser" where
  "parseOrderItem L n =
     p_bind (parseExpr L n) (\<lambda>e.
     p_on TokenDESC (\<lambda>_. p_ret \<lparr>oi_expr = e, oi_desc = True\<rparr>)
     (p_on TokenASC (\<lambda>_. p_ret \<lparr>oi_expr = e, oi_desc = False\<rparr>)
     (p_ret \<lparr>oi_expr = e, oi_desc = False\<rparr>)))"

text \<open>\<open>LIMIT n\<close> and \<open>SKIP n\<close>; \<open>strconv.Atoi\<close> with the error discarded.\<close>

definition opt_count :: "cypher_lib \<Rightarrow> token_type \<Rightarrow> int option parser" where
  "opt_count L tt = p_on tt
     (\<lambda>_. p_bind (p_expect L TokenInt)
       (\<lambda>t. p_ret (Some (fst (parse_int64 (tk_literal t))))))
     (p_ret None)"

definition parseReturn :: "cypher_lib \<Rightarrow> nat \<Rightarrow> clause parser" where
  "parseReturn L n = p_bind p_advance (\<lambda>_.
     p_bind (comma_list n (parseReturnItem L n)) (\<lambda>items.
     p_bind (p_on TokenORDER
         (\<lambda>_. p_bind (p_expect L TokenBY) (\<lambda>_. comma_list n (parseOrderItem L n)))
         (p_ret [])) (\<lambda>order.
     p_bind (opt_count L TokenLIMIT) (\<lambda>limit.
     p_bind (opt_count L TokenSKIP) (\<lambda>skip.
     p_ret (ReturnClause \<lparr>rc_items = items, rc_order_by = order, rc_limit = limit,
                          rc_skip = skip\<rparr>))))))"

definition parseCreate :: "cypher_lib \<Rightarrow> nat \<Rightarrow> clause parser" where
  "parseCreate L n = p_bind p_advance (\<lambda>_.
     p_bind (comma_list n (parsePattern L n)) (\<lambda>ps. p_ret (CreateClause ps)))"

definition parseMerge :: "cypher_lib \<Rightarrow> nat \<Rightarrow> clause parser" where
  "parseMerge L n = p_bind p_advance (\<lambda>_.
     p_bind (parsePattern L n) (\<lambda>p. p_ret (MergeClause p)))"

definition parseSetItem :: "cypher_lib \<Rightarrow> nat \<Rightarrow> set_item parser" where
  "parseSetItem L n =
     p_bind (p_expect L TokenIdent) (\<lambda>v.
     p_bind (p_expect L TokenDot) (\<lambda>_.
     p_bind (p_expect L TokenIdent) (\<lambda>p.
     p_bind (p_expect L TokenEQ) (\<lambda>_.
     p_bind (parseExpr L n) (\<lambda>e.
     p_ret \<lparr>si_variable = tk_literal v, si_property = tk_literal p, si_value = e\<rparr>)))))"

definition parseSet :: "cypher_lib \<Rightarrow> nat \<Rightarrow> clause parser" where
  "parseSet L n = p_bind p_advance (\<lambda>_.
     p_bind (comma_list n (parseSetItem L n)) (\<lambda>is. p_ret (SetClause is)))"

definition ident_literal :: "cypher_lib \<Rightarrow> string parser" where
  "ident_literal L = p_bind (p_expect L TokenIdent) (\<lambda>t. p_ret (tk_literal t))"

definition parseDelete :: "cypher_lib \<Rightarrow> nat \<Rightarrow> clause parser" where
  "parseDelete L n = p_bind p_advance (\<lambda>_.
     p_bind (comma_list n (ident_literal L)) (\<lambda>vs. p_ret (DeleteClause vs)))"

text \<open>The rest of a dotted procedure name.\<close>

fun dotted_name :: "cypher_lib \<Rightarrow> nat \<Rightarrow> string \<Rightarrow> string parser" where
  "dotted_name L 0 name = p_out"
| "dotted_name L (Suc n) name =
     p_on TokenDot (\<lambda>_. p_bind (p_expect L TokenIdent)
       (\<lambda>t. dotted_name L n (name @ ''.'' @ tk_literal t))) (p_ret name)"

definition parseCall :: "cypher_lib \<Rightarrow> nat \<Rightarrow> clause parser" where
  "parseCall L n = p_bind p_advance (\<lambda>_.
     p_bind (p_expect L TokenIdent) (\<lambda>t.
     p_bind (dotted_name L n (tk_literal t)) (\<lambda>name.
     p_bind (p_expect L TokenLParen) (\<lambda>_.
     p_bind (p_look (\<lambda>t. if tk_type t \<noteq> TokenRParen then comma_list n (parseExpr L n)
                         else p_ret [])) (\<lambda>args.
     p_bind (p_expect L TokenRParen) (\<lambda>_.
     p_bind (p_on TokenYIELD (\<lambda>_. comma_list n (ident_literal L)) (p_ret [])) (\<lambda>vars.
     p_ret (CallClause name args vars))))))))"

definition parseClause :: "cypher_lib \<Rightarrow> nat \<Rightarrow> clause parser" where
  "parseClause L n = p_look (\<lambda>t. case tk_type t of
       TokenMATCH \<Rightarrow> parseMatch L n
     | TokenWHERE \<Rightarrow> parseWhere L n
     | TokenRETURN \<Rightarrow> parseReturn L n
     | TokenCREATE \<Rightarrow> parseCreate L n
     | TokenMERGE \<Rightarrow> parseMerge L n
     | TokenSET \<Rightarrow> parseSet L n
     | TokenDELETE \<Rightarrow> parseDelete L n
     | TokenCALL \<Rightarrow> parseCall L n
     | _ \<Rightarrow> p_unexpected L)"

fun clauses :: "cypher_lib \<Rightarrow> nat \<Rightarrow> nat \<Rightarrow> clause list parser" where
  "clauses L n 0 = p_out"
| "clauses L n (Suc k) = p_look (\<lambda>t.
     if tk_type t = TokenEOF then p_ret []
     else p_bind (parseClause L n) (\<lambda>c. p_bind (clauses L n k) (\<lambda>cs. p_ret (c # cs))))"

definition statement_parser :: "cypher_lib \<Rightarrow> nat \<Rightarrow> statement parser" where
  "statement_parser L n = p_bind (clauses L n n) (\<lambda>cs.
     if cs = [] then (\<lambda>_. PErr (Msg ''empty statement'')) else p_ret cs)"

text \<open>Five units for each level of nesting, which costs at least one token.\<close>

definition parse_fuel :: "token list \<Rightarrow> nat" where
  "parse_fuel ts = 5 * length ts + 5"

text \<open>\<open>Panic\<close> would stand for a parser that does not return.\<close>

definition ParseStatement :: "cypher_lib \<Rightarrow> token list \<Rightarrow> statement outcome" where
  "ParseStatement L ts = (case statement_parser L (parse_fuel ts) ts of
     POk stmt _ \<Rightarrow> Ok stmt | PErr e \<Rightarrow> Err e | NoFuel \<Rightarrow> Panic)"

definition Parse :: "cypher_lib \<Rightarrow> string \<Rightarrow> statement outcome" where
  "Parse L input = ParseStatement L (Tokenize L input)"

end
