(* ===== verification/Cypher_Parser_Laws.thy ===== *)
theory Cypher_Parser_Laws
  imports Cypher_Parser
begin

text \<open>
  What every parser of the grammar satisfies, derived rule by rule from its parts: it never
  gives tokens back, it returns with the fuel \<open>ParseStatement\<close> supplies, and the labels of
  the patterns it builds are identifiers of the input.
\<close>

section \<open>Consumption\<close>

definition p_shrinks :: "'a parser \<Rightarrow> bool" where
  "p_shrinks m \<longleftrightarrow> (\<forall>ts x r. m ts = POk x r \<longrightarrow> suffix r ts)"

definition p_eats :: "'a parser \<Rightarrow> bool" where
  "p_eats m \<longleftrightarrow> (\<forall>ts x r. m ts = POk x r \<longrightarrow> strict_suffix r ts)"

named_theorems shrinks \<open>parsers that give no token back\<close>
named_theorems eats \<open>parsers that use up a token\<close>

lemma p_shrinks_suffix: "p_shrinks m \<Longrightarrow> m ts = POk x r \<Longrightarrow> suffix r ts"
  by (simp add: p_shrinks_def)

lemma p_eats_suffix: "p_eats m \<Longrightarrow> m ts = POk x r \<Longrightarrow> strict_suffix r ts"
  by (simp add: p_eats_def)

lemma p_shrinksD: "p_shrinks m \<Longrightarrow> m ts = POk x r \<Longrightarrow> length r \<le> length ts"
  by (blast dest: p_shrinks_suffix intro: suffix_length_le)

lemma p_eatsD: "p_eats m \<Longrightarrow> m ts = POk x r \<Longrightarrow> length r < length ts"
  by (blast dest: p_eats_suffix intro: suffix_length_less)

lemma eats_shrinks: "p_eats m \<Longrightarrow> p_shrinks m"
  by (auto simp: p_eats_def p_shrinks_def strict_suffix_def)

lemma p_bind_POk:
  "p_bind m f ts = POk y s \<longleftrightarrow> (\<exists>x r. m ts = POk x r \<and> f x r = POk y s)"
  by (auto simp: p_bind_def split: parsed.splits)

lemma ppeek_type: "tk_type (ppeek ts) \<noteq> TokenEOF \<Longrightarrow> \<exists>t r. ts = t # r \<and> ppeek ts = t"
  by (cases ts) (auto simp: ppeek_def)

lemma shrinks_ret [shrinks]: "p_shrinks (p_ret x)"
  by (simp add: p_shrinks_def p_ret_def)

lemma shrinks_out [shrinks]: "p_shrinks p_out"
  and eats_out [eats]: "p_eats p_out"
  by (simp_all add: p_shrinks_def p_eats_def p_out_def)

lemma shrinks_fail [shrinks]: "p_shrinks (\<lambda>ts. PErr (e ts))"
  and eats_fail [eats]: "p_eats (\<lambda>ts. PErr (e ts))"
  by (simp_all add: p_shrinks_def p_eats_def)

lemma shrinks_unexpected [shrinks]: "p_shrinks (p_unexpected L)"
  and eats_unexpected [eats]: "p_eats (p_unexpected L)"
  by (simp_all add: p_shrinks_def p_eats_def p_unexpected_def)

lemma shrinks_advance [shrinks]: "p_shrinks p_advance"
  by (simp add: p_shrinks_def p_advance_def)

lemma shrinks_bind [shrinks]:
  assumes "p_shrinks m" and "\<And>x. p_shrinks (f x)"
  shows "p_shrinks (p_bind m f)"
  unfolding p_shrinks_def p_bind_POk
  using p_shrinks_suffix [OF assms(1)] p_shrinks_suffix [OF assms(2)] suffix_order.order_trans
  by blast

lemma eats_bind:
  assumes "p_eats m" and "\<And>x. p_shrinks (f x)"
  shows "p_eats (p_bind m f)"
  unfolding p_eats_def p_bind_POk
  using p_eats_suffix [OF assms(1)] p_shrinks_suffix [OF assms(2)] suffix_order.le_less_trans
  by blast

lemma eats_bind2:
  assumes "p_shrinks m" and "\<And>x. p_eats (f x)"
  shows "p_eats (p_bind m f)"
  unfolding p_eats_def p_bind_POk
  using p_shrinks_suffix [OF assms(1)] p_eats_suffix [OF assms(2)] suffix_order.less_le_trans
  by blast

lemma shrinks_wrap [shrinks]: "p_shrinks m \<Longrightarrow> p_shrinks (p_wrap p m)"
  and eats_wrap [eats]: "p_eats m \<Longrightarrow> p_eats (p_wrap p m)"
  unfolding p_shrinks_def p_eats_def p_wrap_def by (auto split: parsed.splits)

lemma shrinks_on [shrinks]:
  assumes "\<And>t. p_shrinks (f t)" and "p_shrinks g"
  shows "p_shrinks (p_on tt f g)"
  unfolding p_shrinks_def p_on_def
proof (intro allI impI)
  fix ts x r
  assume "(if tk_type (ppeek ts) = tt then f (ppeek ts) (tl ts) else g ts) = POk x r"
  then consider "f (ppeek ts) (tl ts) = POk x r" | "g ts = POk x r" by (auto split: if_splits)
  then show "suffix r ts"
  proof cases
    case 1
    with assms(1) have "suffix r (tl ts)" by (rule p_shrinks_suffix)
    then show ?thesis using suffix_tl suffix_order.order_trans by blast
  qed (rule p_shrinks_suffix [OF assms(2)])
qed

lemma eats_on [eats]:
  assumes "tt \<noteq> TokenEOF" and "\<And>t. p_shrinks (f t)" and "p_eats g"
  shows "p_eats (p_on tt f g)"
  unfolding p_eats_def p_on_def
proof (intro allI impI)
  fix ts x r
  assume run: "(if tk_type (ppeek ts) = tt then f (ppeek ts) (tl ts) else g ts) = POk x r"
  show "strict_suffix r ts"
  proof (cases "tk_type (ppeek ts) = tt")
    case True
    with assms(1) obtain t us where ts: "ts = t # us" using ppeek_type [of ts] by auto
    with True run have "suffix r us" by (auto intro: p_shrinks_suffix [OF assms(2)])
    then show ?thesis by (simp add: ts strict_suffix_def suffix_Cons) (use suffix_length_le in fastforce)
  next
    case False
    with run show ?thesis by (auto intro: p_eats_suffix [OF assms(3)])
  qed
qed

lemma shrinks_look [shrinks]: "(\<And>t. p_shrinks (f t)) \<Longrightarrow> p_shrinks (p_look f)"
  by (simp add: p_shrinks_def p_look_def)

lemma shrinks_if [shrinks]: "p_shrinks m \<Longrightarrow> p_shrinks k \<Longrightarrow> p_shrinks (if b then m else k)"
  by simp

lemma eats_expect [eats]: "tt \<noteq> TokenEOF \<Longrightarrow> p_eats (p_expect L tt)"
  by (auto simp: p_eats_def p_expect_def Let_def ppeek_def strict_suffix_def suffix_Cons
      split: if_splits list.splits)

lemma shrinks_expect [shrinks]: "p_shrinks (p_expect L tt)"
  by (auto simp: p_shrinks_def p_expect_def Let_def split: if_splits)

lemma shrinks_comma_more [shrinks]: "p_shrinks item \<Longrightarrow> p_shrinks (comma_more n item)"
  by (induction n) (auto intro!: shrinks)

lemma shrinks_comma_list [shrinks]: "p_shrinks item \<Longrightarrow> p_shrinks (comma_list n item)"
  unfolding comma_list_def by (intro shrinks)

lemma eats_comma_list [eats]: "p_eats item \<Longrightarrow> p_eats (comma_list n item)"
  unfolding comma_list_def by (intro eats_bind shrinks) (auto dest: eats_shrinks intro: shrinks)

lemma shrinks_left_loop [shrinks]: "p_shrinks item \<Longrightarrow> p_shrinks (left_loop n tt op item l)"
  by (induction n arbitrary: l) (auto intro!: shrinks)

section \<open>Enough fuel\<close>

text \<open>\<open>p_fin k m\<close>: on at most \<open>k\<close> tokens the parser does not run out of fuel.\<close>

definition p_fin :: "nat \<Rightarrow> 'a parser \<Rightarrow> bool" where
  "p_fin k m \<longleftrightarrow> (\<forall>ts. length ts \<le> k \<longrightarrow> m ts \<noteq> NoFuel)"

named_theorems fins \<open>parsers that return\<close>

lemma p_fin_mono: "p_fin k m \<Longrightarrow> j \<le> k \<Longrightarrow> p_fin j m"
  by (auto simp: p_fin_def)

lemma fin_ret [fins]: "p_fin k (p_ret x)"
  by (simp add: p_fin_def p_ret_def)

lemma fin_fail [fins]: "p_fin k (\<lambda>ts. PErr (e ts))"
  by (simp add: p_fin_def)

lemma fin_unexpected [fins]: "p_fin k (p_unexpected L)"
  by (simp add: p_fin_def p_unexpected_def)

lemma fin_advance [fins]: "p_fin k p_advance"
  by (simp add: p_fin_def p_advance_def)

lemma fin_expect [fins]: "p_fin k (p_expect L tt)"
  by (simp add: p_fin_def p_expect_def Let_def)

lemma fin_wrap [fins]: "p_fin k m \<Longrightarrow> p_fin k (p_wrap p m)"
  by (auto simp: p_fin_def p_wrap_def split: parsed.splits)

lemma fin_bind [fins]:
  assumes "p_fin k m" and "p_shrinks m" and "\<And>x. p_fin k (f x)"
  shows "p_fin k (p_bind m f)"
  unfolding p_fin_def
proof (intro allI impI)
  fix ts :: "token list" assume len: "length ts \<le> k"
  show "p_bind m f ts \<noteq> NoFuel"
  proof (cases "m ts")
    case (POk x r)
    with assms(2) len have "length r \<le> k" by (auto dest: p_shrinksD)
    with POk assms(3) show ?thesis by (simp add: p_bind_def p_fin_def)
  qed (use assms(1) len in \<open>auto simp: p_bind_def p_fin_def\<close>)
qed

lemma fin_bind_eats:
  assumes "p_fin k m" and "p_eats m" and "\<And>x j. Suc j = k \<Longrightarrow> p_fin j (f x)"
  shows "p_fin k (p_bind m f)"
  unfolding p_fin_def
proof (intro allI impI)
  fix ts :: "token list" assume len: "length ts \<le> k"
  show "p_bind m f ts \<noteq> NoFuel"
  proof (cases "m ts")
    case (POk x r)
    with assms(2) have "length r < length ts" by (auto dest: p_eatsD)
    with len obtain j where "Suc j = k" "length r \<le> j" by (cases k) auto
    with POk assms(3) show ?thesis by (simp add: p_bind_def p_fin_def)
  qed (use assms(1) len in \<open>auto simp: p_bind_def p_fin_def\<close>)
qed

lemma fin_on [fins]:
  assumes "tt \<noteq> TokenEOF" and "\<And>j t. Suc j = k \<Longrightarrow> p_fin j (f t)" and "p_fin k g"
  shows "p_fin k (p_on tt f g)"
  unfolding p_fin_def
proof (intro allI impI)
  fix ts :: "token list" assume len: "length ts \<le> k"
  show "p_on tt f g ts \<noteq> NoFuel"
  proof (cases "tk_type (ppeek ts) = tt")
    case True
    with assms(1) obtain t us where ts: "ts = t # us" using ppeek_type [of ts] by auto
    with len obtain j where "Suc j = k" "length us \<le> j" by (cases k) auto
    with True ts assms(2) show ?thesis by (simp add: p_on_def p_fin_def)
  next
    case False
    with len assms(3) show ?thesis by (simp add: p_on_def p_fin_def)
  qed
qed

lemma fin_look [fins]: "(\<And>t. p_fin k (f t)) \<Longrightarrow> p_fin k (p_look f)"
  by (simp add: p_fin_def p_look_def)

lemma fin_if [fins]: "p_fin k m \<Longrightarrow> p_fin k m' \<Longrightarrow> p_fin k (if b then m else m')"
  by simp

lemma fin_comma_more [fins]:
  "k < n \<Longrightarrow> p_fin k item \<Longrightarrow> p_shrinks item \<Longrightarrow> p_fin k (comma_more n item)"
proof (induction n arbitrary: k)
  case (Suc n)
  have item: "p_fin j item" if "Suc j = k" for j
    using that Suc.prems by (auto intro: p_fin_mono)
  have "p_fin j (comma_more n item)" if "Suc j = k" for j
    using Suc.IH [OF _ item [OF that]] that Suc.prems by simp
  with item show ?case using Suc.prems(3) by (auto intro!: fins shrinks)
qed simp

lemma fin_comma_list [fins]:
  "k < n \<Longrightarrow> p_fin k item \<Longrightarrow> p_shrinks item \<Longrightarrow> p_fin k (comma_list n item)"
  unfolding comma_list_def by (intro fins shrinks)

lemma fin_left_loop [fins]:
  "k < n \<Longrightarrow> p_fin k item \<Longrightarrow> p_shrinks item \<Longrightarrow> p_fin k (left_loop n tt op item l)"
  if "tt \<noteq> TokenEOF"
proof (induction n arbitrary: k l)
  case (Suc n)
  have item: "p_fin j item" if "Suc j = k" for j
    using that Suc.prems by (auto intro: p_fin_mono)
  have "p_fin j (left_loop n tt op item l')" if "Suc j = k" for j l'
    using Suc.IH [OF _ item [OF that]] that Suc.prems by simp
  with item show ?case using Suc.prems(3) that by (auto intro!: fins shrinks)
qed simp

section \<open>The grammar\<close>

lemma shrinks_args [shrinks]: "p_shrinks e \<Longrightarrow> p_shrinks (parseArgs n e)"
  unfolding parseArgs_def by (intro shrinks)

lemma shrinks_named [shrinks]: "p_shrinks e \<Longrightarrow> p_shrinks (parseNamed L n e t)"
  unfolding parseNamed_def by (intro shrinks)

lemma shrinks_list [shrinks]: "p_shrinks e \<Longrightarrow> p_shrinks (parseListLiteral L n e)"
  unfolding parseListLiteral_def by (intro shrinks)

lemma shrinks_negative [shrinks]: "p_shrinks (parseNegative L t)"
  unfolding parseNegative_def by (intro shrinks)

lemma shrinks_operator [shrinks]: "p_shrinks a \<Longrightarrow> p_shrinks (parseOperator a l)"
  unfolding parseOperator_def Let_def by (intro shrinks)

lemma eats_expressions [eats]:
  "p_eats (parseOr L n)" "p_eats (parseAnd L n)" "p_eats (parseNot L n)"
  "p_eats (parseComparison L n)" "p_eats (parseAtom L n)"
proof (induction n)
  case 0
  { case 1 show ?case by (simp add: eats) next
    case 2 show ?case by (simp add: eats) next
    case 3 show ?case by (simp add: eats) next
    case 4 show ?case by (simp add: eats) next
    case 5 show ?case by (simp add: eats) }
next
  case (Suc n)
  note sh = Suc.IH [THEN eats_shrinks]
  { case 1 show ?case unfolding parseOr.simps by (intro eats_bind Suc.IH shrinks sh) next
    case 2 show ?case unfolding parseAnd.simps by (intro eats_bind Suc.IH shrinks sh) next
    case 3 show ?case unfolding parseNot.simps by (intro eats Suc.IH shrinks sh) simp next
    case 4 show ?case unfolding parseComparison.simps by (intro eats_bind Suc.IH shrinks sh) next
    case 5 show ?case unfolding parseAtom.simps by (intro eats shrinks sh) simp_all }
qed

lemmas shrinks_expressions [shrinks] = eats_expressions [THEN eats_shrinks]

lemma fin_args [fins]:
  "k < n \<Longrightarrow> p_fin k e \<Longrightarrow> p_shrinks e \<Longrightarrow> p_fin k (parseArgs n e)"
  unfolding parseArgs_def by (intro fins shrinks) (auto intro: p_fin_mono)

lemma fin_named [fins]:
  "k < n \<Longrightarrow> p_fin k e \<Longrightarrow> p_shrinks e \<Longrightarrow> p_fin k (parseNamed L n e t)"
  unfolding parseNamed_def by (intro fins shrinks) (auto intro: p_fin_mono)

lemma fin_list [fins]:
  "k < n \<Longrightarrow> p_fin k e \<Longrightarrow> p_shrinks e \<Longrightarrow> p_fin k (parseListLiteral L n e)"
  unfolding parseListLiteral_def by (intro fins shrinks) auto

lemma fin_negative [fins]: "p_fin k (parseNegative L t)"
  unfolding parseNegative_def by (intro fins) simp_all

lemma fin_operator [fins]: "p_fin k a \<Longrightarrow> p_shrinks a \<Longrightarrow> p_fin k (parseOperator a l)"
  unfolding parseOperator_def Let_def by (intro fins shrinks) (auto intro: p_fin_mono)

lemma fin_atom:
  assumes "\<And>j. Suc j = k \<Longrightarrow> p_fin j (parseOr L n)" and "k \<le> n"
  shows "p_fin k (parseAtom L (Suc n))"
  unfolding parseAtom.simps
  by (intro fins shrinks) (use assms in auto)

lemma fin_comparison: "p_fin k (parseAtom L n) \<Longrightarrow> p_fin k (parseComparison L (Suc n))"
  unfolding parseComparison.simps by (intro fins shrinks)

lemma fin_not: "p_fin k (parseComparison L n) \<Longrightarrow> p_fin k (parseNot L (Suc n))"
  unfolding parseNot.simps by (intro fins shrinks) (auto intro: p_fin_mono)

lemma fin_and: "p_fin k (parseNot L n) \<Longrightarrow> k < n \<Longrightarrow> p_fin k (parseAnd L (Suc n))"
  unfolding parseAnd.simps by (intro fins shrinks) simp_all

lemma fin_or: "p_fin k (parseAnd L n) \<Longrightarrow> k < n \<Longrightarrow> p_fin k (parseOr L (Suc n))"
  unfolding parseOr.simps by (intro fins shrinks) simp_all

lemma fin_parseOr: "5 * k + 5 \<le> n \<Longrightarrow> p_fin k (parseOr L n)"
proof (induction k arbitrary: n rule: less_induct)
  case (less k)
  have "\<exists>m. n = Suc (Suc (Suc (Suc (Suc m))))" using less.prems by presburger
  then obtain m where m: "n = Suc (Suc (Suc (Suc (Suc m))))" by blast
  have "p_fin k (parseAtom L (Suc m))"
    using less.prems m by (intro fin_atom less.IH) auto
  then have "p_fin k (parseNot L (Suc (Suc (Suc m))))" by (intro fin_not fin_comparison)
  then show ?case unfolding m
    using less.prems m by (intro fin_or fin_and) auto
qed

text \<open>The other parsers, with \<open>n\<close> at least five times the tokens and five more.\<close>

lemma shrinks_map_entries [shrinks]: "p_shrinks e \<Longrightarrow> p_shrinks (map_entries L n e acc)"
  by (induction n arbitrary: acc) (auto simp: Let_def intro!: shrinks)

lemma fin_map_entries [fins]:
  "k < n \<Longrightarrow> p_fin k e \<Longrightarrow> p_shrinks e \<Longrightarrow> p_fin k (map_entries L n e acc)"
proof (induction n arbitrary: k acc)
  case (Suc n)
  have "p_fin j (map_entries L n e acc')" if "Suc j = k" for j acc'
    using Suc.IH [of j acc'] p_fin_mono [OF Suc.prems(2)] that Suc.prems by simp
  with Suc.prems show ?case by (auto simp: Let_def intro!: fins shrinks)
qed simp

lemma shrinks_node [shrinks]: "p_shrinks (parseNodePattern L n)"
  and eats_node [eats]: "p_eats (parseNodePattern L n)"
  unfolding parseNodePattern_def opt_ident_def opt_label_def parseMapLiteral_def
  by (intro shrinks eats_bind eats; simp)+

lemma shrinks_detail [shrinks]: "p_shrinks (parseRelDetail L d)"
  unfolding parseRelDetail_def opt_ident_def opt_label_def by (intro shrinks)

lemma eats_rel [eats]: "p_eats (parseRelAndNode L n)"
  unfolding parseRelAndNode_def by (intro eats_bind2 eats_bind eats_node shrinks)

lemma shrinks_rel_chain [shrinks]: "p_shrinks (rel_chain L n k)"
  by (induction k) (auto intro!: shrinks eats_rel [THEN eats_shrinks])

lemma eats_pattern [eats]: "p_eats (parsePattern L n)"
  unfolding parsePattern_def by (intro eats_bind eats_node shrinks)

lemmas shrinks_pattern [shrinks] = eats_pattern [THEN eats_shrinks]

lemma fin_opt_ident [fins]: "p_fin k opt_ident"
  unfolding opt_ident_def by (intro fins) simp

lemma fin_opt_label [fins]: "p_fin k (opt_label L w)"
  unfolding opt_label_def by (intro fins shrinks) simp

lemma shrinks_opts [shrinks]: "p_shrinks opt_ident" "p_shrinks (opt_label L w)"
  unfolding opt_ident_def opt_label_def by (intro shrinks)+

definition enough :: "nat \<Rightarrow> nat \<Rightarrow> bool" where
  "enough k n \<longleftrightarrow> 5 * k + 5 \<le> n"

lemma enough_Suc: "enough k n \<Longrightarrow> Suc j = k \<Longrightarrow> enough j n"
  by (simp add: enough_def)

lemma enough_less: "enough k n \<Longrightarrow> k < n"
  by (simp add: enough_def)

lemma fin_expr [fins]: "enough k n \<Longrightarrow> p_fin k (parseOr L n)"
  by (simp add: enough_def fin_parseOr)

lemma fin_map_literal [fins]: "enough k n \<Longrightarrow> p_fin k (parseMapLiteral L n)"
  unfolding parseMapLiteral_def by (intro fins shrinks) (auto dest: enough_less)

lemma shrinks_map_literal [shrinks]: "p_shrinks (parseMapLiteral L n)"
  unfolding parseMapLiteral_def by (intro shrinks)

lemma fin_node [fins]: "enough k n \<Longrightarrow> p_fin k (parseNodePattern L n)"
  unfolding parseNodePattern_def by (intro fins shrinks) (auto intro: enough_Suc)

lemma fin_detail [fins]: "p_fin k (parseRelDetail L d)"
  unfolding parseRelDetail_def by (intro fins shrinks) simp

lemma fin_rel [fins]: "enough k n \<Longrightarrow> p_fin k (parseRelAndNode L n)"
  unfolding parseRelAndNode_def by (intro fins shrinks) simp_all

lemma fin_rel_chain [fins]: "k < m \<Longrightarrow> enough k n \<Longrightarrow> p_fin k (rel_chain L n m)"
proof (induction m arbitrary: k)
  case (Suc m)
  have "p_fin j (rel_chain L n m)" if "Suc j = k" for j
    using Suc that by (auto intro: enough_Suc)
  then show ?case unfolding rel_chain.simps
    by (intro fin_look fin_if fin_bind_eats [OF _ eats_rel] fin_bind shrinks fin_ret)
      (auto intro: fins Suc.prems)
qed simp

lemma fin_pattern [fins]: "enough k n \<Longrightarrow> p_fin k (parsePattern L n)"
  unfolding parsePattern_def by (intro fins shrinks) (auto dest: enough_less)

lemma shrinks_return_item [shrinks]: "p_shrinks (parseReturnItem L n)"
  unfolding parseReturnItem_def by (intro shrinks)

lemma eats_items [eats]: "p_eats (parseReturnItem L n)" "p_eats (parseOrderItem L n)"
    "p_eats (parseSetItem L n)" "p_eats (ident_literal L)"
  unfolding parseReturnItem_def parseOrderItem_def parseSetItem_def ident_literal_def
  by (intro eats_bind eats_expressions eats_expect shrinks; simp)+

lemmas shrinks_items [shrinks] = eats_items [THEN eats_shrinks]

lemma fin_items [fins]:
  "enough k n \<Longrightarrow> p_fin k (parseReturnItem L n)"
  "enough k n \<Longrightarrow> p_fin k (parseOrderItem L n)"
  "enough k n \<Longrightarrow> p_fin k (parseSetItem L n)"
  "p_fin k (ident_literal L)"
  unfolding parseReturnItem_def parseOrderItem_def parseSetItem_def ident_literal_def
  by (intro fins shrinks; simp)+

lemma fin_opt_count [fins]: "tt \<noteq> TokenEOF \<Longrightarrow> p_fin k (opt_count L tt)"
  unfolding opt_count_def by (intro fins shrinks) simp_all

lemma shrinks_opt_count [shrinks]: "p_shrinks (opt_count L tt)"
  unfolding opt_count_def by (intro shrinks)

lemma shrinks_dotted [shrinks]: "p_shrinks (dotted_name L n s)"
  by (induction n arbitrary: s) (auto intro!: shrinks)

lemma fin_dotted [fins]: "k < n \<Longrightarrow> p_fin k (dotted_name L n s)"
proof (induction n arbitrary: k s)
  case (Suc n)
  then show ?case by (auto intro!: fins shrinks)
qed simp

lemmas clause_defs = parseMatch_def parseWhere_def parseReturn_def parseCreate_def
  parseMerge_def parseSet_def parseDelete_def parseCall_def

lemma eats_clauses [eats]:
  "p_eats (parseMatch L n)" "p_eats (parseWhere L n)" "p_eats (parseReturn L n)"
  "p_eats (parseCreate L n)" "p_eats (parseMerge L n)" "p_eats (parseSet L n)"
  "p_eats (parseDelete L n)"
  unfolding clause_defs
  by (intro eats_bind2 [OF shrinks_advance] eats_bind eats_comma_list eats_pattern eats_items
      eats_expressions shrinks)+

lemma eats_call [eats]: "p_eats (parseCall L n)"
  unfolding clause_defs
  by (intro eats_bind2 [OF shrinks_advance] eats_bind eats_expect shrinks; simp)

lemma fin_clauses [fins]:
  "enough k n \<Longrightarrow> p_fin k (parseMatch L n)" "enough k n \<Longrightarrow> p_fin k (parseWhere L n)"
  "enough k n \<Longrightarrow> p_fin k (parseReturn L n)" "enough k n \<Longrightarrow> p_fin k (parseCreate L n)"
  "enough k n \<Longrightarrow> p_fin k (parseMerge L n)" "enough k n \<Longrightarrow> p_fin k (parseSet L n)"
  "enough k n \<Longrightarrow> p_fin k (parseDelete L n)" "enough k n \<Longrightarrow> p_fin k (parseCall L n)"
  unfolding clause_defs
  by (intro fins shrinks; auto dest: enough_less intro: enough_Suc)+

lemma eats_clause [eats]: "p_eats (parseClause L n)"
  unfolding p_eats_def parseClause_def p_look_def
proof (intro allI impI)
  fix ts c r
  assume "(case tk_type (ppeek ts) of TokenMATCH \<Rightarrow> parseMatch L n
     | TokenWHERE \<Rightarrow> parseWhere L n | TokenRETURN \<Rightarrow> parseReturn L n
     | TokenCREATE \<Rightarrow> parseCreate L n | TokenMERGE \<Rightarrow> parseMerge L n
     | TokenSET \<Rightarrow> parseSet L n | TokenDELETE \<Rightarrow> parseDelete L n
     | TokenCALL \<Rightarrow> parseCall L n | _ \<Rightarrow> p_unexpected L) ts = POk c r"
  then show "strict_suffix r ts"
    by (cases "tk_type (ppeek ts)")
      (simp_all add: eats_clauses [THEN p_eats_suffix] eats_call [THEN p_eats_suffix]
        eats_unexpected [THEN p_eats_suffix])
qed

lemma fin_clause [fins]: "enough k n \<Longrightarrow> p_fin k (parseClause L n)"
  unfolding parseClause_def
proof (rule fin_look)
  fix t :: token assume "enough k n"
  note fin = fin_clauses [OF this]
  show "p_fin k (case tk_type t of TokenMATCH \<Rightarrow> parseMatch L n
     | TokenWHERE \<Rightarrow> parseWhere L n | TokenRETURN \<Rightarrow> parseReturn L n
     | TokenCREATE \<Rightarrow> parseCreate L n | TokenMERGE \<Rightarrow> parseMerge L n
     | TokenSET \<Rightarrow> parseSet L n | TokenDELETE \<Rightarrow> parseDelete L n
     | TokenCALL \<Rightarrow> parseCall L n | _ \<Rightarrow> p_unexpected L)"
    by (cases "tk_type t") (simp_all add: fin fin_unexpected)
qed

lemma shrinks_statement_clauses: "p_shrinks (clauses L n m)"
  by (induction m) (auto intro!: shrinks eats_clause [THEN eats_shrinks])

lemma fin_statement_clauses: "k < m \<Longrightarrow> enough k n \<Longrightarrow> p_fin k (clauses L n m)"
proof (induction m arbitrary: k)
  case (Suc m)
  have IH: "p_fin j (clauses L n m)" if "Suc j = k" for j
    using Suc that by (auto intro: enough_Suc)
  show ?case unfolding clauses.simps
    by (intro fin_look fin_if fin_bind_eats [OF _ eats_clause] fin_bind shrinks
        shrinks_statement_clauses fin_ret)
      (auto intro: fin_clause IH Suc.prems)
qed simp

lemma statement_parser_returns:
  assumes "5 * length ts + 5 \<le> n"
  shows "statement_parser L n ts \<noteq> NoFuel"
proof -
  have "enough (length ts) n" using assms by (simp add: enough_def)
  then have "p_fin (length ts) (statement_parser L n)"
    unfolding statement_parser_def
    by (intro fins shrinks fin_statement_clauses shrinks_statement_clauses)
      (auto dest: enough_less)
  then show ?thesis by (simp add: p_fin_def)
qed

section \<open>What the parser builds\<close>

text \<open>
  \<open>p_yields P m\<close>: on tokens as the lexer makes them every result satisfies \<open>P\<close>.
\<close>

definition p_yields :: "('a \<Rightarrow> bool) \<Rightarrow> 'a parser \<Rightarrow> bool" where
  "p_yields P m \<longleftrightarrow> (\<forall>ts x r. list_all token_ok ts \<longrightarrow> m ts = POk x r \<longrightarrow> P x)"

named_theorems yields \<open>results of parsers\<close>

lemma p_yieldsD: "p_yields P m \<Longrightarrow> list_all token_ok ts \<Longrightarrow> m ts = POk x r \<Longrightarrow> P x"
  by (simp add: p_yields_def)

lemma yields_any: "p_yields (\<lambda>_. True) m"
  by (simp add: p_yields_def)

lemma yields_mono: "p_yields P m \<Longrightarrow> (\<And>x. P x \<Longrightarrow> Q x) \<Longrightarrow> p_yields Q m"
  by (auto simp: p_yields_def)

lemma suffix_ok: "suffix r ts \<Longrightarrow> list_all token_ok ts \<Longrightarrow> list_all token_ok r"
  by (auto simp: suffix_def)

lemma ppeek_ok: "list_all token_ok ts \<Longrightarrow> token_ok (ppeek ts)"
  by (cases ts) (simp_all add: ppeek_def token_ok_tok)

lemma yields_ret [yields]: "P x \<Longrightarrow> p_yields P (p_ret x)"
  by (simp add: p_yields_def p_ret_def)

lemma yields_out [yields]: "p_yields P p_out"
  by (simp add: p_yields_def p_out_def)

lemma yields_fail [yields]: "p_yields P (\<lambda>ts. PErr (e ts))"
  by (simp add: p_yields_def)

lemma yields_unexpected [yields]: "p_yields P (p_unexpected L)"
  by (simp add: p_yields_def p_unexpected_def)

lemma yields_bind:
  assumes "p_yields Q m" and "p_shrinks m" and "\<And>x. Q x \<Longrightarrow> p_yields P (f x)"
  shows "p_yields P (p_bind m f)"
  unfolding p_yields_def p_bind_POk
proof (intro allI impI, elim exE conjE)
  fix ts y s x r
  assume ok: "list_all token_ok ts" and m: "m ts = POk x r" and f: "f x r = POk y s"
  have "list_all token_ok r" using p_shrinks_suffix [OF assms(2) m] ok by (rule suffix_ok)
  moreover have "Q x" using p_yieldsD [OF assms(1) ok m] .
  ultimately show "P y" using p_yieldsD [OF assms(3) _ f] by blast
qed

lemmas yields_then = yields_bind [OF yields_any]

lemma yields_on [yields]:
  assumes "\<And>t. token_ok t \<Longrightarrow> tk_type t = tt \<Longrightarrow> p_yields P (f t)" and "p_yields P g"
  shows "p_yields P (p_on tt f g)"
  unfolding p_yields_def p_on_def
proof (intro allI impI)
  fix ts x r
  assume ok: "list_all token_ok ts"
    and run: "(if tk_type (ppeek ts) = tt then f (ppeek ts) (tl ts) else g ts) = POk x r"
  have "list_all token_ok (tl ts)" using suffix_tl ok by (rule suffix_ok)
  with ok run show "P x"
    using p_yieldsD [OF assms(1)] p_yieldsD [OF assms(2)] ppeek_ok by (metis (full_types))
qed

lemma yields_look [yields]: "(\<And>t. p_yields P (f t)) \<Longrightarrow> p_yields P (p_look f)"
  by (simp add: p_yields_def p_look_def)

lemma yields_if [yields]: "p_yields P m \<Longrightarrow> p_yields P k \<Longrightarrow> p_yields P (if b then m else k)"
  by simp

lemma yields_expect:
  "p_yields (\<lambda>t. token_ok t \<and> tk_type t = tt) (p_expect L tt)"
  by (auto simp: p_yields_def p_expect_def Let_def ppeek_ok split: if_splits)

lemma yields_wrap: "p_yields P m \<Longrightarrow> p_yields P (p_wrap w m)"
  by (auto simp: p_yields_def p_wrap_def split: parsed.splits)

lemma yields_comma_more:
  "p_yields P item \<Longrightarrow> p_shrinks item \<Longrightarrow> p_yields (list_all P) (comma_more n item)"
proof (induction n)
  case (Suc n)
  then show ?case unfolding comma_more.simps
    by (intro yields_on yields_bind [OF Suc.prems(1)] yields_bind [OF Suc.IH] yields_ret shrinks)
      simp_all
qed (simp add: yields)

lemma yields_comma_list:
  "p_yields P item \<Longrightarrow> p_shrinks item \<Longrightarrow>
    p_yields (\<lambda>xs. xs \<noteq> [] \<and> list_all P xs) (comma_list n item)"
  unfolding comma_list_def
  by (rule yields_bind [where Q = P], assumption+,
      rule yields_bind [OF yields_comma_more [where P = P]])
    (auto intro: yields shrinks)

text \<open>
  Patterns alternate nodes and edges, labels have no colon, property keys are distinct;
  MATCH and CREATE have a pattern, RETURN an item, LIMIT and SKIP are not negative.
\<close>

definition node_pattern_ok :: "node_pattern \<Rightarrow> bool" where
  "node_pattern_ok np \<longleftrightarrow> colon_free (np_label np) \<and>
     (\<forall>ps. np_props np = Some ps \<longrightarrow> distinct (map fst ps))"

definition pattern_ok :: "pattern \<Rightarrow> bool" where
  "pattern_ok p \<longleftrightarrow> length (pt_nodes p) = Suc (length (pt_edges p)) \<and>
     list_all node_pattern_ok (pt_nodes p) \<and>
     list_all (\<lambda>ep. colon_free (ep_label ep)) (pt_edges p)"

definition count_ok :: "int option \<Rightarrow> bool" where
  "count_ok c \<longleftrightarrow> (\<forall>i. c = Some i \<longrightarrow> 0 \<le> i)"

fun clause_ok :: "clause \<Rightarrow> bool" where
  "clause_ok (MatchClause ps) \<longleftrightarrow> ps \<noteq> [] \<and> list_all pattern_ok ps"
| "clause_ok (CreateClause ps) \<longleftrightarrow> ps \<noteq> [] \<and> list_all pattern_ok ps"
| "clause_ok (MergeClause p) \<longleftrightarrow> pattern_ok p"
| "clause_ok (ReturnClause rc) \<longleftrightarrow> rc_items rc \<noteq> [] \<and> count_ok (rc_limit rc) \<and> count_ok (rc_skip rc)"
| "clause_ok _ \<longleftrightarrow> True"

definition statement_ok :: "statement \<Rightarrow> bool" where
  "statement_ok cs \<longleftrightarrow> cs \<noteq> [] \<and> list_all clause_ok cs"

lemma yields_opt_ident_label: "p_yields colon_free (opt_label L w)"
  unfolding opt_label_def
  by (intro yields yields_bind [OF yields_wrap [OF yields_expect]] shrinks)
    (auto simp: token_ok_def)

lemma yields_map_entries:
  "distinct (map fst acc) \<Longrightarrow> p_shrinks e \<Longrightarrow>
    p_yields (\<lambda>ps. distinct (map fst ps)) (map_entries L n e acc)"
  by (induction n arbitrary: acc) (auto simp: Let_def intro!: yields yields_then shrinks)

lemma yields_map_literal: "p_yields (\<lambda>ps. distinct (map fst ps)) (parseMapLiteral L n)"
  unfolding parseMapLiteral_def
  by (intro yields yields_bind [OF yields_map_entries] yields_then [OF shrinks_expect] shrinks)
    simp_all

lemma yields_node: "p_yields node_pattern_ok (parseNodePattern L n)"
  unfolding parseNodePattern_def
  by (intro yields_then [OF shrinks_expect] yields_then [OF shrinks_opts(1)]
      yields_bind [OF yields_opt_ident_label]
      yields_bind [where Q = "\<lambda>o'. \<forall>ps. o' = Some ps \<longrightarrow> distinct (map fst ps)"]
      yields_bind [OF yields_map_literal] yields shrinks)
    (auto simp: node_pattern_ok_def)

lemma yields_detail: "p_yields (\<lambda>ep. colon_free (ep_label ep)) (parseRelDetail L d)"
  unfolding parseRelDetail_def
  by (intro yields yields_then [OF shrinks_expect] yields_then [OF shrinks_opts(1)]
      yields_bind [OF yields_opt_ident_label] shrinks) simp_all

lemma yields_rel:
  "p_yields (\<lambda>(ep, np). colon_free (ep_label ep) \<and> node_pattern_ok np) (parseRelAndNode L n)"
  unfolding parseRelAndNode_def
  by (intro yields_bind [where Q = "\<lambda>ep. colon_free (ep_label ep)"] yields_bind [OF yields_detail]
      yields_bind [OF yields_node] yields_then [OF shrinks_expect]
      yields_then [OF shrinks_advance] yields shrinks) simp_all

lemma yields_rel_chain:
  "p_yields (list_all (\<lambda>(ep, np). colon_free (ep_label ep) \<and> node_pattern_ok np)) (rel_chain L n k)"
proof (induction k)
  case (Suc k)
  show ?case unfolding rel_chain.simps
    by (intro yields_look yields_if yields_bind [OF yields_rel] yields_bind [OF Suc.IH] yields_ret
        shrinks eats_rel [THEN eats_shrinks]) auto
qed (simp add: yields)

lemma yields_pattern: "p_yields pattern_ok (parsePattern L n)"
  unfolding parsePattern_def
  by (intro yields_bind [OF yields_node] yields_bind [OF yields_rel_chain] yields_ret shrinks)
    (auto simp: pattern_ok_def list_all_iff)

lemma yields_count: "p_yields count_ok (opt_count L tt)"
  unfolding opt_count_def
  by (intro yields yields_bind [OF yields_expect] shrinks) (auto simp: count_ok_def token_ok_def)

lemmas yields_patterns = yields_comma_list [OF yields_pattern shrinks_pattern]

lemma yields_return: "p_yields clause_ok (parseReturn L n)"
  unfolding parseReturn_def
  by (intro yields_then [OF shrinks_advance] yields_bind [OF yields_comma_list [OF yields_any]]
      yields_bind [OF yields_count])
    (auto intro!: yields_then yields_bind [OF yields_count] yields shrinks)

lemma yields_clauses:
  "p_yields clause_ok (parseMatch L n)" "p_yields clause_ok (parseCreate L n)"
  "p_yields clause_ok (parseMerge L n)"
  unfolding parseMatch_def parseCreate_def parseMerge_def
  by (intro yields_then [OF shrinks_advance] yields_bind [OF yields_patterns]
      yields_bind [OF yields_pattern] yields_ret shrinks; simp)+

lemma yields_clause: "p_yields clause_ok (parseClause L n)"
  unfolding parseClause_def
proof (rule yields_look)
  fix t :: token
  have triv: "p_yields clause_ok (parseWhere L n)" "p_yields clause_ok (parseSet L n)"
    "p_yields clause_ok (parseDelete L n)" "p_yields clause_ok (parseCall L n)"
    unfolding clause_defs by (intro yields_then shrinks yields_ret; simp)+
  show "p_yields clause_ok (case tk_type t of TokenMATCH \<Rightarrow> parseMatch L n
     | TokenWHERE \<Rightarrow> parseWhere L n | TokenRETURN \<Rightarrow> parseReturn L n
     | TokenCREATE \<Rightarrow> parseCreate L n | TokenMERGE \<Rightarrow> parseMerge L n
     | TokenSET \<Rightarrow> parseSet L n | TokenDELETE \<Rightarrow> parseDelete L n
     | TokenCALL \<Rightarrow> parseCall L n | _ \<Rightarrow> p_unexpected L)"
    by (cases "tk_type t") (simp_all add: yields_clauses yields_return triv yields_unexpected)
qed

lemma yields_statement: "p_yields statement_ok (statement_parser L n)"
proof -
  have "p_yields (list_all clause_ok) (clauses L n k)" for k
  proof (induction k)
    case (Suc k)
    show ?case unfolding clauses.simps
      by (intro yields_look yields_if yields_bind [OF yields_clause] yields_bind [OF Suc.IH]
          yields_ret shrinks_statement_clauses eats_clause [THEN eats_shrinks]) simp_all
  qed (simp add: yields)
  then show ?thesis unfolding statement_parser_def
    by (rule yields_bind [OF _ shrinks_statement_clauses])
      (simp add: yields statement_ok_def)
qed

lemma Parse_ok:
  assumes "Parse L input = Ok stmt"
  shows "statement_ok stmt"
proof -
  from assms obtain r where
    "statement_parser L (parse_fuel (Tokenize L input)) (Tokenize L input) = POk stmt r"
    by (auto simp: Parse_def ParseStatement_def split: parsed.splits)
  then show ?thesis by (rule p_yieldsD [OF yields_statement Tokenize_ok])
qed

lemma Parse_returns: "Parse L input \<noteq> Panic"
  using statement_parser_returns [of "Tokenize L input" _ L]
  by (auto simp: Parse_def ParseStatement_def parse_fuel_def split: parsed.splits)

end
