(* ===== verification/Cypher_Syntax.thy ===== *)
theory Cypher_Syntax
  imports Cypher_Parser_Laws
begin

text \<open>
  The expressions of the language written as tokens with as few parentheses as the grammar
  allows, and the proof that the parser reads every one of them back: precedence, left
  associativity of AND and OR, argument lists, the special case of a star argument.
\<close>

section \<open>Printing\<close>

abbreviation tk :: "token_type \<Rightarrow> string \<Rightarrow> token" where
  "tk t l \<equiv> tok t l 0"

definition compare_ops :: "(string \<times> token_type) list" where
  "compare_ops = [(''='', TokenEQ), (''<>'', TokenNEQ), (''<'', TokenLT), (''>'', TokenGT),
     (''<='', TokenLTE), (''>='', TokenGTE), (''CONTAINS'', TokenCONTAINS), (''IN'', TokenIN)]"

definition op_type :: "string \<Rightarrow> token_type" where
  "op_type op = (if op = ''OR'' then TokenOR else if op = ''AND'' then TokenAND
     else case map_of compare_ops op of Some t \<Rightarrow> t | None \<Rightarrow> TokenIllegal)"

text \<open>Levels: 0 OR, 1 AND, 2 NOT, 3 comparison, 4 atom.\<close>

definition op_level :: "string \<Rightarrow> nat" where
  "op_level op = (if op = ''OR'' then 0 else if op = ''AND'' then 1 else 3)"

definition left_level :: "string \<Rightarrow> nat" where
  "left_level op = (if op = ''OR'' then 0 else if op = ''AND'' then 1 else 4)"

definition right_level :: "string \<Rightarrow> nat" where
  "right_level op = (if op = ''OR'' then 1 else if op = ''AND'' then 2 else 4)"

fun expr_level :: "expr \<Rightarrow> nat" where
  "expr_level (BinaryExpr a op b) = op_level op"
| "expr_level (UnaryExpr op a) = 2"
| "expr_level _ = 4"

definition parens :: "bool \<Rightarrow> token list \<Rightarrow> token list" where
  "parens b ts = (if b then tk TokenLParen ''('' # ts @ [tk TokenRParen '')''] else ts)"

definition show_literal :: "gval \<Rightarrow> token list" where
  "show_literal v = (case v of
      VNil \<Rightarrow> [tk TokenNULL ''NULL'']
    | VBool b \<Rightarrow> [if b then tk TokenTRUE ''TRUE'' else tk TokenFALSE ''FALSE'']
    | VStr s \<Rightarrow> [tk TokenString s]
    | VInt i \<Rightarrow> if sint i < 0
        then [tk TokenDash ''-'', tk TokenInt (show_nat (nat (- sint i)))]
        else [tk TokenInt (show_nat (nat (sint i)))]
    | _ \<Rightarrow> [])"

fun show_at :: "nat \<Rightarrow> expr \<Rightarrow> token list"
and show_more :: "expr list \<Rightarrow> token list" where
  "show_at l (IdentExpr x) = [tk TokenIdent x]"
| "show_at l (PropertyExpr x p) = [tk TokenIdent x, tk TokenDot ''.'', tk TokenIdent p]"
| "show_at l (LiteralExpr v) = show_literal v"
| "show_at l (ParamExpr x) = [tk TokenParam (CHR ''$'' # x)]"
| "show_at l (BinaryExpr a op b) = parens (op_level op < l)
     (show_at (left_level op) a @ tk (op_type op) op # show_at (right_level op) b)"
| "show_at l (UnaryExpr op a) = parens (2 < l) (tk TokenNOT ''NOT'' # show_at 3 a)"
| "show_at l (FuncCallExpr f es) = tk TokenIdent f # tk TokenLParen ''('' #
     (case es of StarExpr # r \<Rightarrow> tk TokenStar ''*'' # show_more r | _ \<Rightarrow> tl (show_more es)) @
     [tk TokenRParen '')'']"
| "show_at l StarExpr = parens True [tk TokenStar ''*'']"
| "show_at l (ListExpr es) =
     tk TokenLBracket ''['' # tl (show_more es) @ [tk TokenRBracket '']'']"
| "show_more [] = []"
| "show_more (e # es) = tk TokenComma '','' # show_at 0 e @ show_more es"

text \<open>
  What the grammar can express: the operators of the language, literals that are null,
  Booleans, strings or integers other than the least one.
\<close>

fun writable :: "expr \<Rightarrow> bool" where
  "writable (LiteralExpr v) \<longleftrightarrow> (case v of VNil \<Rightarrow> True | VBool _ \<Rightarrow> True | VStr _ \<Rightarrow> True
     | VInt i \<Rightarrow> sint i \<noteq> int64_min | _ \<Rightarrow> False)"
| "writable (BinaryExpr a op b) \<longleftrightarrow>
     (op = ''OR'' \<or> op = ''AND'' \<or> op \<in> set (map fst compare_ops)) \<and> writable a \<and> writable b"
| "writable (UnaryExpr op a) \<longleftrightarrow> op = ''NOT'' \<and> writable a"
| "writable (FuncCallExpr f es) \<longleftrightarrow> list_all writable es"
| "writable (ListExpr es) \<longleftrightarrow> list_all writable es"
| "writable _ \<longleftrightarrow> True"

section \<open>Reading back\<close>

definition level_parser :: "cypher_lib \<Rightarrow> nat \<Rightarrow> nat \<Rightarrow> expr parser" where
  "level_parser L l n = (if l = 0 then parseOr L n else if l = 1 then parseAnd L n
     else if l = 2 then parseNot L n else if l = 3 then parseComparison L n
     else parseAtom L n)"

lemma level_parser_simps [simp]:
  "level_parser L 0 n = parseOr L n" "level_parser L (Suc 0) n = parseAnd L n"
  "level_parser L 2 n = parseNot L n" "level_parser L 3 n = parseComparison L n"
  "level_parser L 4 n = parseAtom L n"
  by (simp_all add: level_parser_def)

text \<open>The tokens that would continue an expression read at a level.\<close>

definition continues :: "nat \<Rightarrow> token_type list" where
  "continues l = [TokenLParen, TokenDot] @
     (if l \<le> 3 then map snd compare_ops else []) @
     (if l \<le> 1 then [TokenAND] else []) @ (if l = 0 then [TokenOR] else [])"

definition stops :: "nat \<Rightarrow> token list \<Rightarrow> bool" where
  "stops l ts \<longleftrightarrow> tk_type (ppeek ts) \<notin> set (continues l)"

definition reads :: "cypher_lib \<Rightarrow> nat \<Rightarrow> expr \<Rightarrow> bool" where
  "reads L l e \<longleftrightarrow> (\<forall>n rest. 5 * length (show_at l e) + 5 \<le> n + l \<longrightarrow> stops l rest \<longrightarrow>
     level_parser L l n (show_at l e @ rest) = POk e rest)"

lemma readsD:
  "reads L l e \<Longrightarrow> 5 * length (show_at l e) + 5 \<le> n + l \<Longrightarrow> stops l rest \<Longrightarrow>
    level_parser L l n (show_at l e @ rest) = POk e rest"
  by (simp add: reads_def)

lemma ppeek_Cons [simp]: "ppeek (t # ts) = t"
  by (simp add: ppeek_def)

lemma p_on_Cons [simp]:
  "p_on tt f g (t # ts) = (if tk_type t = tt then f t ts else g (t # ts))"
  by (simp add: p_on_def)

lemma p_on_skip: "tk_type (ppeek ts) \<noteq> tt \<Longrightarrow> p_on tt f g ts = g ts"
  by (simp add: p_on_def)

lemma p_bind_run: "m ts = POk x r \<Longrightarrow> p_bind m f ts = f x r"
  by (simp add: p_bind_def)

lemma p_ret_run [simp]: "p_ret x ts = POk x ts"
  by (simp add: p_ret_def)

lemma p_expect_Cons [simp]: "tk_type t = tt \<Longrightarrow> p_expect L tt (t # ts) = POk t ts"
  by (simp add: p_expect_def)

lemma stops_mono: "stops l ts \<Longrightarrow> l \<le> k \<Longrightarrow> stops k ts"
  by (auto simp: stops_def continues_def)

text \<open>What is read at one level is read at the looser ones, when nothing continues it.\<close>

lemma comparison_not_NOT:
  "parseComparison L n ts = POk e r \<Longrightarrow> tk_type (ppeek ts) \<noteq> TokenNOT"
proof (cases n)
  case (Suc m)
  assume "parseComparison L n ts = POk e r"
  with Suc obtain x s where "parseAtom L m ts = POk x s" by (auto simp: p_bind_POk)
  then show ?thesis by (cases m) (auto simp: p_out_def p_on_def p_unexpected_def)
qed (simp add: p_out_def)

lemma operator_stops:
  assumes "stops 3 rest"
  shows "parseOperator a e rest = POk e rest"
  using assms
  by (simp add: parseOperator_def Let_def p_on_skip stops_def continues_def compare_ops_def)

lemma left_loop_stops:
  "tk_type (ppeek rest) \<noteq> tt \<Longrightarrow> left_loop (Suc k) tt op item e rest = POk e rest"
  by (simp add: p_on_skip)

lemma level_up:
  assumes run: "level_parser L (Suc l) (Suc n) ts = POk e rest" and "stops l rest" and "l < 4"
  shows "level_parser L l (Suc (Suc n)) ts = POk e rest"
proof -
  consider "l = 0" | "l = 1" | "l = 2" | "l = 3" using \<open>l < 4\<close> by linarith
  then show ?thesis
  proof cases
    case 1
    with assms show ?thesis
      by (simp add: p_bind_run p_on_skip stops_def continues_def del: parseAnd.simps)
  next
    case 2
    with assms show ?thesis
      by (simp add: p_bind_run p_on_skip stops_def continues_def del: parseNot.simps
          flip: numeral_2_eq_2)
  next
    case 3
    with run have c: "parseComparison L (Suc n) ts = POk e rest" by (simp add: numeral_3_eq_3 [symmetric])
    with comparison_not_NOT [OF c] 3 show ?thesis by (simp add: p_on_skip del: parseComparison.simps)
  next
    case 4
    with run have "parseAtom L (Suc n) ts = POk e rest" by (simp add: eval_nat_numeral level_parser_def)
    with 4 assms(2) show ?thesis by (simp add: p_bind_run operator_stops del: parseAtom.simps)
  qed
qed

lemma show_at_eq: "l \<le> expr_level e \<Longrightarrow> show_at l e = show_at 0 e"
  by (cases e) (simp_all add: parens_def op_level_def)

lemma show_at_parens:
  assumes "expr_level e < l" and "l \<le> 4"
  shows "show_at l e = tk TokenLParen ''('' # show_at 0 e @ [tk TokenRParen '')'']"
  using assms by (cases e) (simp_all add: parens_def)

lemma show_more_length: "list_all (\<lambda>e. show_at 0 e \<noteq> []) es \<Longrightarrow> length es \<le> length (show_more es)"
  by (induction es) auto

lemma reads_down:
  assumes "reads L (Suc l) e" and "Suc l \<le> expr_level e \<or> expr_level e < l" and "l < 4"
  shows "reads L l e"
  unfolding reads_def
proof (intro allI impI)
  fix n rest
  assume n: "5 * length (show_at l e) + 5 \<le> n + l" and stop: "stops l rest"
  have eq: "show_at (Suc l) e = show_at l e"
    using assms(2,3) show_at_eq [of l e] show_at_eq [of "Suc l" e]
      show_at_parens [of e l] show_at_parens [of e "Suc l"] by auto
  have "2 \<le> n" using n \<open>l < 4\<close> by simp
  then obtain m where m: "n = Suc (Suc m)" by (metis Suc_le_D numeral_2_eq_2 Suc_le_mono)
  show "level_parser L l n (show_at l e @ rest) = POk e rest"
    unfolding m
  proof (rule level_up [OF _ stop \<open>l < 4\<close>])
    show "level_parser L (Suc l) (Suc m) (show_at l e @ rest) = POk e rest"
      using readsD [OF assms(1), of "Suc m" rest] n m stops_mono [OF stop] by (simp add: eq)
  qed
qed

lemma reads_parens:
  assumes "reads L 0 e" and "expr_level e < 4"
  shows "reads L 4 e"
  unfolding reads_def
proof (intro allI impI)
  fix n rest
  assume n: "5 * length (show_at 4 e) + 5 \<le> n + 4" and stop: "stops 4 rest"
  note eq = show_at_parens [OF assms(2) order_refl]
  from n eq obtain m where m: "n = Suc m" by (cases n) auto
  have "parseOr L m (show_at 0 e @ tk TokenRParen '')'' # rest) =
      POk e (tk TokenRParen '')'' # rest)"
    using readsD [OF assms(1), of m "tk TokenRParen '')'' # rest"] n m eq
    by (simp add: stops_def continues_def compare_ops_def)
  then show "level_parser L 4 n (show_at 4 e @ rest) = POk e rest"
    by (simp add: m eq p_bind_run)
qed

lemma expr_level_le: "expr_level e \<le> 4"
  by (cases e) (simp_all add: op_level_def)

text \<open>Reading an expression at its own level is enough to read it at every level.\<close>

lemma reads_all:
  assumes own: "reads L (expr_level e) e" and l: "l \<le> 4"
  shows "reads L l e"
proof -
  have down: "reads L j e" if "reads L k e" "j \<le> k" "k \<le> 4" "k \<le> expr_level e \<or> expr_level e < j"
    for j k
    using that(2)
  proof (rule inc_induct)
    fix m assume m: "j \<le> m" "m < k" and up: "reads L (Suc m) e"
    show "reads L m e" using that(3,4) m by (intro reads_down [OF up]) linarith+
  qed (rule that(1))
  show ?thesis
  proof (cases "l \<le> expr_level e")
    case True
    with down [OF own True] expr_level_le show ?thesis by blast
  next
    case False
    have "reads L 0 e" using down [OF own] expr_level_le by blast
    then have "reads L 4 e" using False l by (intro reads_parens) auto
    with down [of 4 l] l False show ?thesis by simp
  qed
qed

text \<open>
  The operands on the left spine of a chain of ORs (level 0) or ANDs (level 1) are read by
  iterations of the loop.
\<close>

definition loop_token :: "nat \<Rightarrow> token_type" where
  "loop_token l = (if l = 0 then TokenOR else TokenAND)"

definition loop_op :: "nat \<Rightarrow> string" where
  "loop_op l = (if l = 0 then ''OR'' else ''AND'')"

definition spine :: "cypher_lib \<Rightarrow> nat \<Rightarrow> expr \<Rightarrow> bool" where
  "spine L l e \<longleftrightarrow> (\<forall>n rest. 5 * length (show_at l e) + 5 \<le> Suc n + l \<longrightarrow> stops (Suc l) rest \<longrightarrow>
     (\<exists>k. n \<le> k + length (show_at l e) \<and>
        level_parser L l (Suc n) (show_at l e @ rest) =
        left_loop k (loop_token l) (loop_op l) (level_parser L (Suc l) n) e rest))"

lemma spineE:
  assumes "spine L l e" and "5 * length (show_at l e) + 5 \<le> Suc n + l" and "stops (Suc l) rest"
  obtains k where "n \<le> k + length (show_at l e)"
    and "level_parser L l (Suc n) (show_at l e @ rest) =
      left_loop k (loop_token l) (loop_op l) (level_parser L (Suc l) n) e rest"
  using assms unfolding spine_def by blast

lemma level_parser_loop:
  "l < 2 \<Longrightarrow> level_parser L l (Suc n) = p_bind (level_parser L (Suc l) n)
     (left_loop n (loop_token l) (loop_op l) (level_parser L (Suc l) n))"
  by (cases l) (auto simp: level_parser_def loop_token_def loop_op_def)

lemma spine_reads:
  assumes "reads L (Suc l) e" and "l < 2" and "expr_level e \<noteq> l"
  shows "spine L l e"
  unfolding spine_def
proof (intro allI impI)
  fix n rest
  assume n: "5 * length (show_at l e) + 5 \<le> Suc n + l" and stop: "stops (Suc l) rest"
  have eq: "show_at l e = show_at (Suc l) e"
    using assms(2,3) show_at_eq [of l e] show_at_eq [of "Suc l" e]
      show_at_parens [of e l] show_at_parens [of e "Suc l"]
    by (cases "l < expr_level e") auto
  have "level_parser L (Suc l) n (show_at l e @ rest) = POk e rest"
    unfolding eq using n by (intro readsD [OF assms(1) _ stop]) (simp add: eq)
  then show "\<exists>k. n \<le> k + length (show_at l e) \<and>
      level_parser L l (Suc n) (show_at l e @ rest) =
      left_loop k (loop_token l) (loop_op l) (level_parser L (Suc l) n) e rest"
    by (intro exI [of _ n]) (simp add: level_parser_loop [OF assms(2)] p_bind_run)
qed

lemma reads_spine:
  assumes "spine L l e" and "l < 2"
  shows "reads L l e"
  unfolding reads_def
proof (intro allI impI)
  fix n rest
  assume n: "5 * length (show_at l e) + 5 \<le> n + l" and stop: "stops l rest"
  from n assms(2) obtain m where m: "n = Suc m" by (cases n) auto
  have "stops (Suc l) rest" using stop by (rule stops_mono) simp
  then obtain k where k: "m \<le> k + length (show_at l e)"
    and run: "level_parser L l (Suc m) (show_at l e @ rest) =
      left_loop k (loop_token l) (loop_op l) (level_parser L (Suc l) m) e rest"
    by (rule spineE [OF assms(1) n [unfolded m]])
  from k n m assms(2) obtain j where j: "k = Suc j" by (cases k) auto
  have "tk_type (ppeek rest) \<noteq> loop_token l"
    using stop assms(2) by (auto simp: stops_def continues_def loop_token_def)
  with run show "level_parser L l n (show_at l e @ rest) = POk e rest"
    unfolding m j by (simp add: p_on_skip)
qed

lemma spine_step:
  assumes a: "spine L l a" and b: "reads L (Suc l) b" and l: "l < 2"
  shows "spine L l (BinaryExpr a (loop_op l) b)"
  unfolding spine_def
proof (intro allI impI)
  fix n rest
  let ?e = "BinaryExpr a (loop_op l) b" and ?t = "tk (loop_token l) (loop_op l)"
  assume n: "5 * length (show_at l ?e) + 5 \<le> Suc n + l" and stop: "stops (Suc l) rest"
  have eq: "show_at l ?e = show_at l a @ ?t # show_at (Suc l) b"
    using l by (cases l) (simp_all add: parens_def op_level_def loop_op_def loop_token_def
        left_level_def right_level_def op_type_def numeral_2_eq_2)
  have "stops (Suc l) (?t # show_at (Suc l) b @ rest)"
    using l by (auto simp: stops_def continues_def loop_token_def compare_ops_def)
  moreover have "5 * length (show_at l a) + 5 \<le> Suc n + l" using n unfolding eq by simp
  ultimately obtain k where k: "n \<le> k + length (show_at l a)" and
    run: "level_parser L l (Suc n) (show_at l a @ ?t # show_at (Suc l) b @ rest) =
      left_loop k (loop_token l) (loop_op l) (level_parser L (Suc l) n) a
        (?t # show_at (Suc l) b @ rest)"
    by (elim spineE [OF a, rotated])
  from k n eq l obtain j where j: "k = Suc j" by (cases k) auto
  have "level_parser L (Suc l) n (show_at (Suc l) b @ rest) = POk b rest"
    using n eq by (intro readsD [OF b _ stop]) simp
  with run j have "level_parser L l (Suc n) (show_at l ?e @ rest) =
      left_loop j (loop_token l) (loop_op l) (level_parser L (Suc l) n) ?e rest"
    unfolding eq by (simp add: p_bind_run)
  then show "\<exists>k. n \<le> k + length (show_at l ?e) \<and>
      level_parser L l (Suc n) (show_at l ?e @ rest) =
      left_loop k (loop_token l) (loop_op l) (level_parser L (Suc l) n) ?e rest"
    using k j by (intro exI [of _ j]) (simp only: eq, simp)
qed

text \<open>Argument lists.\<close>

lemma stops_comma_more:
  assumes "stops 0 rest"
  shows "stops 0 (show_more es @ rest)"
  using assms by (cases es) (simp_all add: stops_def continues_def compare_ops_def)

lemma comma_more_reads:
  assumes "list_all (reads L 0) es" and "5 * length (show_more es) + 5 \<le> n"
    and "length (show_more es) < m" and stop: "stops 0 rest" "tk_type (ppeek rest) \<noteq> TokenComma"
  shows "comma_more m (parseOr L n) (show_more es @ rest) = POk es rest"
  using assms(1-3)
proof (induction es arbitrary: m)
  case Nil
  then obtain k where "m = Suc k" by (cases m) auto
  with stop(2) show ?case by (simp add: p_on_skip)
next
  case (Cons e es)
  then obtain k where k: "m = Suc k" by (cases m) auto
  have "parseOr L n (show_at 0 e @ show_more es @ rest) = POk e (show_more es @ rest)"
    using readsD [OF _ _ stops_comma_more [OF stop(1)], of L e n es] Cons.prems by simp
  moreover have "comma_more k (parseOr L n) (show_more es @ rest) = POk es rest"
    using Cons k by simp
  ultimately show ?case by (simp add: k p_bind_run)
qed

section \<open>The round trip\<close>

definition readable :: "cypher_lib \<Rightarrow> expr \<Rightarrow> bool" where
  "readable L e \<longleftrightarrow> (\<forall>l \<le> 4. reads L l e) \<and> spine L 0 e \<and> spine L 1 e"

lemma readable_own:
  assumes "reads L (expr_level e) e" and "2 \<le> expr_level e"
  shows "readable L e"
  unfolding readable_def
  using assms(2) reads_all [OF assms(1)] by (auto intro!: spine_reads)

lemma readable_spine:
  assumes "spine L (expr_level e) e" and "expr_level e < 2"
  shows "readable L e"
proof -
  have all: "reads L l e" if "l \<le> 4" for l
    using reads_all [OF reads_spine [OF assms] that] .
  have "spine L l e" if "l < 2" for l
    using that assms(1) by (cases "l = expr_level e") (auto intro!: spine_reads all)
  with all show ?thesis by (simp add: readable_def)
qed

lemma stops_closing [simp]:
  "stops l (tk TokenRParen s # ts)" "stops l (tk TokenRBracket s # ts)"
  by (simp_all add: stops_def continues_def compare_ops_def)

lemma literal_reads:
  assumes "writable (LiteralExpr v)" and "0 < n"
  shows "parseAtom L n (show_literal v @ rest) = POk (LiteralExpr v) rest"
proof -
  obtain m where n: "n = Suc m" using \<open>0 < n\<close> by (cases n) auto
  show ?thesis
  proof (cases v)
    case (VInt i)
    have range: "int64_min \<le> sint i" "sint i \<le> int64_max"
      using sint_int64_ok [of i] by (simp_all add: int64_ok_def)
    have val: "int_value (tk TokenInt (show_nat (nat j))) = word_of_int j"
      if "0 \<le> j" "j \<le> int64_max" for j
      using parse_int64_show_int [of j] that
      by (simp add: int_value_def show_int_def int64_min_def)
    show ?thesis
    proof (cases "sint i < 0")
      case True
      have "- sint i \<le> int64_max"
        using assms(1) range(1) VInt by (simp add: int64_min_def int64_max_def)
      with True val [of "- sint i"] have "- int_value (tk TokenInt (show_nat (nat (- sint i)))) = i"
        by simp
      with True show ?thesis by (simp add: VInt n show_literal_def parseNegative_def)
    next
      case False
      with val [of "sint i"] range(2) show ?thesis by (simp add: VInt n show_literal_def)
    qed
  qed (use assms in \<open>simp_all add: n show_literal_def\<close>)
qed

lemma args_length: "length (tl (show_more es)) \<le> length (show_more es)"
  by simp

lemma list_reads:
  assumes es: "list_all (reads L 0) es" and "es \<noteq> []"
    and n: "5 * length (show_more es) + 5 \<le> n"
    and stop: "stops 0 rest" "tk_type (ppeek rest) \<noteq> TokenComma"
  shows "comma_list n (parseOr L n) (tl (show_more es) @ rest) = POk es rest"
proof -
  obtain e fs where e: "es = e # fs" using \<open>es \<noteq> []\<close> by (cases es) auto
  have "parseOr L n (show_at 0 e @ show_more fs @ rest) = POk e (show_more fs @ rest)"
    using readsD [OF _ _ stops_comma_more [OF stop(1)], of L e n fs] es n by (simp add: e)
  moreover have "comma_more n (parseOr L n) (show_more fs @ rest) = POk fs rest"
    using comma_more_reads [OF _ _ _ stop, of L fs n n] es n by (simp add: e)
  ultimately show ?thesis by (simp add: e comma_list_def p_bind_run)
qed

lemma show_at_hd:
  "writable e \<Longrightarrow> \<exists>t r. show_at l e = t # r \<and>
     tk_type t \<notin> {TokenStar, TokenRParen, TokenRBracket}"
proof (induction e arbitrary: l)
  case (LiteralExpr v)
  then show ?case by (cases v) (auto simp: show_literal_def)
next
  case (BinaryExpr a op b)
  then obtain t r where "show_at (left_level op) a = t # r"
    "tk_type t \<notin> {TokenStar, TokenRParen, TokenRBracket}" by fastforce
  then show ?case by (simp add: parens_def)
qed (simp_all add: parens_def)

text \<open>The tokens of an argument list.\<close>

definition show_args :: "expr list \<Rightarrow> token list" where
  "show_args es = (case es of StarExpr # r \<Rightarrow> tk TokenStar ''*'' # show_more r
     | _ \<Rightarrow> tl (show_more es))"

lemma show_args_simps:
  "show_args [] = []"
  "show_args (StarExpr # r) = tk TokenStar ''*'' # show_more r"
  "e \<noteq> StarExpr \<Longrightarrow> show_args (e # r) = show_at 0 e @ show_more r"
  by (simp_all add: show_args_def split: expr.split)

lemma args_reads:
  assumes es: "list_all (reads L 0) es" "list_all writable es"
    and n: "5 * length (show_args es) + 5 \<le> n"
  shows "parseArgs n (parseOr L n) (show_args es @ tk TokenRParen '')'' # rest) =
    POk es (tk TokenRParen '')'' # rest)"
proof (cases es)
  case Nil
  then show ?thesis by (simp add: parseArgs_def p_look_def show_args_simps)
next
  case (Cons e fs)
  have len: "length (show_more fs) \<le> length (show_args es)"
    by (cases "e = StarExpr") (simp_all add: Cons show_args_simps)
  have fs: "comma_more n (parseOr L n) (show_more fs @ tk TokenRParen '')'' # rest) =
      POk fs (tk TokenRParen '')'' # rest)"
    using es n len by (intro comma_more_reads) (simp_all add: Cons)
  show ?thesis
  proof (cases "e = StarExpr")
    case True
    with fs show ?thesis by (simp add: Cons parseArgs_def p_look_def p_bind_run show_args_simps)
  next
    case False
    have e: "parseOr L n (show_at 0 e @ show_more fs @ tk TokenRParen '')'' # rest) =
        POk e (show_more fs @ tk TokenRParen '')'' # rest)"
      using readsD [of L 0 e n] es n False by (simp add: Cons stops_comma_more show_args_simps)
    obtain t r where "show_at 0 e = t # r" "tk_type t \<noteq> TokenStar" "tk_type t \<noteq> TokenRParen"
      using show_at_hd [of e 0] es by (auto simp: Cons)
    with fs e False show ?thesis
      by (simp add: Cons parseArgs_def p_look_def p_bind_run show_args_simps)
  qed
qed

lemma named_reads:
  assumes "stops 4 rest"
  shows "parseNamed L n pe (tk TokenIdent x) rest = POk (IdentExpr x) rest"
  using assms by (simp add: parseNamed_def p_on_skip stops_def continues_def)

lemma compare_reads:
  assumes "map_of compare_ops op = Some tt" and "p rest = POk b rest'"
  shows "parseOperator p a (tk tt op # rest) = POk (BinaryExpr a op b) rest'"
  using assms by (auto simp: parseOperator_def Let_def compare_ops_def p_bind_run split: if_splits)

lemma readable_writable:
  "writable e \<Longrightarrow> readable L e"
proof (induction e)
  case (IdentExpr x)
  have "reads L 4 (IdentExpr x)"
    unfolding reads_def
  proof (intro allI impI)
    fix n rest
    assume "5 * length (show_at 4 (IdentExpr x)) + 5 \<le> n + 4" and "stops 4 rest"
    then show "level_parser L 4 n (show_at 4 (IdentExpr x) @ rest) = POk (IdentExpr x) rest"
      by (cases n) (simp_all add: named_reads)
  qed
  then show ?case by (intro readable_own) simp_all
next
  case (PropertyExpr x p)
  have "reads L 4 (PropertyExpr x p)"
    unfolding reads_def
  proof (intro allI impI)
    fix n and rest :: "token list"
    assume "5 * length (show_at 4 (PropertyExpr x p)) + 5 \<le> n + 4"
    then show "level_parser L 4 n (show_at 4 (PropertyExpr x p) @ rest) = POk (PropertyExpr x p) rest"
      by (cases n) (simp_all add: parseNamed_def p_bind_run)
  qed
  then show ?case by (intro readable_own) simp_all
next
  case (LiteralExpr v)
  then have "reads L 4 (LiteralExpr v)"
    unfolding reads_def by (auto intro!: literal_reads simp del: writable.simps)
  then show ?case by (intro readable_own) simp_all
next
  case (ParamExpr x)
  have "reads L 4 (ParamExpr x)"
    unfolding reads_def
  proof (intro allI impI)
    fix n and rest :: "token list"
    assume "5 * length (show_at 4 (ParamExpr x)) + 5 \<le> n + 4"
    then show "level_parser L 4 n (show_at 4 (ParamExpr x) @ rest) = POk (ParamExpr x) rest"
      by (cases n) simp_all
  qed
  then show ?case by (intro readable_own) simp_all
next
  case (BinaryExpr a op b)
  then have a: "readable L a" and b: "readable L b" and
    op: "op = ''OR'' \<or> op = ''AND'' \<or> op \<in> set (map fst compare_ops)" by simp_all
  have loop: "readable L (BinaryExpr a (loop_op l) b)" if "l < 2" for l
  proof -
    have "spine L l a" "reads L (Suc l) b" using a b that by (auto simp: readable_def less_2_cases_iff)
    then have "spine L l (BinaryExpr a (loop_op l) b)" using that by (rule spine_step)
    moreover have "op_level (loop_op l) = l" using that by (auto simp: op_level_def loop_op_def)
    ultimately show ?thesis using that by (intro readable_spine) simp_all
  qed
  show ?case
  proof (cases "op = ''OR'' \<or> op = ''AND''")
    case True
    then show ?thesis using loop [of 0] loop [of 1] by (auto simp: loop_op_def)
  next
    case False
    with op obtain tt where tt: "map_of compare_ops op = Some tt"
      using map_of_eq_None_iff [of compare_ops op] by auto
    have lv: "op_level op = 3" "left_level op = 4" "right_level op = 4" "op_type op = tt"
      using False tt by (simp_all add: op_level_def left_level_def right_level_def op_type_def)
    have "reads L 3 (BinaryExpr a op b)"
      unfolding reads_def
    proof (intro allI impI)
      fix n rest
      assume n: "5 * length (show_at 3 (BinaryExpr a op b)) + 5 \<le> n + 3" and stop: "stops 3 rest"
      then obtain m where m: "n = Suc m" by (cases n) auto
      have "stops 4 (tk tt op # show_at 4 b @ rest)"
        using tt by (auto simp: stops_def continues_def compare_ops_def split: if_splits)
      then have "parseAtom L m (show_at 4 a @ tk tt op # show_at 4 b @ rest) =
          POk a (tk tt op # show_at 4 b @ rest)"
        using readsD [of L 4 a m] a n m by (simp add: readable_def lv parens_def)
      moreover have "parseAtom L m (show_at 4 b @ rest) = POk b rest"
        using readsD [of L 4 b m rest] b n m stops_mono [OF stop, of 4]
        by (simp add: readable_def lv parens_def)
      ultimately show "level_parser L 3 n (show_at 3 (BinaryExpr a op b) @ rest) =
          POk (BinaryExpr a op b) rest"
        by (simp add: m lv parens_def p_bind_run compare_reads [OF tt])
    qed
    then show ?thesis by (intro readable_own) (simp_all add: lv)
  qed
next
  case (UnaryExpr op a)
  then have a: "reads L 3 a" and op: "op = ''NOT''" by (simp_all add: readable_def)
  have "reads L 2 (UnaryExpr op a)"
    unfolding reads_def
  proof (intro allI impI)
    fix n rest
    assume n: "5 * length (show_at 2 (UnaryExpr op a)) + 5 \<le> n + 2" and stop: "stops 2 rest"
    then obtain m where m: "n = Suc m" by (cases n) auto
    have "parseComparison L m (show_at 3 a @ rest) = POk a rest"
      using readsD [OF a, of m rest] n m stops_mono [OF stop, of 3] by (simp add: parens_def)
    then show "level_parser L 2 n (show_at 2 (UnaryExpr op a) @ rest) = POk (UnaryExpr op a) rest"
      by (simp add: m op parens_def p_bind_run)
  qed
  then show ?case by (intro readable_own) simp_all
next
  case (FuncCallExpr f es)
  then have es: "list_all (reads L 0) es" "list_all writable es"
    by (auto simp: list_all_iff readable_def)
  have shown: "show_at l (FuncCallExpr f es) =
      tk TokenIdent f # tk TokenLParen ''('' # show_args es @ [tk TokenRParen '')'']" for l
    by (simp add: show_args_def)
  have "reads L 4 (FuncCallExpr f es)"
    unfolding reads_def
  proof (intro allI impI)
    fix n rest
    assume n: "5 * length (show_at 4 (FuncCallExpr f es)) + 5 \<le> n + 4"
    then obtain m where m: "n = Suc m" by (cases n) auto
    have "5 * length (show_args es) + 5 \<le> m" using n m unfolding shown by simp
    from args_reads [OF es this, of rest]
    show "level_parser L 4 n (show_at 4 (FuncCallExpr f es) @ rest) = POk (FuncCallExpr f es) rest"
      unfolding shown by (simp add: m parseNamed_def p_bind_run)
  qed
  then show ?case by (intro readable_own) simp_all
next
  case StarExpr
  have "reads L 4 StarExpr"
    unfolding reads_def
  proof (intro allI impI)
    fix n rest
    assume n: "5 * length (show_at 4 StarExpr) + 5 \<le> n + 4"
    then have "\<exists>m. n = Suc (Suc (Suc (Suc (Suc (Suc (Suc m))))))"
      by (simp add: parens_def) presburger
    then obtain m where m: "n = Suc (Suc (Suc (Suc (Suc (Suc (Suc m))))))" by blast
    have "parseOr L (Suc (Suc (Suc (Suc (Suc (Suc m))))))
        (tk TokenStar ''*'' # tk TokenRParen '')'' # rest) = POk StarExpr (tk TokenRParen '')'' # rest)"
      by (simp add: p_bind_run parseOperator_def)
    then show "level_parser L 4 n (show_at 4 StarExpr @ rest) = POk StarExpr rest"
      by (simp add: m parens_def p_bind_run del: parseOr.simps)
  qed
  then show ?case by (intro readable_own) simp_all
next
  case (ListExpr es)
  then have es: "list_all (reads L 0) es" "list_all writable es"
    by (auto simp: list_all_iff readable_def)
  have "reads L 4 (ListExpr es)"
    unfolding reads_def
  proof (intro allI impI)
    fix n rest
    assume n: "5 * length (show_at 4 (ListExpr es)) + 5 \<le> n + 4"
    then obtain m where m: "n = Suc m" by (cases n) auto
    let ?rest = "tk TokenRBracket '']'' # rest"
    have "p_look (\<lambda>t. if tk_type t = TokenRBracket then p_ret [] else comma_list m (parseOr L m))
        (tl (show_more es) @ ?rest) = POk es ?rest"
    proof (cases es)
      case Nil
      then show ?thesis by (simp add: p_look_def)
    next
      case (Cons e fs)
      then obtain t r where "show_at 0 e = t # r" "tk_type t \<noteq> TokenRBracket"
        using show_at_hd [of e 0] es by auto
      moreover have "comma_list m (parseOr L m) (tl (show_more es) @ ?rest) = POk es ?rest"
        using n m by (intro list_reads es) (simp_all add: Cons)
      ultimately show ?thesis by (simp add: p_look_def Cons)
    qed
    then show "level_parser L 4 n (show_at 4 (ListExpr es) @ rest) = POk (ListExpr es) rest"
      by (simp add: m parseListLiteral_def p_bind_run)
  qed
  then show ?case by (intro readable_own) simp_all
qed

end
