(* ===== verification/Cypher_Planner.thy ===== *)
theory Cypher_Planner
  imports Cypher_Parser_Laws
begin

text \<open>
  internal/query/plan.go and planner.go: execution plans, and the translation of a statement
  into one. An index out of the range of a pattern's nodes panics; statements the parser
  builds never get there.
\<close>

section \<open>Plans\<close>

datatype plan_node =
    ScanByLabel string string "(string \<times> expr) list option"
  | ExpandOut plan_node string string string string string
  | ExpandIn plan_node string string string string string
  | Filter plan_node expr
  | Project plan_node "return_item list"
  | Sort plan_node "order_item list"
  | LimitOffset plan_node "int option" "int option"
  | CreateNodePlan string string "(string \<times> expr) list option"
  | CreateEdgePlan string string string
  | MergeNodePlan string string "(string \<times> expr) list option"
  | SetPropertyPlan plan_node "set_item list"
  | DeletePlan plan_node "string list"
  | ProcedureCallPlan string "expr list" "string list"

section \<open>Planning\<close>

text \<open>
  The chain of expansions of \<open>planMatch\<close>: the nodes from the current source on, and the
  edges that are left.
\<close>

fun expand_chain :: "node_pattern list \<Rightarrow> edge_pattern list \<Rightarrow> plan_node \<Rightarrow> plan_node outcome" where
  "expand_chain nodes [] cur = Ok cur"
| "expand_chain (src # dest # ns) (e # es) cur = expand_chain (dest # ns) es
     (if ep_direction e = EdgeLeft
      then ExpandIn cur (np_variable src) (ep_variable e) (ep_label e) (np_variable dest)
             (np_label dest)
      else ExpandOut cur (np_variable src) (ep_variable e) (ep_label e) (np_variable dest)
             (np_label dest))"
| "expand_chain _ (e # es) cur = Panic"

definition planMatch :: "pattern list \<Rightarrow> plan_node outcome" where
  "planMatch ps = (case ps of
       [] \<Rightarrow> Err (Msg ''MATCH without patterns'')
     | pat # _ \<Rightarrow> (case pt_nodes pat of
           [] \<Rightarrow> Err (Msg ''pattern without nodes'')
         | np # _ \<Rightarrow> expand_chain (pt_nodes pat) (pt_edges pat)
             (ScanByLabel (np_variable np) (np_label np) (np_props np))))"

definition planCreate :: "pattern list \<Rightarrow> plan_node outcome" where
  "planCreate ps = (case ps of
       [] \<Rightarrow> Err (Msg ''CREATE without patterns'')
     | pat # _ \<Rightarrow>
         (if pt_edges pat = [] then (case pt_nodes pat of
             [] \<Rightarrow> Panic
           | np # _ \<Rightarrow> Ok (CreateNodePlan (np_variable np) (np_label np) (np_props np)))
          else (case (pt_edges pat, pt_nodes pat) of
             ([e], [a, b]) \<Rightarrow> Ok (CreateEdgePlan (np_variable a) (np_variable b) (ep_label e))
           | _ \<Rightarrow> Err (Msg ''complex CREATE patterns not yet supported''))))"

definition planMerge :: "pattern \<Rightarrow> plan_node outcome" where
  "planMerge p = (case pt_nodes p of
       [] \<Rightarrow> Panic
     | np # _ \<Rightarrow> Ok (MergeNodePlan (np_variable np) (np_label np) (np_props np)))"

definition planReturn :: "return_clause \<Rightarrow> plan_node \<Rightarrow> plan_node" where
  "planReturn rc cur =
     (let sorted = (if rc_order_by rc \<noteq> [] then Sort cur (rc_order_by rc) else cur);
          projected = Project sorted (rc_items rc) in
      if rc_limit rc \<noteq> None \<or> rc_skip rc \<noteq> None
      then LimitOffset projected (rc_limit rc) (rc_skip rc) else projected)"

definition on_source :: "string \<Rightarrow> plan_node option \<Rightarrow> (plan_node \<Rightarrow> plan_node) \<Rightarrow>
    plan_node outcome" where
  "on_source msg cur f = (case cur of None \<Rightarrow> Err (Msg msg) | Some p \<Rightarrow> Ok (f p))"

definition plan_clause :: "clause \<Rightarrow> plan_node option \<Rightarrow> plan_node outcome" where
  "plan_clause c cur = (case c of
       MatchClause ps \<Rightarrow> planMatch ps
     | WhereClause e \<Rightarrow> on_source ''WHERE without preceding MATCH'' cur (\<lambda>p. Filter p e)
     | ReturnClause rc \<Rightarrow> on_source ''RETURN without preceding clause'' cur (planReturn rc)
     | CreateClause ps \<Rightarrow> planCreate ps
     | MergeClause p \<Rightarrow> planMerge p
     | SetClause items \<Rightarrow>
         on_source ''SET without preceding clause'' cur (\<lambda>p. SetPropertyPlan p items)
     | DeleteClause vars \<Rightarrow>
         on_source ''DELETE without preceding clause'' cur (\<lambda>p. DeletePlan p vars)
     | CallClause proc args yields \<Rightarrow> Ok (ProcedureCallPlan proc args yields))"

fun plan_clauses :: "clause list \<Rightarrow> plan_node option \<Rightarrow> plan_node outcome" where
  "plan_clauses [] cur = (case cur of None \<Rightarrow> Err (Msg ''empty plan'') | Some p \<Rightarrow> Ok p)"
| "plan_clauses (c # cs) cur = (case plan_clause c cur of
       Ok p \<Rightarrow> plan_clauses cs (Some p) | Err e \<Rightarrow> Err e | Panic \<Rightarrow> Panic)"

definition Plan :: "statement \<Rightarrow> plan_node outcome" where
  "Plan stmt = plan_clauses stmt None"

section \<open>Plans of parsed statements\<close>

text \<open>
  Labels and property maps of a plan are those of the patterns; counts are not negative.
\<close>

fun plan_ok :: "plan_node \<Rightarrow> bool" where
  "plan_ok (ScanByLabel v l ps) \<longleftrightarrow> colon_free l"
| "plan_ok (ExpandOut p s ev el dv dl) \<longleftrightarrow> plan_ok p"
| "plan_ok (ExpandIn p s ev el dv dl) \<longleftrightarrow> plan_ok p"
| "plan_ok (Filter p e) \<longleftrightarrow> plan_ok p"
| "plan_ok (Project p is) \<longleftrightarrow> plan_ok p"
| "plan_ok (Sort p is) \<longleftrightarrow> plan_ok p"
| "plan_ok (LimitOffset p l s) \<longleftrightarrow> plan_ok p \<and> count_ok l \<and> count_ok s"
| "plan_ok (CreateNodePlan v l ps) \<longleftrightarrow> colon_free l \<and> (\<forall>q. ps = Some q \<longrightarrow> distinct (map fst q))"
| "plan_ok (CreateEdgePlan a b l) \<longleftrightarrow> colon_free l"
| "plan_ok (MergeNodePlan v l ps) \<longleftrightarrow> colon_free l \<and> (\<forall>q. ps = Some q \<longrightarrow> distinct (map fst q))"
| "plan_ok (SetPropertyPlan p is) \<longleftrightarrow> plan_ok p"
| "plan_ok (DeletePlan p vs) \<longleftrightarrow> plan_ok p"
| "plan_ok (ProcedureCallPlan f args ys) \<longleftrightarrow> True"

definition planned :: "plan_node outcome \<Rightarrow> bool" where
  "planned r \<longleftrightarrow> r \<noteq> Panic \<and> (\<forall>p. r = Ok p \<longrightarrow> plan_ok p)"

lemma expand_chain_planned:
  "length nodes = Suc (length es) \<Longrightarrow> plan_ok cur \<Longrightarrow> planned (expand_chain nodes es cur)"
  by (induction nodes es cur rule: expand_chain.induct) (auto simp: planned_def)

lemma plan_clause_planned:
  assumes "clause_ok c" and "\<And>p. cur = Some p \<Longrightarrow> plan_ok p"
  shows "planned (plan_clause c cur)"
proof (cases c)
  case (MatchClause ps)
  with assms(1) obtain pat qs where ps: "ps = pat # qs" "pattern_ok pat" by (cases ps) auto
  then obtain np ns where ns: "pt_nodes pat = np # ns" by (cases "pt_nodes pat") (auto simp: pattern_ok_def)
  with ps have "planned (expand_chain (pt_nodes pat) (pt_edges pat)
      (ScanByLabel (np_variable np) (np_label np) (np_props np)))"
    by (intro expand_chain_planned) (auto simp: pattern_ok_def node_pattern_ok_def)
  with ps ns MatchClause show ?thesis by (simp add: plan_clause_def planMatch_def)
next
  case (CreateClause ps)
  with assms(1) obtain pat qs where ps: "ps = pat # qs" "pattern_ok pat" by (cases ps) auto
  then show ?thesis using CreateClause
    by (auto simp: plan_clause_def planCreate_def planned_def pattern_ok_def node_pattern_ok_def
        split: list.splits)
next
  case (MergeClause p)
  with assms(1) show ?thesis
    by (auto simp: plan_clause_def planMerge_def planned_def pattern_ok_def node_pattern_ok_def
        split: list.splits)
qed (use assms in \<open>auto simp: plan_clause_def on_source_def planned_def planReturn_def Let_def
      split: option.splits\<close>)

lemma plan_clauses_planned:
  "list_all clause_ok cs \<Longrightarrow> (\<And>p. cur = Some p \<Longrightarrow> plan_ok p) \<Longrightarrow> planned (plan_clauses cs cur)"
proof (induction cs arbitrary: cur)
  case Nil
  then show ?case by (auto simp: planned_def split: option.splits)
next
  case (Cons c cs)
  then have c: "planned (plan_clause c cur)" by (intro plan_clause_planned) auto
  with Cons show ?case
    by (cases "plan_clause c cur") (auto simp: planned_def)
qed

lemma Plan_planned: "statement_ok stmt \<Longrightarrow> planned (Plan stmt)"
  unfolding Plan_def statement_ok_def by (intro plan_clauses_planned) auto

lemma Plan_Parse: "Parse L input = Ok stmt \<Longrightarrow> planned (Plan stmt)"
  by (rule Plan_planned) (rule Parse_ok)

end
