(* ===== verification/Go_Time.thy ===== *)
theory Go_Time
  imports Go_Text
begin

text \<open>
  \<open>time.Time\<close> as nanoseconds since 1970 in UTC, and its RFC 3339 text, which the query
  results carry. The calendar is the proleptic Gregorian one, counted in eras of 400 years
  that start on the first of March.
\<close>

definition civil_of_days :: "int \<Rightarrow> int \<times> int \<times> int" where
  "civil_of_days d =
     (let z = d + 719468;
          era = z div 146097;
          doe = z mod 146097;
          yoe = (doe - doe div 1460 + doe div 36524 - doe div 146096) div 365;
          doy = doe - (365 * yoe + yoe div 4 - yoe div 100);
          mp = (5 * doy + 2) div 153;
          day = doy - (153 * mp + 2) div 5 + 1;
          month = (if mp < 10 then mp + 3 else mp - 9) in
      (yoe + era * 400 + (if month \<le> 2 then 1 else 0), month, day))"

definition pad_int :: "nat \<Rightarrow> int \<Rightarrow> string" where
  "pad_int w i = (let ds = show_nat (nat \<bar>i\<bar>) in
     (if i < 0 then ''-'' else '''') @ replicate (w - length ds) CHR ''0'' @ ds)"

definition rfc3339 :: "int \<Rightarrow> string" where
  "rfc3339 t =
     (let secs = t div 10 ^ 9; (y, m, d) = civil_of_days (secs div 86400);
          s = secs mod 86400 in
      pad_int 4 y @ ''-'' @ pad_int 2 m @ ''-'' @ pad_int 2 d @ ''T'' @
      pad_int 2 (s div 3600) @ '':'' @ pad_int 2 (s div 60 mod 60) @ '':'' @
      pad_int 2 (s mod 60) @ ''Z'')"

text \<open>\<open>t.IsZero()\<close>: the first instant of the year 1.\<close>

definition zero_time :: int where
  "zero_time = - 62135596800 * 10 ^ 9"

definition formatTime :: "int \<Rightarrow> string" where
  "formatTime t = (if t = zero_time then [] else rfc3339 t)"

lemma rfc3339_examples:
  "rfc3339 0 = ''1970-01-01T00:00:00Z''"
  "rfc3339 (951782400 * 10 ^ 9 + 5) = ''2000-02-29T00:00:00Z''"
  "rfc3339 (1767225599 * 10 ^ 9) = ''2025-12-31T23:59:59Z''"
  by code_simp+

end
