(* ===== verification/Cypher_Executor.thy ===== *)
theory Cypher_Executor
  imports Cypher_Planner Graph_Engine Query_Result Go_Time
begin

text \<open>
  internal/query/executor.go, procedure.go and result.go: the execution of plans on the
  graph. A call returns a result set or an error and changes the graph; the executor's own
  fields do not change after \<open>NewExecutor\<close> and are arguments. A map ranges in the order of
  its association list.
\<close>

section \<open>Evaluation of expressions\<close>

text \<open>\<open>v.(map[string]any)\<close>: a nil map has the type too, and reads as empty.\<close>

definition as_map :: "gval \<Rightarrow> row option" where
  "as_map v = (case v of VMap m \<Rightarrow> Some m | VNilMap \<Rightarrow> Some [] | _ \<Rightarrow> None)"

fun evalExpr :: "expr \<Rightarrow> row option \<Rightarrow> row option \<Rightarrow> gval" where
  "evalExpr (LiteralExpr v) row params = v"
| "evalExpr (IdentExpr x) row params = (case row of None \<Rightarrow> VNil | Some r \<Rightarrow> row_get r x)"
| "evalExpr (PropertyExpr x p) row params = (case row of
       None \<Rightarrow> VNil
     | Some r \<Rightarrow> (case as_map (row_get r x) of
           None \<Rightarrow> VNil
         | Some m \<Rightarrow> (case as_map (row_get m ''properties'') of
               None \<Rightarrow> VNil
             | Some ps \<Rightarrow> row_get ps p)))"
| "evalExpr (ParamExpr x) row params = (case params of None \<Rightarrow> VNil | Some ps \<Rightarrow> row_get ps x)"
| "evalExpr StarExpr row params = VStr ''*''"
| "evalExpr (ListExpr es) row params =
     (if es = [] then VNilList else VList (map (\<lambda>e. evalExpr e row params) es))"
| "evalExpr _ row params = VNil"

definition compareValues :: "gofmt \<Rightarrow> gval \<Rightarrow> gval \<Rightarrow> int" where
  "compareValues F a b =
     (if sprint F a < sprint F b then - 1 else if sprint F b < sprint F a then 1 else 0)"

text \<open>\<open>strings.Contains\<close>.\<close>

definition str_contains :: "string \<Rightarrow> string \<Rightarrow> bool" where
  "str_contains s t \<longleftrightarrow> list_ex (has_prefix t) (suffixes s)"

definition in_list :: "gofmt \<Rightarrow> gval \<Rightarrow> gval \<Rightarrow> bool" where
  "in_list F l r = (case r of VList vs \<Rightarrow> list_ex (\<lambda>v. sprint F l = sprint F v) vs | _ \<Rightarrow> False)"

fun evalBool :: "gofmt \<Rightarrow> expr \<Rightarrow> row option \<Rightarrow> row option \<Rightarrow> bool" where
  "evalBool F (BinaryExpr a op b) row params =
     (let l = evalExpr a row params; r = evalExpr b row params in
      if op = ''AND'' then evalBool F a row params \<and> evalBool F b row params
      else if op = ''OR'' then evalBool F a row params \<or> evalBool F b row params
      else if op = ''='' then sprint F l = sprint F r
      else if op = ''<>'' then sprint F l \<noteq> sprint F r
      else if op = ''<'' then compareValues F l r < 0
      else if op = ''>'' then compareValues F l r > 0
      else if op = ''<='' then compareValues F l r \<le> 0
      else if op = ''>='' then compareValues F l r \<ge> 0
      else if op = ''CONTAINS'' then str_contains (sprint F l) (sprint F r)
      else if op = ''IN'' then in_list F l r
      else False)"
| "evalBool F (UnaryExpr op e) row params =
     (if op = ''NOT'' then \<not> evalBool F e row params else False)"
| "evalBool F (LiteralExpr v) row params = (v = VBool True)"
| "evalBool F _ row params = False"

definition matchProps :: "gofmt \<Rightarrow> props option \<Rightarrow> (string \<times> expr) list \<Rightarrow> bool" where
  "matchProps F nodeProps filterProps \<longleftrightarrow> list_all (\<lambda>(k, e). case e of
       LiteralExpr v \<Rightarrow> sprint F (row_get (prop_list nodeProps) k) = sprint F v
     | _ \<Rightarrow> True) filterProps"

definition matchPropsExact :: "gofmt \<Rightarrow> props option \<Rightarrow> props \<Rightarrow> bool" where
  "matchPropsExact F nodeProps ps \<longleftrightarrow>
     list_all (\<lambda>(k, v). sprint F (row_get (prop_list nodeProps) k) = sprint F v) ps"

section \<open>Rows\<close>

definition props_value :: "props option \<Rightarrow> gval" where
  "props_value p = (case p of None \<Rightarrow> VNilMap | Some m \<Rightarrow> VMap m)"

definition nodeToMap :: "node \<Rightarrow> gval" where
  "nodeToMap n = VMap [(''id'', VStr (n_id n)), (''label'', VStr (n_label n)),
     (''properties'', props_value (n_props n)), (''createdAt'', VStr (formatTime (n_created n)))]"

definition edgeToMap :: "edge \<Rightarrow> gval" where
  "edgeToMap e = VMap [(''id'', VStr (e_id e)), (''label'', VStr (e_label e)),
     (''fromId'', VStr (e_from e)), (''toId'', VStr (e_to e)),
     (''properties'', props_value (e_props e)), (''createdAt'', VStr (formatTime (e_created e)))]"

definition exprName :: "return_item \<Rightarrow> string" where
  "exprName item = (if ri_alias item \<noteq> [] then ri_alias item else case ri_expr item of
       IdentExpr x \<Rightarrow> x
     | PropertyExpr x p \<Rightarrow> x @ ''.'' @ p
     | FuncCallExpr f _ \<Rightarrow> f @ ''(*)''
     | StarExpr \<Rightarrow> ''*''
     | _ \<Rightarrow> ''?'')"

text \<open>\<open>strings.ToLower\<close> as far as a comparison with \<open>count\<close> can tell.\<close>

definition lower_char :: "char \<Rightarrow> char" where
  "lower_char c = (let n = of_char c :: nat in
     if 65 \<le> n \<and> n \<le> 90 then char_of (n + 32) else c)"

definition is_count :: "expr \<Rightarrow> bool" where
  "is_count e = (case e of FuncCallExpr f _ \<Rightarrow> map lower_char f = ''count'' | _ \<Rightarrow> False)"

definition rows_of :: "string list \<Rightarrow> row list \<Rightarrow> result_set" where
  "rows_of cols rs = \<lparr>rs_columns = cols, rs_rows = rs\<rparr>"

section \<open>The executor\<close>

text \<open>A procedure gets its arguments and runs on the graph.\<close>

type_synonym 's procedure = "gval list \<Rightarrow> ('s graph, result_set) go"

record 's executor_env =
  ex_storage :: "'s storage_ops"
  ex_indexed :: bool
  ex_fmt :: gofmt
  ex_lib :: cypher_lib
  ex_procs :: "(string \<times> 's procedure) list"

definition Register :: "string \<Rightarrow> 's procedure \<Rightarrow> (string \<times> 's procedure) list \<Rightarrow>
    (string \<times> 's procedure) list" where
  "Register name fn procs = AList.update name fn procs"

definition Call :: "(string \<times> 's procedure) list \<Rightarrow> string \<Rightarrow> 's procedure" where
  "Call procs name args = (case map_of procs name of
       None \<Rightarrow> go_raise (Msg (''unknown procedure: '' @ name))
     | Some fn \<Rightarrow> fn args)"

definition execScan :: "'s executor_env \<Rightarrow> string \<Rightarrow> string \<Rightarrow> (string \<times> expr) list option \<Rightarrow>
    ('s graph, result_set) go" where
  "execScan E v label ps =
     go_bind (graph_NodesByLabel (ex_storage E) label) (\<lambda>nodes.
     go_ret (rows_of [v] (map (\<lambda>n. [(v, nodeToMap n)])
       (filter (\<lambda>n. case ps of None \<Rightarrow> True
          | Some q \<Rightarrow> q = [] \<or> matchProps (ex_fmt E) (n_props n) q) nodes))))"

text \<open>
  The loop of \<open>execExpandOut\<close> and \<open>execExpandIn\<close> over the edges of one row: the edge and the
  node at its other end, each skipped when it cannot be read or has another label.
\<close>

definition expand_edge :: "'s executor_env \<Rightarrow> (edge \<Rightarrow> string) \<Rightarrow> row \<Rightarrow> string \<Rightarrow> string \<Rightarrow>
    string \<Rightarrow> string \<Rightarrow> string \<Rightarrow> ('s graph, row list) go" where
  "expand_edge E far row edgeVar edgeLabel destVar destLabel eid =
     go_bind (go_try (graph_GetEdge (ex_storage E) eid)) (\<lambda>r. case r of
       Inl _ \<Rightarrow> go_ret []
     | Inr e \<Rightarrow>
        if edgeLabel \<noteq> [] \<and> e_label e \<noteq> edgeLabel then go_ret []
        else go_bind (go_try (graph_GetNode (ex_storage E) (far e))) (\<lambda>d. case d of
            Inl _ \<Rightarrow> go_ret []
          | Inr n \<Rightarrow>
             if destLabel \<noteq> [] \<and> n_label n \<noteq> destLabel then go_ret []
             else go_ret [AList.update destVar (nodeToMap n)
               (if edgeVar \<noteq> [] then AList.update edgeVar (edgeToMap e) row else row)]))"

definition expand_row :: "'s executor_env \<Rightarrow> (string \<Rightarrow> ('s, string list) go) \<Rightarrow>
    (edge \<Rightarrow> string) \<Rightarrow> string \<Rightarrow> string \<Rightarrow> string \<Rightarrow> string \<Rightarrow> string \<Rightarrow> row \<Rightarrow>
    ('s graph, row list) go" where
  "expand_row E ids far srcVar edgeVar edgeLabel destVar destLabel row =
     (case as_map (row_get row srcVar) of
        None \<Rightarrow> go_ret []
      | Some m \<Rightarrow>
          go_bind (if ex_indexed E
            then go_try (on_store (ids (sprint (ex_fmt E) (row_get m ''id''))))
            else go_ret (Inr [])) (\<lambda>r.
          go_collect (case r of Inl _ \<Rightarrow> [] | Inr l \<Rightarrow> l)
            (expand_edge E far row edgeVar edgeLabel destVar destLabel)))"

definition execExpand :: "'s executor_env \<Rightarrow> (string \<Rightarrow> ('s, string list) go) \<Rightarrow>
    (edge \<Rightarrow> string) \<Rightarrow> string \<Rightarrow> string \<Rightarrow> string \<Rightarrow> string \<Rightarrow> string \<Rightarrow> result_set \<Rightarrow>
    ('s graph, result_set) go" where
  "execExpand E ids far srcVar edgeVar edgeLabel destVar destLabel source =
     go_bind (go_collect (rs_rows source)
         (expand_row E ids far srcVar edgeVar edgeLabel destVar destLabel)) (\<lambda>rows.
     go_ret (rows_of (case rows of [] \<Rightarrow> [] | r # _ \<Rightarrow> map fst r) rows))"

definition execExpandOut :: "'s executor_env \<Rightarrow> string \<Rightarrow> string \<Rightarrow> string \<Rightarrow> string \<Rightarrow> string \<Rightarrow>
    result_set \<Rightarrow> ('s graph, result_set) go" where
  "execExpandOut E = execExpand E (st_out_ids (ex_storage E)) e_to"

definition execExpandIn :: "'s executor_env \<Rightarrow> string \<Rightarrow> string \<Rightarrow> string \<Rightarrow> string \<Rightarrow> string \<Rightarrow>
    result_set \<Rightarrow> ('s graph, result_set) go" where
  "execExpandIn E = execExpand E (st_in_ids (ex_storage E)) e_from"

definition execFilter :: "gofmt \<Rightarrow> expr \<Rightarrow> row option \<Rightarrow> result_set \<Rightarrow> result_set" where
  "execFilter F e params source =
     rows_of (rs_columns source) (filter (\<lambda>r. evalBool F e (Some r) params) (rs_rows source))"

definition execProject :: "return_item list \<Rightarrow> row option \<Rightarrow> result_set \<Rightarrow> result_set" where
  "execProject items params source =
     (case find (\<lambda>i. is_count (ri_expr i)) items of
        Some i \<Rightarrow>
          let col = (if ri_alias i \<noteq> [] then ri_alias i else ''count(*)'') in
          rows_of [col] [[(col, VInt (of_nat (length (rs_rows source))))]]
      | None \<Rightarrow> rows_of (map exprName items)
          (map (\<lambda>r. foldl (\<lambda>new i.
              AList.update (exprName i) (evalExpr (ri_expr i) (Some r) params) new) [] items)
            (rs_rows source)))"

text \<open>The \<open>less\<close> function of \<open>execSort\<close>: the first key that differs decides.\<close>

fun row_less :: "gofmt \<Rightarrow> row option \<Rightarrow> order_item list \<Rightarrow> row \<Rightarrow> row \<Rightarrow> bool" where
  "row_less F params [] r s = False"
| "row_less F params (i # is) r s =
     (let cmp = compareValues F (evalExpr (oi_expr i) (Some r) params)
                  (evalExpr (oi_expr i) (Some s) params) in
      if cmp = 0 then row_less F params is r s
      else if oi_desc i then cmp > 0 else cmp < 0)"

definition execSort :: "gofmt \<Rightarrow> order_item list \<Rightarrow> row option \<Rightarrow> result_set \<Rightarrow> result_set" where
  "execSort F items params source =
     source\<lparr>rs_rows := sort_by (row_less F params items) (rs_rows source)\<rparr>"

text \<open>\<open>rows[start:]\<close> and \<open>rows[:limit]\<close> panic on a negative bound.\<close>

definition execLimitOffset :: "int option \<Rightarrow> int option \<Rightarrow> result_set \<Rightarrow>
    ('x, result_set) go" where
  "execLimitOffset limit skip source =
     (let len = int (length (rs_rows source));
          start = (case skip of None \<Rightarrow> 0 | Some s \<Rightarrow> s);
          start' = (if start > len then len else start) in
      if start' < 0 then go_panic
      else let rows = drop (nat start') (rs_rows source) in
        (case limit of
           Some l \<Rightarrow> if l < int (length rows)
             then (if l < 0 then go_panic else go_ret (source\<lparr>rs_rows := take (nat l) rows\<rparr>))
             else go_ret (source\<lparr>rs_rows := rows\<rparr>)
         | None \<Rightarrow> go_ret (source\<lparr>rs_rows := rows\<rparr>)))"

text \<open>The property map a CREATE or MERGE pattern denotes; there is no row to refer to.\<close>

definition eval_props :: "(string \<times> expr) list option \<Rightarrow> row option \<Rightarrow> props" where
  "eval_props ps params =
     map (\<lambda>(k, e). (k, evalExpr e None params)) (case ps of None \<Rightarrow> [] | Some q \<Rightarrow> q)"

definition node_result :: "string \<Rightarrow> node \<Rightarrow> result_set" where
  "node_result v n = (let col = (if v = [] then ''node'' else v) in
     rows_of [col] [[(col, nodeToMap n)]])"

definition execCreateNode :: "'s executor_env \<Rightarrow> string \<Rightarrow> string \<Rightarrow>
    (string \<times> expr) list option \<Rightarrow> row option \<Rightarrow> ('s graph, result_set) go" where
  "execCreateNode E v label ps params =
     go_bind (CreateNode (ex_storage E) label (Some (eval_props ps params))) (\<lambda>n.
     go_ret (node_result v n))"

definition execCreateEdge :: "'s executor_env \<Rightarrow> string \<Rightarrow> string \<Rightarrow> string \<Rightarrow>
    ('s graph, result_set) go" where
  "execCreateEdge E srcVar destVar label =
     go_bind (CreateEdge (ex_storage E) label srcVar destVar None) (\<lambda>e.
     go_ret (rows_of [''edge''] [[(''edge'', edgeToMap e)]]))"

definition execMergeNode :: "'s executor_env \<Rightarrow> string \<Rightarrow> string \<Rightarrow>
    (string \<times> expr) list option \<Rightarrow> row option \<Rightarrow> ('s graph, result_set) go" where
  "execMergeNode E v label ps params =
     (let props = eval_props ps params in
      go_bind (graph_NodesByLabel (ex_storage E) label) (\<lambda>nodes.
      case find (\<lambda>n. matchPropsExact (ex_fmt E) (n_props n) props) nodes of
        Some n \<Rightarrow> go_ret (node_result v n)
      | None \<Rightarrow>
          go_bind (CreateNode (ex_storage E) label (Some props)) (\<lambda>n. go_ret (node_result v n))))"

text \<open>
  One assignment of SET: the node is read afresh, changed and stored with \<open>PutNode\<close>. A node
  without a property map is the nil-map panic.
\<close>

definition set_property :: "'s executor_env \<Rightarrow> row option \<Rightarrow> row \<Rightarrow> set_item \<Rightarrow>
    ('s graph, unit) go" where
  "set_property E params row item =
     (case as_map (row_get row (si_variable item)) of
        None \<Rightarrow> go_ret ()
      | Some m \<Rightarrow>
          go_bind (go_try (graph_GetNode (ex_storage E)
              (sprint (ex_fmt E) (row_get m ''id'')))) (\<lambda>r. case r of
            Inl _ \<Rightarrow> go_ret ()
          | Inr n \<Rightarrow> (case n_props n of
                None \<Rightarrow> go_panic
              | Some ps \<Rightarrow> on_store (st_put_node (ex_storage E)
                  (n\<lparr>n_props := Some (AList.update (si_property item)
                      (evalExpr (si_value item) (Some row) params) ps)\<rparr>)))))"

definition execSetProperty :: "'s executor_env \<Rightarrow> set_item list \<Rightarrow> row option \<Rightarrow> result_set \<Rightarrow>
    ('s graph, result_set) go" where
  "execSetProperty E items params source =
     go_bind (go_for (rs_rows source) (\<lambda>row. go_for items (set_property E params row)))
       (\<lambda>_. go_ret source)"

definition delete_variable :: "'s executor_env \<Rightarrow> row \<Rightarrow> string \<Rightarrow> ('s graph, unit) go" where
  "delete_variable E row v = (case as_map (row_get row v) of
       None \<Rightarrow> go_ret ()
     | Some m \<Rightarrow> graph_DeleteNode (ex_storage E) (sprint (ex_fmt E) (row_get m ''id'')))"

definition execDelete :: "'s executor_env \<Rightarrow> string list \<Rightarrow> result_set \<Rightarrow>
    ('s graph, result_set) go" where
  "execDelete E vars source =
     go_bind (go_for (rs_rows source) (\<lambda>row. go_for vars (delete_variable E row)))
       (\<lambda>_. go_ret (rows_of [] []))"

definition yield_rows :: "string list \<Rightarrow> result_set \<Rightarrow> result_set" where
  "yield_rows vars rs = (if vars = [] then rs
     else rows_of vars (map (\<lambda>r. foldl (\<lambda>new c. AList.update c (row_get r c) new) [] vars)
       (rs_rows rs)))"

definition execProcedure :: "'s executor_env \<Rightarrow> string \<Rightarrow> expr list \<Rightarrow> string list \<Rightarrow>
    row option \<Rightarrow> ('s graph, result_set) go" where
  "execProcedure E proc args vars params =
     go_bind (Call (ex_procs E) proc (map (\<lambda>e. evalExpr e None params) args)) (\<lambda>rs.
     go_ret (yield_rows vars rs))"

section \<open>The built-in procedures\<close>

text \<open>
  The two searchers are interfaces: what they find depends on the graph and an index of
  their own. The conversions to float32 are parameters.
\<close>

type_synonym hits = "(string \<times> 64 word) list"

record 's searchers =
  full_text :: "(string \<Rightarrow> string \<Rightarrow> string \<Rightarrow> int \<Rightarrow> 's graph \<Rightarrow> gerr + hits) option"
  vector_search :: "(string \<Rightarrow> string \<Rightarrow> 32 word list \<Rightarrow> int \<Rightarrow> 's graph \<Rightarrow> gerr + hits) option"
  f32_of_float :: "64 word \<Rightarrow> 32 word"
  f32_of_int :: "int \<Rightarrow> 32 word"

definition go_read :: "('x \<Rightarrow> gerr + 'a) \<Rightarrow> ('x, 'a) go" where
  "go_read f = (\<lambda>s. (case f s of Inl e \<Rightarrow> Err e | Inr x \<Rightarrow> Ok x, s))"

text \<open>Hits whose node is gone are skipped.\<close>

definition hit_rows :: "'s storage_ops \<Rightarrow> hits \<Rightarrow> ('s graph, result_set) go" where
  "hit_rows ops hits = go_bind (go_collect hits (\<lambda>(i, score).
       go_bind (go_try (graph_GetNode ops i)) (\<lambda>r. case r of
         Inl _ \<Rightarrow> go_ret []
       | Inr n \<Rightarrow> go_ret [[(''node'', nodeToMap n), (''score'', VFloat score)]])))
     (\<lambda>rows. go_ret (rows_of [''node'', ''score''] rows))"

definition fullTextSearch :: "'s storage_ops \<Rightarrow> gofmt \<Rightarrow>
    (string \<Rightarrow> string \<Rightarrow> string \<Rightarrow> int \<Rightarrow> 's graph \<Rightarrow> gerr + hits) \<Rightarrow> 's procedure" where
  "fullTextSearch ops F search args =
     (if length args < 3
      then go_raise (Msg ''fullTextSearch requires 3 args: label, property, query'')
      else go_bind (go_read (search (sprint F (args ! 0)) (sprint F (args ! 1))
          (sprint F (args ! 2)) 100)) (hit_rows ops))"

fun vector_of :: "'s searchers \<Rightarrow> nat \<Rightarrow> gval list \<Rightarrow> gerr + 32 word list" where
  "vector_of S i [] = Inr []"
| "vector_of S i (v # vs) = (case v of
       VFloat w \<Rightarrow> (case vector_of S (Suc i) vs of Inl e \<Rightarrow> Inl e
         | Inr r \<Rightarrow> Inr (f32_of_float S w # r))
     | VInt w \<Rightarrow> (case vector_of S (Suc i) vs of Inl e \<Rightarrow> Inl e
         | Inr r \<Rightarrow> Inr (f32_of_int S (sint w) # r))
     | _ \<Rightarrow> Inl (Msg (''vector element '' @ show_nat i @ '': unexpected type '' @ type_name v)))"

definition vectorSearch :: "'s storage_ops \<Rightarrow> gofmt \<Rightarrow> 's searchers \<Rightarrow>
    (string \<Rightarrow> string \<Rightarrow> 32 word list \<Rightarrow> int \<Rightarrow> 's graph \<Rightarrow> gerr + hits) \<Rightarrow> 's procedure" where
  "vectorSearch ops F S search args =
     (if length args < 4
      then go_raise (Msg ''vectorSearch requires 4 args: label, property, vector, k'')
      else case (case args ! 2 of VList vs \<Rightarrow> Some vs | VNilList \<Rightarrow> Some [] | _ \<Rightarrow> None) of
        None \<Rightarrow> go_raise (Msg ''vector argument must be a list'')
      | Some vs \<Rightarrow> (case vector_of S 0 vs of
          Inl e \<Rightarrow> go_raise e
        | Inr vec \<Rightarrow> go_bind (go_read (search (sprint F (args ! 0)) (sprint F (args ! 1)) vec
            (case args ! 3 of VInt k \<Rightarrow> sint k | _ \<Rightarrow> 10))) (hit_rows ops)))"

definition registerBuiltins :: "'s storage_ops \<Rightarrow> gofmt \<Rightarrow> 's searchers \<Rightarrow>
    (string \<times> 's procedure) list" where
  "registerBuiltins ops F S =
     (let p1 = (case full_text S of None \<Rightarrow> []
          | Some search \<Rightarrow> Register ''kafgraph.fullTextSearch'' (fullTextSearch ops F search) [])
      in case vector_search S of None \<Rightarrow> p1
          | Some search \<Rightarrow> Register ''kafgraph.vectorSearch'' (vectorSearch ops F S search) p1)"

text \<open>\<open>NewExecutor\<close> over a backend that is, or is not, an \<open>IndexedStorage\<close>.\<close>

definition NewExecutor :: "'s storage_ops \<Rightarrow> bool \<Rightarrow> gofmt \<Rightarrow> cypher_lib \<Rightarrow> 's searchers \<Rightarrow>
    's executor_env" where
  "NewExecutor ops indexed F L S = \<lparr>ex_storage = ops, ex_indexed = indexed, ex_fmt = F,
     ex_lib = L, ex_procs = registerBuiltins ops F S\<rparr>"

section \<open>Running plans\<close>

fun executePlan :: "'s executor_env \<Rightarrow> row option \<Rightarrow> plan_node \<Rightarrow> ('s graph, result_set) go" where
  "executePlan E params (ScanByLabel v l ps) = execScan E v l ps"
| "executePlan E params (ExpandOut p s ev el dv dl) =
     go_bind (executePlan E params p) (execExpandOut E s ev el dv dl)"
| "executePlan E params (ExpandIn p s ev el dv dl) =
     go_bind (executePlan E params p) (execExpandIn E s ev el dv dl)"
| "executePlan E params (Filter p e) =
     go_bind (executePlan E params p) (\<lambda>rs. go_ret (execFilter (ex_fmt E) e params rs))"
| "executePlan E params (Project p items) =
     go_bind (executePlan E params p) (\<lambda>rs. go_ret (execProject items params rs))"
| "executePlan E params (Sort p items) =
     go_bind (executePlan E params p) (\<lambda>rs. go_ret (execSort (ex_fmt E) items params rs))"
| "executePlan E params (LimitOffset p l s) =
     go_bind (executePlan E params p) (execLimitOffset l s)"
| "executePlan E params (CreateNodePlan v l ps) = execCreateNode E v l ps params"
| "executePlan E params (CreateEdgePlan a b l) = execCreateEdge E a b l"
| "executePlan E params (MergeNodePlan v l ps) = execMergeNode E v l ps params"
| "executePlan E params (SetPropertyPlan p items) =
     go_bind (executePlan E params p) (execSetProperty E items params)"
| "executePlan E params (DeletePlan p vars) =
     go_bind (executePlan E params p) (execDelete E vars)"
| "executePlan E params (ProcedureCallPlan f args vars) = execProcedure E f args vars params"

text \<open>\<open>Execute\<close>: parse, plan, run. It is an executor in the sense of the cluster's router.\<close>

definition Execute :: "'s executor_env \<Rightarrow> 's graph executor" where
  "Execute E cypher params =
     (case Parse (ex_lib E) cypher of
        Err e \<Rightarrow> go_raise (Wrap ''parse'' e)
      | Panic \<Rightarrow> go_panic
      | Ok stmt \<Rightarrow> (case Plan stmt of
          Err e \<Rightarrow> go_raise (Wrap ''plan'' e)
        | Panic \<Rightarrow> go_panic
        | Ok plan \<Rightarrow> executePlan E params plan))"

end
