(* ===== verification/Indexed_Graph.thy ===== *)
theory Indexed_Graph
  imports Graph_Engine
begin

text \<open>
  \<open>IndexedStorage\<close>: the storage contract extended by the two adjacency scans, and its
  interpretation on the Badger backend. A scan may also return identifiers of no edge at
  all (two node identifiers, one a prefix of the other up to a colon); every identifier of
  an edge is returned exactly for that edge's own end.
\<close>

locale indexed_graph = graph_storage ops inv nodes edges
  for ops :: "'s storage_ops" and inv nodes edges +
  assumes out_ids: "inv s \<Longrightarrow> \<exists>ids. st_out_ids ops i s = (Ok ids, s) \<and> distinct ids \<and>
      (\<forall>k e. edges s k = Some e \<longrightarrow> (k \<in> set ids \<longleftrightarrow> e_from e = i))"
    and in_ids: "inv s \<Longrightarrow> \<exists>ids. st_in_ids ops i s = (Ok ids, s) \<and> distinct ids \<and>
      (\<forall>k e. edges s k = Some e \<longrightarrow> (k \<in> set ids \<longleftrightarrow> e_to e = i))"

lemma set_out_ids:
  assumes "kv_laws kv"
  shows "set (OutgoingEdges kv i s) = {k. kv_view kv s (out_key i k) \<noteq> None}"
  by (auto simp: OutgoingEdges_def set_scan_ids [OF assms] out_key_def)

lemma set_in_ids:
  assumes "kv_laws kv"
  shows "set (IncomingEdges kv i s) = {k. kv_view kv s (in_key i k) \<noteq> None}"
  by (auto simp: IncomingEdges_def set_scan_ids [OF assms] in_key_def)

interpretation badger_indexed: indexed_graph
    "badger_storage kv" "badger_inv kv" "badger_nodes kv" "badger_edges kv" for kv :: "'s kvops"
proof unfold_locales
  fix s :: 's and i assume "badger_inv kv s"
  note inv = badger_invD [OF this]
  show "\<exists>ids. st_out_ids (badger_storage kv) i s = (Ok ids, s) \<and> distinct ids \<and>
      (\<forall>k e. badger_edges kv s k = Some e \<longrightarrow> (k \<in> set ids \<longleftrightarrow> e_from e = i))"
    using out_view [OF inv(4)] distinct_scan_ids [OF inv(1)]
    by (intro exI [of _ "OutgoingEdges kv i s"])
      (auto simp: badger_defs set_out_ids [OF inv(1)], simp add: OutgoingEdges_def)
  show "\<exists>ids. st_in_ids (badger_storage kv) i s = (Ok ids, s) \<and> distinct ids \<and>
      (\<forall>k e. badger_edges kv s k = Some e \<longrightarrow> (k \<in> set ids \<longleftrightarrow> e_to e = i))"
    using in_view [OF inv(4)] distinct_scan_ids [OF inv(1)]
    by (intro exI [of _ "IncomingEdges kv i s"])
      (auto simp: badger_defs set_in_ids [OF inv(1)], simp add: IncomingEdges_def)
qed

end
