(* ===== verification/Cypher_Semantics.thy ===== *)
theory Cypher_Semantics
  imports Cypher_Executor Indexed_Graph
begin

text \<open>
  What running a plan does to the graph and what it returns, proved once over the storage
  contract: every call the executor makes is a step of the graph's public interface (or the
  \<open>PutNode\<close> of SET on a node that exists), reads answer from the abstract graph, and only
  SET on a node without properties can panic.
\<close>

section \<open>Steps\<close>

inductive exec_step :: "'s storage_ops \<Rightarrow> 's graph \<Rightarrow> 's graph \<Rightarrow> bool" for ops where
  exec_api: "api_step ops g g' \<Longrightarrow> exec_step ops g g'"
| exec_set: "st_get_node ops i (g_store g) = (Ok n, s0) \<Longrightarrow> props_ok p \<Longrightarrow>
     st_put_node ops (n\<lparr>n_props := p\<rparr>) (g_store g) = (r, s) \<Longrightarrow>
     exec_step ops g (g\<lparr>g_store := s\<rparr>)"

text \<open>A call that runs to states satisfying \<open>P\<close>, and does not panic there.\<close>

definition go_safe :: "('s \<Rightarrow> bool) \<Rightarrow> ('s, 'a) go \<Rightarrow> bool" where
  "go_safe P m \<longleftrightarrow> (\<forall>s. P s \<longrightarrow> P (snd (m s)) \<and> fst (m s) \<noteq> Panic)"

named_theorems safes \<open>calls that do not panic\<close>

lemma go_safeI: "(\<And>s. P s \<Longrightarrow> P (snd (m s)) \<and> fst (m s) \<noteq> Panic) \<Longrightarrow> go_safe P m"
  by (simp add: go_safe_def)

lemma go_safeD: "go_safe P m \<Longrightarrow> P s \<Longrightarrow> P (snd (m s)) \<and> fst (m s) \<noteq> Panic"
  by (simp add: go_safe_def)

lemma safe_keeps: "go_safe P m \<Longrightarrow> go_keeps P m"
  by (simp add: go_safe_def go_keeps_def)

lemma safe_ret [safes]: "go_safe P (go_ret x)"
  by (simp add: go_safe_def go_ret_def)

lemma safe_raise [safes]: "go_safe P (go_raise e)"
  by (simp add: go_safe_def go_raise_def)

lemma safe_bind [safes]:
  assumes "go_safe P m" and "\<And>x. go_safe P (f x)"
  shows "go_safe P (go_bind m f)"
proof (rule go_safeI)
  fix s assume "P s"
  obtain r t where r: "m s = (r, t)" by fastforce
  with go_safeD [OF assms(1) \<open>P s\<close>] have "P t" "r \<noteq> Panic" by simp_all
  with r show "P (snd (go_bind m f s)) \<and> fst (go_bind m f s) \<noteq> Panic"
    using go_safeD [OF assms(2)] by (cases r) (auto simp: go_bind_def)
qed

lemma safe_try [safes]: "go_safe P m \<Longrightarrow> go_safe P (go_try m)"
  unfolding go_safe_def by (auto simp: go_try_def split: prod.splits outcome.splits; metis fst_conv snd_conv)

lemma safe_wrap [safes]: "go_safe P m \<Longrightarrow> go_safe P (go_wrap w m)"
  unfolding go_safe_def by (auto simp: go_wrap_def split: prod.splits outcome.splits; metis fst_conv snd_conv)

lemma safe_for [safes]: "(\<And>x. go_safe P (body x)) \<Longrightarrow> go_safe P (go_for xs body)"
  by (induction xs) (auto intro: safes)

lemma safe_collect [safes]: "(\<And>x. go_safe P (body x)) \<Longrightarrow> go_safe P (go_collect xs body)"
  by (induction xs) (auto intro!: safes)

lemma safe_read [safes]: "go_safe P (go_read f)"
  by (simp add: go_safe_def go_read_def split: sum.split)

lemma distinct_eval_props:
  "(\<And>q. ps = Some q \<Longrightarrow> distinct (map fst q)) \<Longrightarrow> props_ok (Some (eval_props ps params))"
  by (cases ps) (simp_all add: props_ok_def eval_props_def comp_def split_beta)

section \<open>The calls of the executor are steps\<close>

text \<open>Whether a plan contains SET.\<close>

fun sets :: "plan_node \<Rightarrow> bool" where
  "sets (SetPropertyPlan p is) \<longleftrightarrow> True"
| "sets (ExpandOut p s ev el dv dl) \<longleftrightarrow> sets p"
| "sets (ExpandIn p s ev el dv dl) \<longleftrightarrow> sets p"
| "sets (Filter p e) \<longleftrightarrow> sets p"
| "sets (Project p is) \<longleftrightarrow> sets p"
| "sets (Sort p is) \<longleftrightarrow> sets p"
| "sets (LimitOffset p l s) \<longleftrightarrow> sets p"
| "sets (DeletePlan p vs) \<longleftrightarrow> sets p"
| "sets _ \<longleftrightarrow> False"

context indexed_graph
begin

abbreviation reach :: "'s graph \<Rightarrow> 's graph \<Rightarrow> bool" where
  "reach g0 g \<equiv> g_inv g \<and> (exec_step ops)\<^sup>*\<^sup>* g0 g"

lemma set_step_spec:
  assumes inv: "inv s" and get: "st_get_node ops i s = (Ok n, s0)" and "props_ok p"
    and put: "st_put_node ops (n\<lparr>n_props := p\<rparr>) s = (r, t)"
  shows "inv t \<and> edges t = edges s \<and> r \<noteq> Panic \<and> (nodes t = nodes s \<or>
    (\<exists>m. node_json (n\<lparr>n_props := p\<rparr>) = Some m \<and> nodes t = (nodes s)(i \<mapsto> m)))
    \<and> nodes s i = Some n"
proof -
  have at: "nodes s i = Some n"
    using get get_node [OF inv, of i] by (auto split: option.splits)
  then have "n_id n = i" "node_ok n"
    using keyed_node [OF inv at] by (simp_all add: stored_node_def)
  then have ok: "node_ok (n\<lparr>n_props := p\<rparr>)" "n_id (n\<lparr>n_props := p\<rparr>) = i"
    using \<open>props_ok p\<close> by (simp_all add: node_ok_def)
  from put_node [OF inv ok(1) put] show ?thesis
    by (cases "r = Ok ()") (auto simp: at ok(2) \<open>n_id n = i\<close>)
qed

lemma exec_step_inv: "exec_step ops g g' \<Longrightarrow> g_inv g \<Longrightarrow> g_inv g'"
proof (induction rule: exec_step.induct)
  case exec_api then show ?case by (rule api_step_inv)
next
  case exec_set then show ?case using set_step_spec by simp
qed

lemma exec_step_no_dangling:
  "exec_step ops g g' \<Longrightarrow> g_inv g \<Longrightarrow> no_dangling (g_nodes g) (g_edges g) \<Longrightarrow>
    no_dangling (g_nodes g') (g_edges g')"
proof (induction rule: exec_step.induct)
  case exec_api then show ?case by (rule api_step_no_dangling)
next
  case (exec_set i g n s0 p r s)
  from set_step_spec [OF exec_set.prems(1) exec_set.hyps]
  have "edges s = g_edges g" "dom (g_nodes g) \<subseteq> dom (nodes s)" by auto
  with exec_set.prems(2) show ?case by (simp add: no_dangling_nodes_mono)
qed

lemma exec_steps_no_dangling:
  "(exec_step ops)\<^sup>*\<^sup>* g g' \<Longrightarrow> g_inv g \<Longrightarrow> no_dangling (g_nodes g) (g_edges g) \<Longrightarrow>
    g_inv g' \<and> no_dangling (g_nodes g') (g_edges g')"
  by (induction rule: rtranclp_induct) (auto intro: exec_step_inv exec_step_no_dangling)

lemma reach_step: "reach g0 g \<Longrightarrow> exec_step ops g g' \<Longrightarrow> reach g0 g'"
  by (auto intro: exec_step_inv rtranclp.rtrancl_into_rtrancl)

text \<open>Reads change nothing and do not panic.\<close>

lemma safe_reads:
  assumes "\<And>s. inv s \<Longrightarrow> snd (m s) = s \<and> fst (m s) \<noteq> Panic"
  shows "go_safe (reach g0) (on_store m)"
proof (rule go_safeI)
  fix g assume g: "reach g0 g"
  obtain r s where rs: "m (g_store g) = (r, s)" by fastforce
  with assms [of "g_store g"] g have "s = g_store g" "r \<noteq> Panic" by simp_all
  with g rs show "reach g0 (snd (on_store m g)) \<and> fst (on_store m g) \<noteq> Panic"
    by (simp add: on_store_def)
qed

lemma safe_get_node [safes]: "go_safe (reach g0) (graph_GetNode ops i)"
  unfolding graph_GetNode_def
  by (rule safe_reads) (simp add: get_node split: option.split)

lemma safe_get_edge [safes]: "go_safe (reach g0) (graph_GetEdge ops i)"
  unfolding graph_GetEdge_def
  by (rule safe_reads) (simp add: get_edge split: option.split)

lemma safe_nodes_by_label:
  assumes "colon_free l"
  shows "go_safe (reach g0) (graph_NodesByLabel ops l)"
  unfolding graph_NodesByLabel_def
proof (rule safe_reads)
  fix s assume "inv s"
  with nodes_by_label [OF this assms]
  show "snd (st_nodes_by_label ops l s) = s \<and> fst (st_nodes_by_label ops l s) \<noteq> Panic" by auto
qed

lemma safe_out_ids: "go_safe (reach g0) (on_store (st_out_ids ops i))"
proof (rule safe_reads)
  fix s assume "inv s"
  with out_ids [OF this, of i]
  show "snd (st_out_ids ops i s) = s \<and> fst (st_out_ids ops i s) \<noteq> Panic" by auto
qed

lemma safe_in_ids: "go_safe (reach g0) (on_store (st_in_ids ops i))"
proof (rule safe_reads)
  fix s assume "inv s"
  with in_ids [OF this, of i]
  show "snd (st_in_ids ops i s) = s \<and> fst (st_in_ids ops i s) \<noteq> Panic" by auto
qed

text \<open>Writes are steps.\<close>

lemma safe_step:
  assumes "\<And>g. g_inv g \<Longrightarrow> exec_step ops g (snd (m g)) \<and> fst (m g) \<noteq> Panic"
  shows "go_safe (reach g0) m"
  by (rule go_safeI) (use assms reach_step in blast)

lemma safe_create_node:
  assumes "colon_free l" and "props_ok p"
  shows "go_safe (reach g0) (CreateNode ops l p)"
proof (rule safe_step)
  fix g assume inv: "g_inv g"
  obtain r g' where run: "CreateNode ops l p g = (r, g')" by fastforce
  with create_node [OF inv assms run] step_create_node [OF assms run]
  show "exec_step ops g (snd (CreateNode ops l p g)) \<and> fst (CreateNode ops l p g) \<noteq> Panic"
    by (auto intro: exec_api)
qed

lemma safe_create_edge:
  assumes "colon_free l" and "props_ok p"
  shows "go_safe (reach g0) (CreateEdge ops l a b p)"
proof (rule safe_step)
  fix g assume inv: "g_inv g"
  obtain r g' where run: "CreateEdge ops l a b p g = (r, g')" by fastforce
  with create_edge [OF inv assms run] step_create_edge [OF assms run]
  show "exec_step ops g (snd (CreateEdge ops l a b p g)) \<and> fst (CreateEdge ops l a b p g) \<noteq> Panic"
    by (auto intro: exec_api)
qed

lemma safe_delete_node [safes]: "go_safe (reach g0) (graph_DeleteNode ops i)"
proof (rule safe_step)
  fix g assume inv: "g_inv g"
  obtain r g' where run: "graph_DeleteNode ops i g = (r, g')" by fastforce
  with delete_node_graph [OF inv run] step_delete_node [OF run]
  show "exec_step ops g (snd (graph_DeleteNode ops i g)) \<and> fst (graph_DeleteNode ops i g) \<noteq> Panic"
    by (auto intro: exec_api)
qed

lemma keeps_set_property:
  assumes "ex_storage E = ops"
  shows "go_keeps (reach g0) (set_property E params row item)"
proof (cases "as_map (row_get row (si_variable item))")
  case None
  then show ?thesis by (simp add: set_property_def keeps)
next
  case (Some m)
  define i where "i = sprint (ex_fmt E) (row_get m ''id'')"
  define upd where "upd ps = Some (AList.update (si_property item)
    (evalExpr (si_value item) (Some row) params) ps)" for ps
  show ?thesis
  proof (rule go_keepsI)
    fix g assume g: "reach g0 g"
    have run: "set_property E params row item g = (case g_nodes g i of
        None \<Rightarrow> (Ok (), g)
      | Some n \<Rightarrow> (case n_props n of None \<Rightarrow> (Panic, g)
          | Some ps \<Rightarrow> on_store (st_put_node ops (n\<lparr>n_props := upd ps\<rparr>)) g))"
      using g by (simp add: set_property_def Some assms graph_GetNode_def on_store_def get_node
          go_bind_def go_try_def i_def upd_def go_ret_def go_panic_def split: option.split)
    show "reach g0 (snd (set_property E params row item g))"
    proof (cases "g_nodes g i")
      case None
      with g show ?thesis by (simp add: run)
    next
      case n: (Some n)
      show ?thesis
      proof (cases "n_props n")
        case None
        with g n show ?thesis by (simp add: run)
      next
        case ps: (Some ps)
        have get: "st_get_node ops i (g_store g) = (Ok n, g_store g)" using g n by (simp add: get_node)
        have "distinct (map fst ps)"
          using keyed_node [OF _ n] g ps by (simp add: stored_node_def node_ok_def props_ok_def)
        then have "props_ok (upd ps)" by (simp add: upd_def props_ok_def)
        from exec_set [OF get this] reach_step [OF g] show ?thesis
          by (auto simp: run n ps on_store_def split: prod.splits)
      qed
    qed
  qed
qed

lemma safe_hit_rows [safes]: "go_safe (reach g0) (hit_rows ops hits)"
  unfolding hit_rows_def
  by (intro safes) (auto split: sum.split prod.split intro!: safes)

lemma safe_builtins:
  assumes "map_of (registerBuiltins ops F S) f = Some p"
  shows "go_safe (reach g0) (p args)"
proof -
  have "go_safe (reach g0) (fullTextSearch ops F search args)" for search
    unfolding fullTextSearch_def by (auto intro!: safes)
  moreover have "go_safe (reach g0) (vectorSearch ops F S search args)" for search
    unfolding vectorSearch_def by (auto split: option.split sum.split intro!: safes)
  ultimately show ?thesis using assms
    by (auto simp: registerBuiltins_def Register_def Let_def split: option.splits if_splits)
qed

lemma safe_expand:
  assumes E: "ex_storage E = ops" and ids: "\<And>i. go_safe (reach g0) (on_store (ids i))"
  shows "go_safe (reach g0) (execExpand E ids far sv ev el dv dl source)"
proof -
  have edge: "go_safe (reach g0) (expand_edge E far row ev el dv dl eid)" for row eid
    unfolding expand_edge_def E
    by (intro safes) (auto split: sum.split intro!: safes)
  have "go_safe (reach g0) (expand_row E ids far sv ev el dv dl row)" for row
    unfolding expand_row_def
    by (auto split: option.split intro!: safes ids edge)
  then show ?thesis unfolding execExpand_def by (intro safes)
qed

definition procs_safe :: "'s graph \<Rightarrow> 's executor_env \<Rightarrow> bool" where
  "procs_safe g0 E \<longleftrightarrow> (\<forall>f p args. map_of (ex_procs E) f = Some p \<longrightarrow> go_safe (reach g0) (p args))"

lemma procs_safe_builtins: "procs_safe g0 (NewExecutor ops ix F L S)"
  by (simp add: procs_safe_def NewExecutor_def safe_builtins)

lemma safe_procedure:
  assumes "procs_safe g0 E"
  shows "go_safe (reach g0) (execProcedure E f args vars params)"
proof -
  have "go_safe (reach g0) (Call (ex_procs E) f vs)" for vs
    using assms by (auto simp: Call_def procs_safe_def intro: safes split: option.split)
  then show ?thesis unfolding execProcedure_def by (intro safes)
qed

lemma safe_limit:
  assumes "count_ok l" and "count_ok k"
  shows "go_safe (reach g0) (execLimitOffset l k rs)"
  using assms unfolding execLimitOffset_def Let_def
  by (auto simp: count_ok_def split: option.split intro!: safes)

lemma safe_exec_delete:
  assumes "ex_storage E = ops"
  shows "go_safe (reach g0) (execDelete E vars rs)"
proof -
  have "go_safe (reach g0) (delete_variable E row v)" for row v
    unfolding delete_variable_def assms by (auto split: option.split intro!: safes)
  then show ?thesis unfolding execDelete_def by (intro safes)
qed

lemma safe_merge:
  assumes E: "ex_storage E = ops" and l: "colon_free l" and "\<And>q. ps = Some q \<Longrightarrow> distinct (map fst q)"
  shows "go_safe (reach g0) (execMergeNode E v l ps params)"
  unfolding execMergeNode_def E Let_def
  by (intro safes safe_nodes_by_label l)
    (auto split: option.split intro!: safes safe_create_node l distinct_eval_props assms(3))

lemma safe_create:
  assumes E: "ex_storage E = ops" and l: "colon_free l" and "\<And>q. ps = Some q \<Longrightarrow> distinct (map fst q)"
  shows "go_safe (reach g0) (execCreateNode E v l ps params)"
  unfolding execCreateNode_def E
  by (intro safes safe_create_node l distinct_eval_props assms(3))

lemma safe_scan:
  assumes E: "ex_storage E = ops" and "colon_free l"
  shows "go_safe (reach g0) (execScan E v l ps)"
  unfolding execScan_def E by (intro safes safe_nodes_by_label assms(2))

lemma safe_exec_edge:
  assumes E: "ex_storage E = ops" and "colon_free l"
  shows "go_safe (reach g0) (execCreateEdge E a b l)"
  unfolding execCreateEdge_def E
  by (intro safes safe_create_edge assms(2)) (simp add: props_ok_def)

lemmas safe_ops = safe_scan safe_create safe_exec_edge safe_merge safe_exec_delete safe_limit
  safe_procedure

lemma plan_safe:
  assumes E: "ex_storage E = ops" and procs: "procs_safe g0 E"
  shows "plan_ok p \<Longrightarrow> \<not> sets p \<Longrightarrow> go_safe (reach g0) (executePlan E params p)"
proof (induction p)
  case (ExpandOut p s ev el dv dl)
  then show ?case
    by (auto simp: execExpandOut_def E intro!: safes safe_expand safe_out_ids)
next
  case (ExpandIn p s ev el dv dl)
  then show ?case
    by (auto simp: execExpandIn_def E intro!: safes safe_expand safe_in_ids)
qed (auto intro!: safes safe_ops E procs)

lemma plan_keeps:
  assumes E: "ex_storage E = ops" and procs: "procs_safe g0 E"
  shows "plan_ok p \<Longrightarrow> go_keeps (reach g0) (executePlan E params p)"
proof (induction p)
  case (ExpandOut p s ev el dv dl)
  then show ?case
    by (auto simp: execExpandOut_def E intro!: keeps safe_expand [THEN safe_keeps] safe_out_ids)
next
  case (ExpandIn p s ev el dv dl)
  then show ?case
    by (auto simp: execExpandIn_def E intro!: keeps safe_expand [THEN safe_keeps] safe_in_ids)
next
  case (SetPropertyPlan p items)
  then show ?case
    by (auto simp: execSetProperty_def intro!: keeps keeps_set_property E)
qed (auto intro!: keeps safe_ops [THEN safe_keeps] E procs)

text \<open>Any query text, any parameters: the graph moves by steps of its interface.\<close>

lemma execute_reach:
  assumes E: "ex_storage E = ops" and procs: "procs_safe g E" and inv: "g_inv g"
  shows "reach g (snd (Execute E cypher params g))"
proof (cases "Parse (ex_lib E) cypher")
  case (Ok stmt)
  note planned = Plan_Parse [OF Ok]
  show ?thesis
  proof (cases "Plan stmt")
    case plan: (Ok p)
    with planned have "plan_ok p" by (simp add: planned_def)
    from go_keepsD [OF plan_keeps [OF E procs this], of g] inv Ok plan
    show ?thesis by (simp add: Execute_def)
  qed (use Ok planned inv in \<open>simp_all add: Execute_def planned_def go_raise_def\<close>)
qed (use inv Parse_returns in \<open>simp_all add: Execute_def go_raise_def go_panic_def\<close>)

lemma execute_safe:
  assumes E: "ex_storage E = ops" and procs: "procs_safe g E" and inv: "g_inv g"
    and no_set: "\<And>stmt p. Parse (ex_lib E) cypher = Ok stmt \<Longrightarrow> Plan stmt = Ok p \<Longrightarrow> \<not> sets p"
  shows "fst (Execute E cypher params g) \<noteq> Panic"
proof (cases "Parse (ex_lib E) cypher")
  case (Ok stmt)
  note planned = Plan_Parse [OF Ok]
  show ?thesis
  proof (cases "Plan stmt")
    case plan: (Ok p)
    with planned have "plan_ok p" by (simp add: planned_def)
    from go_safeD [OF plan_safe [OF E procs this no_set [OF Ok plan]], of g] inv Ok plan
    show ?thesis by (simp add: Execute_def)
  qed (use Ok planned inv in \<open>simp_all add: Execute_def planned_def go_raise_def\<close>)
qed (use inv Parse_returns in \<open>simp_all add: Execute_def go_raise_def\<close>)

end

section \<open>What the operators return\<close>

lemma json_norm_fields_lookup:
  "json_norm_fields fs = Some gs \<Longrightarrow> map_of fs k = Some v \<Longrightarrow>
    \<exists>w. map_of gs k = Some w \<and> json_norm v = Some w"
  by (induction fs arbitrary: gs) (auto split: option.splits if_splits)

definition filter_ok :: "gofmt \<Rightarrow> (string \<times> expr) list option \<Rightarrow> node \<Rightarrow> bool" where
  "filter_ok F ps n \<longleftrightarrow> (case ps of None \<Rightarrow> True | Some q \<Rightarrow> matchProps F (n_props n) q)"

text \<open>The rows one edge contributes.\<close>

definition edge_rows :: "(string \<Rightarrow> node option) \<Rightarrow> (string \<Rightarrow> edge option) \<Rightarrow> (edge \<Rightarrow> string) \<Rightarrow> row \<Rightarrow> string \<Rightarrow> string \<Rightarrow> string \<Rightarrow>
    string \<Rightarrow> string \<Rightarrow> row list" where
  "edge_rows N Es far row ev el dv dl k = (case Es k of
       None \<Rightarrow> []
     | Some e \<Rightarrow> if el \<noteq> [] \<and> e_label e \<noteq> el then [] else (case N (far e) of
           None \<Rightarrow> []
         | Some n \<Rightarrow> if dl \<noteq> [] \<and> n_label n \<noteq> dl then []
             else [AList.update dv (nodeToMap n)
               (if ev \<noteq> [] then AList.update ev (edgeToMap e) row else row)]))"

text \<open>
  One hop of a MATCH: the rows are the triples of a node, an edge that leaves it (or enters
  it, for a left arrow) and the node at the other end, with the labels asked for.
\<close>

definition hop_rows :: "(string \<Rightarrow> node option) \<Rightarrow> (string \<Rightarrow> edge option) \<Rightarrow> (edge \<Rightarrow> string) \<Rightarrow> (edge \<Rightarrow> string) \<Rightarrow> (node \<Rightarrow> bool) \<Rightarrow>
    string \<Rightarrow> string \<Rightarrow> string \<Rightarrow> string \<Rightarrow> string \<Rightarrow> row set" where
  "hop_rows N Es near far src sv ev el dv dl =
     {[(sv, nodeToMap n), (ev, edgeToMap e), (dv, nodeToMap m)] | n e m.
        N (n_id n) = Some n \<and> src n \<and> Es (e_id e) = Some e \<and>
        N (n_id m) = Some m \<and> near e = n_id n \<and> far e = n_id m \<and>
        (el = [] \<or> e_label e = el) \<and> (dl = [] \<or> n_label m = dl)}"

lemma matchProps_Nil [simp]: "matchProps F p []"
  by (simp add: matchProps_def)

lemma set_edge_rows:
  assumes "sv \<noteq> ev" "sv \<noteq> dv" "ev \<noteq> dv" "ev \<noteq> []"
  shows "set (edge_rows N Es far [(sv, nodeToMap n)] ev el dv dl k) =
    {[(sv, nodeToMap n), (ev, edgeToMap e), (dv, nodeToMap m)] | e m.
        Es k = Some e \<and> N (far e) = Some m \<and>
        (el = [] \<or> e_label e = el) \<and> (dl = [] \<or> n_label m = dl)}"
proof (cases "Es k")
  case (Some e)
  show ?thesis
  proof (cases "N (far e)")
    case m: (Some m)
    with Some assms show ?thesis by (auto simp: edge_rows_def)
  qed (use Some in \<open>auto simp: edge_rows_def\<close>)
qed (simp add: edge_rows_def)

context indexed_graph
begin

lemma scan_run:
  assumes E: "ex_storage E = ops" and inv: "g_inv g" and l: "colon_free l"
  obtains ns where "execScan E v l ps g = (Ok (rows_of [v] (map (\<lambda>n. [(v, nodeToMap n)]) ns)), g)"
    and "distinct (map n_id ns)"
    and "set ns = {n. g_nodes g (n_id n) = Some n \<and> n_label n = l \<and> filter_ok (ex_fmt E) ps n}"
proof -
  obtain ms where ms: "st_nodes_by_label ops l (g_store g) = (Ok ms, g_store g)"
    "distinct (map n_id ms)" "set ms = {n. g_nodes g (n_id n) = Some n \<and> n_label n = l}"
    using nodes_by_label [OF inv l] by blast
  let ?ns = "filter (filter_ok (ex_fmt E) ps) ms"
  have "(\<lambda>n. case ps of None \<Rightarrow> True | Some q \<Rightarrow> q = [] \<or> matchProps (ex_fmt E) (n_props n) q) =
      filter_ok (ex_fmt E) ps"
    by (rule ext) (auto simp: filter_ok_def split: option.split)
  with ms(1) have "execScan E v l ps g =
      (Ok (rows_of [v] (map (\<lambda>n. [(v, nodeToMap n)]) ?ns)), g)"
    by (simp add: execScan_def E graph_NodesByLabel_def on_store_def go_bind_def go_ret_def)
  moreover have "distinct (map n_id ?ns)" using ms(2) by (simp add: distinct_map_filter)
  moreover have "set ?ns = {n. g_nodes g (n_id n) = Some n \<and> n_label n = l \<and>
      filter_ok (ex_fmt E) ps n}" using ms(3) by auto
  ultimately show thesis by (rule that)
qed

lemma go_collect_pure:
  assumes "\<And>x. x \<in> set xs \<Longrightarrow> body x s = (Ok (f x), s)"
  shows "go_collect xs body s = (Ok (concat (map f xs)), s)"
  using assms by (induction xs) (simp_all add: go_bind_def go_ret_def)

lemma expand_edge_run:
  assumes E: "ex_storage E = ops" and inv: "g_inv g"
  shows "expand_edge E far row ev el dv dl k g = (Ok (edge_rows (g_nodes g) (g_edges g) far row ev el dv dl k), g)"
proof (cases "g_edges g k")
  case None
  then show ?thesis using inv
    by (simp add: expand_edge_def edge_rows_def E graph_GetEdge_def on_store_def get_edge
        go_bind_def go_try_def go_ret_def)
next
  case (Some e)
  have n: "graph_GetNode ops i g = (case g_nodes g i of Some n \<Rightarrow> Ok n
      | None \<Rightarrow> Err (Msg (''node '' @ i @ '' not found'')), g)" for i
    using inv by (simp add: graph_GetNode_def on_store_def get_node)
  show ?thesis using inv Some
    by (cases "g_nodes g (far e)")
      (simp_all add: expand_edge_def edge_rows_def E graph_GetEdge_def on_store_def get_edge n
        go_bind_def go_try_def go_ret_def)
qed

lemma expand_row_run:
  assumes E: "ex_storage E = ops" "ex_indexed E" and inv: "g_inv g"
    and ids: "ids i (g_store g) = (Ok ks, g_store g)"
    and row: "as_map (row_get row sv) = Some m" "sprint (ex_fmt E) (row_get m ''id'') = i"
  shows "expand_row E ids far sv ev el dv dl row g =
    (Ok (concat (map (edge_rows (g_nodes g) (g_edges g) far row ev el dv dl) ks)), g)"
proof -
  have "go_collect ks (expand_edge E far row ev el dv dl) g =
      (Ok (concat (map (edge_rows (g_nodes g) (g_edges g) far row ev el dv dl) ks)), g)"
    by (rule go_collect_pure) (rule expand_edge_run [OF E(1) inv])
  then show ?thesis
    by (simp add: expand_row_def row E(2) on_store_def ids go_bind_def go_try_def)
qed

lemma nodeToMap_id: "as_map (nodeToMap n) = Some m \<Longrightarrow> row_get m ''id'' = VStr (n_id n)"
  by (auto simp: as_map_def nodeToMap_def row_get_def)

lemma expand_scan_run:
  assumes E: "ex_storage E = ops" "ex_indexed E" and inv: "g_inv g" and l: "colon_free l"
    and names: "sv \<noteq> ev" "sv \<noteq> dv" "ev \<noteq> dv" "ev \<noteq> []"
    and ids: "\<And>i. \<exists>ks. ids i (g_store g) = (Ok ks, g_store g) \<and>
      (\<forall>k e. g_edges g k = Some e \<longrightarrow> (k \<in> set ks \<longleftrightarrow> near e = i))"
  shows "\<exists>rs. go_bind (execScan E sv l ps) (execExpand E ids far sv ev el dv dl) g = (Ok rs, g) \<and>
    set (rs_rows rs) = hop_rows (g_nodes g) (g_edges g) near far (\<lambda>n. n_label n = l \<and> filter_ok (ex_fmt E) ps n)
      sv ev el dv dl"
proof -
  obtain ns where
    scan: "execScan E sv l ps g = (Ok (rows_of [sv] (map (\<lambda>n. [(sv, nodeToMap n)]) ns)), g)"
    and "distinct (map n_id ns)" and ns: "set ns = {n. g_nodes g (n_id n) = Some n \<and> n_label n = l \<and> filter_ok (ex_fmt E) ps n}"
    by (rule scan_run [OF E(1) inv l])
  obtain K where K: "\<And>i. ids i (g_store g) = (Ok (K i), g_store g)"
    "\<And>i k e. g_edges g k = Some e \<Longrightarrow> k \<in> set (K i) \<longleftrightarrow> near e = i"
    using ids by metis
  define rows where "rows n = concat (map (edge_rows (g_nodes g) (g_edges g) far [(sv, nodeToMap n)] ev el dv dl)
    (K (n_id n)))" for n
  have row: "expand_row E ids far sv ev el dv dl [(sv, nodeToMap n)] g = (Ok (rows n), g)" for n
  proof -
    have "as_map (row_get [(sv, nodeToMap n)] sv) =
        Some [(''id'', VStr (n_id n)), (''label'', VStr (n_label n)),
          (''properties'', props_value (n_props n)), (''createdAt'', VStr (formatTime (n_created n)))]"
      by (simp add: row_get_def as_map_def nodeToMap_def)
    from expand_row_run [where ids = ids and i = "n_id n", OF E inv K(1) this,
        of far ev el dv dl] show ?thesis
      by (simp add: rows_def row_get_def)
  qed
  have "go_collect (map (\<lambda>n. [(sv, nodeToMap n)]) ns) (expand_row E ids far sv ev el dv dl) g =
      (Ok (concat (map rows ns)), g)"
    by (induction ns) (simp_all add: row go_bind_def go_ret_def)
  then have run: "go_bind (execScan E sv l ps) (execExpand E ids far sv ev el dv dl) g =
      (Ok (rows_of (case concat (map rows ns) of [] \<Rightarrow> [] | r # _ \<Rightarrow> map fst r)
        (concat (map rows ns))), g)"
    by (simp add: go_bind_def scan execExpand_def rows_of_def go_ret_def)
  have key: "k \<in> set (K i) \<and> g_edges g k = Some e \<longleftrightarrow>
      k = e_id e \<and> g_edges g (e_id e) = Some e \<and> near e = i" for k i e
    using K(2) [of k e i] keyed_edge [OF inv, of k e] by auto
  have set_rows: "r \<in> set (rows n) \<longleftrightarrow> (\<exists>e m.
      r = [(sv, nodeToMap n), (ev, edgeToMap e), (dv, nodeToMap m)] \<and>
      (g_edges g (e_id e) = Some e \<and> near e = n_id n) \<and> g_nodes g (far e) = Some m \<and>
      (el = [] \<or> e_label e = el) \<and> (dl = [] \<or> n_label m = dl))" for n r
  proof -
    have "r \<in> set (rows n) \<longleftrightarrow> (\<exists>k e m.
        r = [(sv, nodeToMap n), (ev, edgeToMap e), (dv, nodeToMap m)] \<and>
        (k \<in> set (K (n_id n)) \<and> g_edges g k = Some e) \<and> g_nodes g (far e) = Some m \<and>
        (el = [] \<or> e_label e = el) \<and> (dl = [] \<or> n_label m = dl))"
      unfolding rows_def set_concat set_map UN_iff bex_simps set_edge_rows [OF names] by blast
    then show ?thesis unfolding key by blast
  qed
  have "set (concat (map rows ns)) = hop_rows (g_nodes g) (g_edges g) near far
      (\<lambda>n. n_label n = l \<and> filter_ok (ex_fmt E) ps n) sv ev el dv dl"
  proof -
    have far: "g_nodes g (far e) = Some m \<longleftrightarrow> g_nodes g (n_id m) = Some m \<and> far e = n_id m" for e m
      using keyed_node [OF inv] by metis
    have "r \<in> set (concat (map rows ns)) \<longleftrightarrow> (\<exists>n. n \<in> set ns \<and> r \<in> set (rows n))" for r
      by auto
    then show ?thesis unfolding set_eq_iff hop_rows_def set_rows ns far mem_Collect_eq by blast
  qed
  with run show ?thesis by (simp add: rows_of_def)
qed

text \<open>MERGE.\<close>

lemma nodes_by_label_run:
  assumes inv: "g_inv g" and l: "colon_free l"
  obtains ns where "graph_NodesByLabel ops l g = (Ok ns, g)"
    and "set ns = {n. g_nodes g (n_id n) = Some n \<and> n_label n = l}"
  using nodes_by_label [OF inv l] by (auto simp: graph_NodesByLabel_def on_store_def)

lemma merge_run:
  assumes E: "ex_storage E = ops" and ns: "graph_NodesByLabel ops l g = (Ok ns, g)"
  shows "execMergeNode E v l ps params g =
    (case find (\<lambda>n. matchPropsExact (ex_fmt E) (n_props n) (eval_props ps params)) ns of
       Some n \<Rightarrow> (Ok (node_result v n), g)
     | None \<Rightarrow> execCreateNode E v l ps params g)"
  by (simp add: execMergeNode_def E Let_def go_bind_def ns go_ret_def execCreateNode_def
      split: option.split)

lemma create_run:
  assumes E: "ex_storage E = ops" and inv: "g_inv g" and l: "colon_free l"
    and dist: "\<And>q. ps = Some q \<Longrightarrow> distinct (map fst q)"
    and run: "execCreateNode E v l ps params g = (Ok r, g1)"
  obtains i m qs where "g_inv g1" and "n_id m = i" and "n_label m = l"
    and "g_nodes g1 = (g_nodes g)(i \<mapsto> m)" and "n_props m = Some qs"
    and "json_norm_fields (eval_props ps params) = Some qs"
proof -
  let ?p = "Some (eval_props ps params)"
  obtain n where create: "CreateNode ops l ?p g = (Ok n, g1)"
    using run unfolding execCreateNode_def E by (auto elim!: go_bind_OkE simp: go_ret_def)
  have pok: "props_ok ?p" using dist by (rule distinct_eval_props)
  from create_node [OF inv l pok create] obtain m where
    m: "n = new_node g l ?p" "node_json n = Some m" "g_nodes g1 = (g_nodes g)(n_id n \<mapsto> m)"
      "g_inv g1" by blast
  note f = node_json_fields [OF m(2)]
  from f(4) m(1) have "props_json ?p = Some (n_props m)" by (simp add: new_node_def)
  then obtain qs where "n_props m = Some qs" "json_norm_fields (eval_props ps params) = Some qs"
    by (auto simp: props_json_Some)
  with m f show thesis by (intro that [of m "n_id n" qs]) (simp_all add: new_node_def)
qed

lemma merge_twice:
  assumes E: "ex_storage E = ops" and inv: "g_inv g" and l: "colon_free l"
    and dist: "\<And>q. ps = Some q \<Longrightarrow> distinct (map fst q)"
    and stable: "\<And>k x w. (k, x) \<in> set (eval_props ps params) \<Longrightarrow> json_norm x = Some w \<Longrightarrow>
      sprint (ex_fmt E) w = sprint (ex_fmt E) x"
    and run: "execMergeNode E v l ps params g = (Ok r, g1)"
  shows "\<exists>r2. execMergeNode E v l ps params g1 = (Ok r2, g1)"
proof -
  obtain ns where ns: "graph_NodesByLabel ops l g = (Ok ns, g)" by (rule nodes_by_label_run [OF inv l])
  show ?thesis
  proof (cases "find (\<lambda>n. matchPropsExact (ex_fmt E) (n_props n) (eval_props ps params)) ns")
    case (Some n)
    with run merge_run [OF E ns] have "g1 = g" by simp
    with run show ?thesis by auto
  next
    case None
    with run merge_run [OF E ns] have create: "execCreateNode E v l ps params g = (Ok r, g1)" by simp
    obtain i m qs where inv1: "g_inv g1" and m: "n_id m = i" "n_label m = l"
        "g_nodes g1 = (g_nodes g)(i \<mapsto> m)" "n_props m = Some qs"
        and qs: "json_norm_fields (eval_props ps params) = Some qs"
      by (rule create_run [OF E inv l dist create])
    obtain ns1 where ns1: "graph_NodesByLabel ops l g1 = (Ok ns1, g1)"
        "set ns1 = {n. g_nodes g1 (n_id n) = Some n \<and> n_label n = l}"
      by (rule nodes_by_label_run [OF inv1 l])
    have "m \<in> set ns1" using m by (simp add: ns1(2))
    moreover have "matchPropsExact (ex_fmt E) (n_props m) (eval_props ps params)"
      unfolding matchPropsExact_def list_all_iff
    proof (clarsimp simp: m(4))
      fix k x assume kx: "(k, x) \<in> set (eval_props ps params)"
      have "distinct (map fst (eval_props ps params))"
        using distinct_eval_props [OF dist, of ps params] by (simp add: props_ok_def)
      with kx have "map_of (eval_props ps params) k = Some x" by simp
      then obtain w where "map_of qs k = Some w" "json_norm x = Some w"
        using json_norm_fields_lookup [OF qs] by blast
      with stable [OF kx] show "sprint (ex_fmt E) (row_get qs k) = sprint (ex_fmt E) x"
        by (simp add: row_get_def)
    qed
    ultimately obtain n' where
      "find (\<lambda>n. matchPropsExact (ex_fmt E) (n_props n) (eval_props ps params)) ns1 = Some n'"
      by (cases "find (\<lambda>n. matchPropsExact (ex_fmt E) (n_props n) (eval_props ps params)) ns1")
        (auto simp: find_None_iff)
    then show ?thesis by (simp add: merge_run [OF E ns1(1)])
  qed
qed

text \<open>A property whose stored form prints differently is never found again.\<close>

lemma merge_again:
  assumes E: "ex_storage E = ops" and inv: "g_inv g" and l: "colon_free l"
    and dist: "\<And>q. ps = Some q \<Longrightarrow> distinct (map fst q)"
    and k: "(k, x) \<in> set (eval_props ps params)" "json_norm x = Some w"
      "sprint (ex_fmt E) w \<noteq> sprint (ex_fmt E) x"
    and none: "\<And>i n. g_nodes g i = Some n \<Longrightarrow> n_label n = l \<Longrightarrow>
      \<not> matchPropsExact (ex_fmt E) (n_props n) (eval_props ps params)"
    and run: "execMergeNode E v l ps params g = (Ok r, g1)"
  shows "execMergeNode E v l ps params g1 = execCreateNode E v l ps params g1"
proof -
  obtain ns where ns: "graph_NodesByLabel ops l g = (Ok ns, g)"
      "set ns = {n. g_nodes g (n_id n) = Some n \<and> n_label n = l}"
    by (rule nodes_by_label_run [OF inv l])
  have "find (\<lambda>n. matchPropsExact (ex_fmt E) (n_props n) (eval_props ps params)) ns = None"
    using none ns(2) by (auto simp: find_None_iff)
  with run merge_run [OF E ns(1)] have create: "execCreateNode E v l ps params g = (Ok r, g1)" by simp
  obtain i m qs where inv1: "g_inv g1" and m: "n_id m = i" "n_label m = l"
      "g_nodes g1 = (g_nodes g)(i \<mapsto> m)" "n_props m = Some qs"
      and qs: "json_norm_fields (eval_props ps params) = Some qs"
    by (rule create_run [OF E inv l dist create])
  obtain ns1 where ns1: "graph_NodesByLabel ops l g1 = (Ok ns1, g1)"
      "set ns1 = {n. g_nodes g1 (n_id n) = Some n \<and> n_label n = l}"
    by (rule nodes_by_label_run [OF inv1 l])
  have "distinct (map fst (eval_props ps params))"
    using distinct_eval_props [OF dist, of ps params] by (simp add: props_ok_def)
  with k(1) have "map_of (eval_props ps params) k = Some x" by simp
  from json_norm_fields_lookup [OF qs this] k(2) have "row_get qs k = w"
    by (auto simp: row_get_def)
  with k m(4) have "\<not> matchPropsExact (ex_fmt E) (n_props m) (eval_props ps params)"
    by (auto simp: matchPropsExact_def list_all_iff)
  then have "\<not> matchPropsExact (ex_fmt E) (n_props n') (eval_props ps params)"
    if "n' \<in> set ns1" for n'
    using that none by (cases "n_id n' = i") (auto simp: ns1(2) m(3))
  then have "find (\<lambda>n. matchPropsExact (ex_fmt E) (n_props n) (eval_props ps params)) ns1 = None"
    by (auto simp: find_None_iff)
  then show ?thesis by (simp add: merge_run [OF E ns1(1)])
qed

text \<open>DELETE.\<close>

lemma delete_variable_run:
  "ex_storage E = ops \<Longrightarrow> delete_variable E [(v, nodeToMap n)] v = graph_DeleteNode ops (n_id n)"
  by (simp add: delete_variable_def row_get_def as_map_def nodeToMap_def)

lemma delete_nodes_run:
  assumes E: "ex_storage E = ops"
  shows "g_inv g \<Longrightarrow> \<forall>n \<in> set ns. g_nodes g (n_id n) = Some n \<Longrightarrow> distinct (map n_id ns) \<Longrightarrow>
    go_for (map (\<lambda>n. [(v, nodeToMap n)]) ns) (\<lambda>row. go_for [v] (delete_variable E row)) g =
      (Ok (), g') \<Longrightarrow>
    g_inv g' \<and> g_nodes g' = (\<lambda>i. if i \<in> n_id ` set ns then None else g_nodes g i) \<and>
    g_edges g' = (\<lambda>k. case g_edges g k of None \<Rightarrow> None
      | Some e \<Rightarrow> if \<exists>n \<in> set ns. incident (n_id n) e then None else Some e)"
proof (induction ns arbitrary: g)
  case Nil
  then show ?case by (auto simp: go_ret_def fun_eq_iff split: option.split)
next
  case (Cons n ns)
  from Cons.prems(4) obtain g1 where del: "graph_DeleteNode ops (n_id n) g = (Ok (), g1)" and
    rest: "go_for (map (\<lambda>n. [(v, nodeToMap n)]) ns) (\<lambda>row. go_for [v] (delete_variable E row)) g1 =
      (Ok (), g')"
    by (auto elim!: go_bind_OkE simp: go_ret_def delete_variable_run [OF E])
  note d = delete_node_graph [OF Cons.prems(1) del]
  then have inv1: "g_inv g1" and nodes: "g_nodes g1 = (g_nodes g)(n_id n := None)"
    and edges: "g_edges g1 = (\<lambda>k. case g_edges g k of None \<Rightarrow> None
      | Some e \<Rightarrow> if g_nodes g (n_id n) \<noteq> None \<and> incident (n_id n) e then None else Some e)"
    by blast+
  have pres: "\<forall>x \<in> set ns. g_nodes g1 (n_id x) = Some x"
  proof
    fix x assume x: "x \<in> set ns"
    with Cons.prems(3) have "n_id x \<noteq> n_id n" by (metis distinct.simps(2) imageI list.set_map list.simps(9))
    with x Cons.prems(2) show "g_nodes g1 (n_id x) = Some x" by (simp add: nodes)
  qed
  have "distinct (map n_id ns)" using Cons.prems(3) by simp
  note IH = Cons.IH [OF inv1 pres this rest]
  have "g_nodes g' = (\<lambda>i. if i \<in> n_id ` set (n # ns) then None else g_nodes g i)"
    using IH by (auto simp: nodes fun_eq_iff)
  moreover have "g_edges g' k = (case g_edges g k of None \<Rightarrow> None
      | Some e \<Rightarrow> if \<exists>x \<in> set (n # ns). incident (n_id x) e then None else Some e)" for k
    using IH Cons.prems(2) by (cases "g_edges g k") (simp_all add: edges)
  ultimately show ?case using IH by blast
qed

lemma delete_scan_run:
  assumes E: "ex_storage E = ops" and inv: "g_inv g" and l: "colon_free l"
    and run: "go_bind (execScan E v l ps) (execDelete E [v]) g = (Ok r, g')"
  shows "g_inv g' \<and>
    g_nodes g' = (\<lambda>i. case g_nodes g i of None \<Rightarrow> None
      | Some n \<Rightarrow> if n_label n = l \<and> filter_ok (ex_fmt E) ps n then None else Some n) \<and>
    g_edges g' = (\<lambda>k. case g_edges g k of None \<Rightarrow> None
      | Some e \<Rightarrow> if \<exists>n. g_nodes g (n_id n) = Some n \<and> n_label n = l \<and> filter_ok (ex_fmt E) ps n \<and>
            incident (n_id n) e then None else Some e)"
proof -
  obtain ns where scan: "execScan E v l ps g = (Ok (rows_of [v] (map (\<lambda>n. [(v, nodeToMap n)]) ns)), g)"
    and dist: "distinct (map n_id ns)"
    and ns: "set ns = {n. g_nodes g (n_id n) = Some n \<and> n_label n = l \<and> filter_ok (ex_fmt E) ps n}"
    by (rule scan_run [OF E inv l])
  from run have "go_for (map (\<lambda>n. [(v, nodeToMap n)]) ns) (\<lambda>row. go_for [v] (delete_variable E row)) g =
      (Ok (), g')"
    by (auto simp: go_bind_OkE [OF run] execDelete_def rows_of_def go_bind_def scan go_ret_def
        split: prod.splits outcome.splits)
  from delete_nodes_run [OF E inv _ dist this] have
    del: "g_inv g'" "g_nodes g' = (\<lambda>i. if i \<in> n_id ` set ns then None else g_nodes g i)"
      "g_edges g' = (\<lambda>k. case g_edges g k of None \<Rightarrow> None
        | Some e \<Rightarrow> if \<exists>n \<in> set ns. incident (n_id n) e then None else Some e)"
    by (auto simp: ns)
  have "i \<in> n_id ` set ns \<longleftrightarrow> (\<exists>n. g_nodes g i = Some n \<and> n_label n = l \<and> filter_ok (ex_fmt E) ps n)" for i
    using keyed_node [OF inv] by (auto simp: ns image_iff)
  then have "g_nodes g' = (\<lambda>i. case g_nodes g i of None \<Rightarrow> None
      | Some n \<Rightarrow> if n_label n = l \<and> filter_ok (ex_fmt E) ps n then None else Some n)"
    by (auto simp: del(2) fun_eq_iff split: option.split)
  moreover have ex: "(\<exists>n \<in> set ns. incident (n_id n) e) \<longleftrightarrow> (\<exists>n. g_nodes g (n_id n) = Some n \<and>
      n_label n = l \<and> filter_ok (ex_fmt E) ps n \<and> incident (n_id n) e)" for e
    by (auto simp: ns)
  ultimately show ?thesis using del(1) del(3) [unfolded ex] by blast
qed

end

end
