(* ===== verification/Cypher_Properties.thy ===== *)
theory Cypher_Properties
  imports Cypher_Syntax Cypher_Semantics Mem_Store
begin

text \<open>
  The properties of the query engine, from the text of a statement to the graph it leaves:
  lexer, parser, planner and executor over the Badger backend. The samples at the start are
  the environments the witnesses run in.
\<close>

definition plain_lib :: cypher_lib where
  "plain_lib = \<lparr>cy_letter = (\<lambda>_. False), cy_digit = (\<lambda>_. False), cy_parse_float = (\<lambda>_. 0),
     cy_quote = (\<lambda>s. [CHR 0x22] @ s @ [CHR 0x22])\<rparr>"

definition no_search :: "'s searchers" where
  "no_search = \<lparr>full_text = None, vector_search = None, f32_of_float = (\<lambda>_. 0),
     f32_of_int = (\<lambda>_. 0)\<rparr>"

text \<open>The executor of a server over Badger, and the sample over the in-memory store.\<close>

abbreviation badger_executor :: "'s kvops \<Rightarrow> gofmt \<Rightarrow> cypher_lib \<Rightarrow> 's searchers \<Rightarrow> 's executor_env" where
  "badger_executor kv F L S \<equiv> NewExecutor (badger_storage kv) True F L S"

abbreviation mem_executor :: "mem executor_env" where
  "mem_executor \<equiv> badger_executor mem_kv plain_fmt plain_lib no_search"

lemma executor_fields [simp]:
  "ex_storage (NewExecutor ops ix F L S) = ops" "ex_indexed (NewExecutor ops ix F L S) = ix"
  "ex_fmt (NewExecutor ops ix F L S) = F" "ex_lib (NewExecutor ops ix F L S) = L"
  by (simp_all add: NewExecutor_def)

text \<open>Equations that run the lexer and the parser on ASCII text without expressions.\<close>

lemma runes_ascii: "list_all (\<lambda>c. of_char c < (0x80::nat)) s \<Longrightarrow> runes s = map of_char s"
  unfolding runes_def by (induction s) (simp_all add: decode_rune_def Let_def)

lemma plain_classes:
  "IsLetter plain_lib c \<longleftrightarrow> 65 \<le> c \<and> c \<le> 90 \<or> 97 \<le> c \<and> c \<le> 122 \<or> c = 0xAA \<or>
     c = 0xB5 \<or> c = 0xBA \<or> 0xC0 \<le> c \<and> c \<le> 0xFF \<and> c \<noteq> 0xD7 \<and> c \<noteq> 0xF7"
  "IsDigit plain_lib c \<longleftrightarrow> 48 \<le> c \<and> c \<le> 57"
  by (simp_all add: plain_lib_def IsLetter_def IsDigit_def)

lemmas lex_run = Tokenize_def runes_ascii Let_def lex_all.simps Next_def IsSpace_def
  readIdentOrKeyword_def LookupIdent_def keyword_table_def upper_rune_def encode_ascii
  encode_runes_def lex_symbol_def plain_classes

lemmas parse_run = parse_fuel_def ParseStatement_def statement_parser_def parseClause_def
  p_look_def ppeek_def clause_defs p_bind_def p_on_def p_ret_def p_advance_def p_expect_def
  p_wrap_def comma_list_def parsePattern_def parseNodePattern_def opt_ident_def opt_label_def
  Let_def

section \<open>Text to statement\<close>

text \<open>
  A string written as a single-quoted literal, its quotes and backslashes escaped, is
  read back as one string token with exactly that text, whatever the text contains and
  whatever follows: no content can end the literal early.
\<close>

theorem string_literal_lexed:
  assumes "list_all valid_rune rs" and "list_all valid_rune rest"
  shows "Tokenize L (encode_runes (quoted rs @ rest)) =
    tok TokenString (encode_runes rs) 0 # lex_all L (length (quoted rs @ rest)) rest"
proof -
  have "list_all valid_rune (quoted rs @ rest)"
    using assms by (auto simp: quoted_def escape_rune_def list_all_iff valid_rune_def split: if_splits)
  then have "runes (encode_runes (quoted rs @ rest)) = quoted rs @ rest"
    by (rule runes_encode_runes)
  then show ?thesis
    by (simp only: Tokenize_def Let_def lex_all.simps [of L _ "quoted rs @ rest"] Next_quoted) simp
qed

theorem string_literal_lexed_witness:
  "Tokenize plain_lib (encode_runes (quoted [39, 92, 0x1F600] @ [41])) =
    tok TokenString (encode_runes [39, 92, 0x1F600]) 0 #
    lex_all plain_lib (length (quoted [39, 92, 0x1F600] @ [41])) [41]"
  by (rule string_literal_lexed) (simp_all add: valid_rune_def)

text \<open>
  C18. Parsing terminates for every input: the fuel \<open>ParseStatement\<close> supplies, five units per
  token and five more, is never used up, whatever tokens it is given.
\<close>

theorem parse_terminates: "ParseStatement L ts \<noteq> Panic \<and> Parse L input \<noteq> Panic"
  using statement_parser_returns [of ts _ L] Parse_returns [of L input]
  by (auto simp: ParseStatement_def parse_fuel_def split: parsed.splits)

text \<open>
  C19. Every statement the parser accepts is well formed: patterns alternate nodes and edges,
  property keys of a pattern are distinct, labels contain no colon, LIMIT and SKIP are not
  negative. So the planner never indexes a pattern out of range, and the plan it returns has
  the same labels, keys and counts.
\<close>

theorem parsed_statements_planned:
  assumes "Parse L input = Ok stmt"
  shows "statement_ok stmt \<and> Plan stmt \<noteq> Panic \<and> (\<forall>p. Plan stmt = Ok p \<longrightarrow> plan_ok p)"
  using Parse_ok [OF assms] Plan_Parse [OF assms] by (simp add: planned_def)

lemma sample_parse:
  "Parse plain_lib ''CREATE (n:T)'' = Ok [CreateClause
    [\<lparr>pt_nodes = [\<lparr>np_variable = ''n'', np_label = ''T'', np_props = None\<rparr>], pt_edges = []\<rparr>]]"
proof -
  have "Tokenize plain_lib ''CREATE (n:T)'' = [tok TokenCREATE ''CREATE'' 0,
      tok TokenLParen ''('' 7, tok TokenIdent ''n'' 8, tok TokenColon '':'' 9,
      tok TokenIdent ''T'' 10, tok TokenRParen '')'' 11, tok TokenEOF [] 12]"
    by (simp add: lex_run char_of_def bit_Suc_0_iff)
  then show ?thesis by (simp add: Parse_def parse_run numeral_eq_Suc)
qed

theorem parsed_statements_planned_witness:
  "\<exists>stmt. Parse plain_lib ''CREATE (n:T)'' = Ok stmt \<and> statement_ok stmt \<and> Plan stmt \<noteq> Panic"
  using sample_parse parsed_statements_planned [OF sample_parse] by blast

text \<open>
  C17. Every expression of the language, written with as few parentheses as its precedence
  allows (OR below AND below NOT below comparison, AND and OR associating to the left), is
  parsed back to itself, whatever tokens follow that do not continue it.
\<close>

theorem expression_roundtrip:
  assumes "writable e" and "stops 0 rest" and "5 * length (show_at 0 e) + 5 \<le> n"
  shows "parseExpr L n (show_at 0 e @ rest) = POk e rest"
  using readable_writable [OF assms(1), of L] readsD [of L 0 e n rest] assms(2,3)
  by (simp add: readable_def)

theorem expression_roundtrip_witness:
  "let e = BinaryExpr (UnaryExpr ''NOT'' (BinaryExpr (IdentExpr ''a'') ''='' (LiteralExpr (VInt 1))))
     ''AND'' (BinaryExpr (IdentExpr ''b'') ''OR'' (IdentExpr ''c'')) in
   show_at 0 e = [tk TokenNOT ''NOT'', tk TokenIdent ''a'', tk TokenEQ ''='', tk TokenInt ''1'',
     tk TokenAND ''AND'', tk TokenLParen ''('', tk TokenIdent ''b'', tk TokenOR ''OR'',
     tk TokenIdent ''c'', tk TokenRParen '')''] \<and>
   parseExpr plain_lib 55 (show_at 0 e @ [tk TokenEOF []]) = POk e [tk TokenEOF []]"
proof -
  define e where "e = BinaryExpr (UnaryExpr ''NOT'' (BinaryExpr (IdentExpr ''a'') ''=''
    (LiteralExpr (VInt 1)))) ''AND'' (BinaryExpr (IdentExpr ''b'') ''OR'' (IdentExpr ''c''))"
  have s: "show_at 0 e = [tk TokenNOT ''NOT'', tk TokenIdent ''a'', tk TokenEQ ''='',
     tk TokenInt ''1'', tk TokenAND ''AND'', tk TokenLParen ''('', tk TokenIdent ''b'',
     tk TokenOR ''OR'', tk TokenIdent ''c'', tk TokenRParen '')'']"
    unfolding e_def by code_simp
  have "writable e" by (simp add: e_def compare_ops_def int64_min_def)
  moreover have "stops 0 [tk TokenEOF []]" by (simp add: stops_def continues_def compare_ops_def)
  ultimately have "parseExpr plain_lib 55 (show_at 0 e @ [tk TokenEOF []]) = POk e [tk TokenEOF []]"
    by (rule expression_roundtrip) (simp add: s)
  with s show ?thesis unfolding e_def Let_def by blast
qed

section \<open>Statement to graph\<close>

abbreviation graph_nodes :: "'s kvops \<Rightarrow> 's graph \<Rightarrow> string \<Rightarrow> node option" where
  "graph_nodes kv g \<equiv> badger_nodes kv (g_store g)"

abbreviation graph_edges :: "'s kvops \<Rightarrow> 's graph \<Rightarrow> string \<Rightarrow> edge option" where
  "graph_edges kv g \<equiv> badger_edges kv (g_store g)"

text \<open>
  C13. Whatever the text of a query and its parameters, executing it keeps the store
  consistent (documents and index entries in step), and creates no dangling edge: from the
  bytes of the statement to the keys of the database.
\<close>

theorem execute_keeps_graph:
  assumes "badger_inv kv (g_store g)"
  shows "let g' = snd (Execute (badger_executor kv F L S) cypher params g) in
    badger_inv kv (g_store g') \<and>
    (no_dangling (graph_nodes kv g) (graph_edges kv g) \<longrightarrow>
     no_dangling (graph_nodes kv g') (graph_edges kv g'))"
  using badger_indexed.execute_reach [OF executor_fields(1) badger_indexed.procs_safe_builtins assms]
    badger_indexed.exec_steps_no_dangling assms
  unfolding Let_def by blast

theorem execute_keeps_graph_witness:
  "let g' = snd (Execute mem_executor ''MATCH (n:Agent) DELETE n'' None knows_graph) in
    badger_inv mem_kv (g_store g') \<and> no_dangling (graph_nodes mem_kv g') (graph_edges mem_kv g')"
  using execute_keeps_graph [of mem_kv knows_graph] mem_knows_no_dangling
  by (simp add: Let_def knows_graph_def)

text \<open>A plan has SET only where the statement has.\<close>

definition is_set :: "clause \<Rightarrow> bool" where
  "is_set c \<longleftrightarrow> (case c of SetClause _ \<Rightarrow> True | _ \<Rightarrow> False)"

lemma expand_chain_no_set:
  "\<not> sets cur \<Longrightarrow> expand_chain ns es cur = Ok p \<Longrightarrow> \<not> sets p"
  by (induction ns es cur rule: expand_chain.induct) (auto split: if_splits)

lemma plan_clause_no_set:
  assumes "plan_clause c cur = Ok p" and "\<not> is_set c" and "\<And>q. cur = Some q \<Longrightarrow> \<not> sets q"
  shows "\<not> sets p"
proof (cases c)
  case (MatchClause ps)
  with assms(1) show ?thesis
    by (auto simp: plan_clause_def planMatch_def dest!: expand_chain_no_set [rotated]
        split: list.splits)
qed (use assms in \<open>auto simp: plan_clause_def planCreate_def planMerge_def on_source_def
      planReturn_def Let_def is_set_def split: list.splits option.splits if_splits\<close>)

lemma plan_clauses_no_set:
  "plan_clauses cs cur = Ok p \<Longrightarrow> list_all (\<lambda>c. \<not> is_set c) cs \<Longrightarrow>
    (\<And>q. cur = Some q \<Longrightarrow> \<not> sets q) \<Longrightarrow> \<not> sets p"
proof (induction cs arbitrary: cur)
  case (Cons c cs)
  then obtain q where "plan_clause c cur = Ok q" "plan_clauses cs (Some q) = Ok p"
    by (auto split: outcome.splits)
  with Cons show ?case using plan_clause_no_set [of c cur q] by auto
qed (auto split: option.splits)

text \<open>
  C20. A statement without a SET clause never panics: every malformed text, unknown
  procedure, missing node or failing write comes back as an error value.
\<close>

theorem execute_panics_only_in_set:
  assumes "badger_inv kv (g_store g)"
    and "\<forall>stmt. Parse L cypher = Ok stmt \<longrightarrow> list_all (\<lambda>c. \<not> is_set c) stmt"
  shows "fst (Execute (badger_executor kv F L S) cypher params g) \<noteq> Panic"
proof (rule badger_indexed.execute_safe [OF executor_fields(1) badger_indexed.procs_safe_builtins
      assms(1)])
  fix stmt p
  assume "Parse (ex_lib (badger_executor kv F L S)) cypher = Ok stmt" and "Plan stmt = Ok p"
  with assms(2) show "\<not> sets p"
    using plan_clauses_no_set [of stmt None p] by (simp add: Plan_def)
qed

theorem execute_panics_only_in_set_witness:
  "fst (Execute mem_executor ''CREATE (n:T)'' None knows_graph) \<noteq> Panic"
  by (rule execute_panics_only_in_set) (simp_all add: sample_parse is_set_def)

lemma match_single_hop:
  assumes inv: "badger_inv kv (g_store g)" and l: "colon_free (np_label a)"
    and "np_variable a \<noteq> ep_variable r" and "np_variable a \<noteq> np_variable b"
    and "ep_variable r \<noteq> np_variable b" and "ep_variable r \<noteq> []"
  shows "\<exists>plan rs. planMatch (\<lparr>pt_nodes = [a, b], pt_edges = [r]\<rparr> # others) = Ok plan \<and>
    executePlan (badger_executor kv F L S) params plan g = (Ok rs, g) \<and>
    set (rs_rows rs) =
      hop_rows (graph_nodes kv g) (graph_edges kv g)
        (if ep_direction r = EdgeLeft then e_to else e_from)
        (if ep_direction r = EdgeLeft then e_from else e_to)
        (\<lambda>n. n_label n = np_label a \<and> filter_ok F (np_props a) n)
        (np_variable a) (ep_variable r) (ep_label r) (np_variable b) (np_label b)"
proof -
  let ?E = "badger_executor kv F L S" and ?s = "g_store g"
  have out: "\<exists>ks. st_out_ids (badger_storage kv) i ?s = (Ok ks, ?s) \<and>
      (\<forall>k e. graph_edges kv g k = Some e \<longrightarrow> (k \<in> set ks \<longleftrightarrow> e_from e = i))" for i
    using badger_indexed.out_ids [OF inv] by blast
  have inn: "\<exists>ks. st_in_ids (badger_storage kv) i ?s = (Ok ks, ?s) \<and>
      (\<forall>k e. graph_edges kv g k = Some e \<longrightarrow> (k \<in> set ks \<longleftrightarrow> e_to e = i))" for i
    using badger_indexed.in_ids [OF inv] by blast
  note hop = badger_indexed.expand_scan_run [OF executor_fields(1) _ inv l assms(3-6),
      of True F L S, simplified]
  show ?thesis
  proof (cases "ep_direction r = EdgeLeft")
    case True
    with hop [of "st_in_ids (badger_storage kv)" e_to, OF inn] show ?thesis
      by (simp add: planMatch_def execExpandIn_def)
  next
    case False
    with hop [of "st_out_ids (badger_storage kv)" e_from, OF out] show ?thesis
      by (simp add: planMatch_def execExpandOut_def)
  qed
qed

text \<open>
  C14. One hop of a MATCH returns exactly the triples of the stored graph: a node with the
  source pattern's label and properties, an edge with the asked label that leaves it (enters
  it, for a left arrow), and the node at its other end with the asked label. Only the first
  pattern of the clause counts, the others are ignored.
\<close>

theorem match_hop_rows:
  assumes inv: "badger_inv kv (g_store g)" and l: "colon_free (np_label a)"
    and "np_variable a \<noteq> ep_variable r" and "np_variable a \<noteq> np_variable b"
    and "ep_variable r \<noteq> np_variable b" and "ep_variable r \<noteq> []"
  shows "\<exists>plan rs. planMatch (\<lparr>pt_nodes = [a, b], pt_edges = [r]\<rparr> # others) = Ok plan \<and>
    executePlan (badger_executor kv F L S) params plan g = (Ok rs, g) \<and>
    set (rs_rows rs) =
      hop_rows (graph_nodes kv g) (graph_edges kv g)
        (if ep_direction r = EdgeLeft then e_to else e_from)
        (if ep_direction r = EdgeLeft then e_from else e_to)
        (\<lambda>n. n_label n = np_label a \<and> filter_ok F (np_props a) n)
        (np_variable a) (ep_variable r) (ep_label r) (np_variable b) (np_label b)"
  using match_single_hop [OF assms] .

text \<open>Ann knows Bob, found along the edge and against it.\<close>

theorem match_hop_rows_witness:
  "\<exists>plan rs. planMatch [\<lparr>pt_nodes = [\<lparr>np_variable = ''a'', np_label = ''Agent'', np_props = None\<rparr>,
       \<lparr>np_variable = ''b'', np_label = ''Agent'', np_props = None\<rparr>],
     pt_edges = [\<lparr>ep_variable = ''r'', ep_label = ''KNOWS'', ep_direction = EdgeRight\<rparr>]\<rparr>] = Ok plan \<and>
    executePlan mem_executor None plan knows_graph = (Ok rs, knows_graph) \<and>
    [(''a'', nodeToMap ann), (''r'', edgeToMap knows), (''b'', nodeToMap bob)] \<in> set (rs_rows rs)"
proof -
  let ?a = "\<lparr>np_variable = ''a'', np_label = ''Agent'', np_props = None\<rparr>"
  let ?b = "\<lparr>np_variable = ''b'', np_label = ''Agent'', np_props = None\<rparr>"
  let ?r = "\<lparr>ep_variable = ''r'', ep_label = ''KNOWS'', ep_direction = EdgeRight\<rparr>"
  have "[(''a'', nodeToMap ann), (''r'', edgeToMap knows), (''b'', nodeToMap bob)] \<in>
      hop_rows (graph_nodes mem_kv knows_graph) (graph_edges mem_kv knows_graph) e_from e_to
        (\<lambda>n. n_label n = ''Agent'' \<and> filter_ok plain_fmt None n) ''a'' ''r'' ''KNOWS'' ''b'' ''Agent''"
    unfolding hop_rows_def
    by (intro CollectI exI [of _ ann] exI [of _ knows] exI [of _ bob])
      (simp add: knows_graph_def mem_knows_nodes ann_def [symmetric] bob_def [symmetric]
        knows_def [symmetric] filter_ok_def, simp add: ann_def bob_def knows_def mem_knows_nodes [unfolded ann_def bob_def knows_def])
  with match_hop_rows [of mem_kv knows_graph ?a ?r ?b "[]" plain_fmt plain_lib no_search None]
  show ?thesis by auto
qed

text \<open>
  MERGE is idempotent where the stored form of every property prints like the value
  given (strings, Booleans, null): when it succeeds, repeating it changes nothing at all, it
  finds the node.
\<close>

theorem merge_idempotent:
  assumes "badger_inv kv (g_store g)" and "colon_free l"
    and "\<forall>q. ps = Some q \<longrightarrow> distinct (map fst q)"
    and "\<forall>k x w. (k, x) \<in> set (eval_props ps params) \<longrightarrow> json_norm x = Some w \<longrightarrow>
      sprint F w = sprint F x"
    and "executePlan (badger_executor kv F L S) params (MergeNodePlan v l ps) g = (Ok r, g1)"
  shows "\<exists>r2. executePlan (badger_executor kv F L S) params (MergeNodePlan v l ps) g1 = (Ok r2, g1)"
  using badger_indexed.merge_twice [of "badger_executor kv F L S" kv g l ps params v r g1] assms
  by simp

abbreviation merge_ann :: plan_node where
  "merge_ann \<equiv> MergeNodePlan ''n'' ''Agent'' (Some [(''name'', LiteralExpr (VStr ''Ann''))])"

lemma merge_ann_runs: "\<exists>r g1. executePlan mem_executor None merge_ann fresh_graph = (Ok r, g1)"
proof -
  have "case fst (executePlan mem_executor None merge_ann fresh_graph) of Ok _ \<Rightarrow> True | _ \<Rightarrow> False"
    by code_simp
  then show ?thesis by (cases "executePlan mem_executor None merge_ann fresh_graph")
      (auto split: outcome.splits)
qed

theorem merge_idempotent_witness:
  "\<exists>r g1 r2. executePlan mem_executor None merge_ann fresh_graph = (Ok r, g1) \<and>
    executePlan mem_executor None merge_ann g1 = (Ok r2, g1)"
proof -
  obtain r g1 where run: "executePlan mem_executor None merge_ann fresh_graph = (Ok r, g1)"
    using merge_ann_runs by blast
  have "\<exists>r2. executePlan mem_executor None merge_ann g1 = (Ok r2, g1)"
    by (rule merge_idempotent [OF _ _ _ _ run]) (simp_all add: eval_props_def)
  with run show ?thesis by blast
qed

text \<open>
  MERGE on a property whose stored form prints differently from the value given (an
  integer comes back as a float64, and from a million on its text is another) never finds
  its own node: every repetition creates one more.
\<close>

theorem merge_duplicates:
  assumes "badger_inv kv (g_store g)" and "colon_free l"
    and "\<forall>q. ps = Some q \<longrightarrow> distinct (map fst q)"
    and "(k, x) \<in> set (eval_props ps params)" and "json_norm x = Some w"
    and "sprint F w \<noteq> sprint F x"
    and "\<forall>i n. graph_nodes kv g i = Some n \<longrightarrow> n_label n = l \<longrightarrow>
      \<not> matchPropsExact F (n_props n) (eval_props ps params)"
    and "executePlan (badger_executor kv F L S) params (MergeNodePlan v l ps) g = (Ok r, g1)"
  shows "executePlan (badger_executor kv F L S) params (MergeNodePlan v l ps) g1 =
    executePlan (badger_executor kv F L S) params (CreateNodePlan v l ps) g1"
  using badger_indexed.merge_again [of "badger_executor kv F L S" kv g l ps k x params w v r g1] assms
  by simp

lemma fresh_nodes [simp]: "graph_nodes mem_kv fresh_graph i = None"
  by (simp add: fresh_graph_def badger_nodes_def node_at_def)

text \<open>A million is stored as a float64, whose text is \<open>1e+06\<close>.\<close>

definition sci_fmt :: gofmt where
  "sci_fmt = plain_fmt\<lparr>float_text := (\<lambda>_. ''1e+06'')\<rparr>"

abbreviation sci_executor :: "mem executor_env" where
  "sci_executor \<equiv> badger_executor mem_kv sci_fmt plain_lib no_search"

abbreviation million :: "(string \<times> expr) list option" where
  "million \<equiv> Some [(''size'', LiteralExpr (VInt 1000000))]"

lemma million_text: "show_int (sint (1000000 :: 64 word)) = ''1000000''"
  by (simp add: show_int_def show_nat.simps digit_char_def char_of_def bit_Suc_0_iff)

lemma merge_million_runs:
  "\<exists>r g1. executePlan sci_executor None (MergeNodePlan ''n'' ''Agent'' million) fresh_graph = (Ok r, g1)"
proof -
  obtain ns where scan: "graph_NodesByLabel mem_ops ''Agent'' fresh_graph = (Ok ns, fresh_graph)"
    and ns: "set ns = {n. graph_nodes mem_kv fresh_graph (n_id n) = Some n \<and> n_label n = ''Agent''}"
    using badger.nodes_by_label [of mem_kv "g_store fresh_graph" "''Agent''"]
    by (auto simp: graph_NodesByLabel_def on_store_def)
  have empty: "ns = []" using ns by simp
  define n where "n = new_node fresh_graph ''Agent'' (Some [(''size'', VInt 1000000)])"
  have "\<exists>m. node_json n = Some m"
    by (simp add: n_def new_node_def node_json_def json_time_ok_def fresh_graph_def props_json_def)
  then have "fst (PutNode mem_kv n (g_store fresh_graph)) = Ok ()"
    using mem_put_node by blast
  then have "\<exists>g1. CreateNode mem_ops ''Agent'' (Some [(''size'', VInt 1000000)]) fresh_graph = (Ok n, g1)"
    by (cases "PutNode mem_kv n (g_store fresh_graph)")
      (simp add: CreateNode_run badger_storage_def n_def)
  then show ?thesis
    by (auto simp: execMergeNode_def scan empty eval_props_def go_bind_def go_ret_def Let_def)
qed

theorem merge_duplicates_witness:
  "\<exists>r g1. executePlan sci_executor None (MergeNodePlan ''n'' ''Agent'' million) fresh_graph = (Ok r, g1) \<and>
    executePlan sci_executor None (MergeNodePlan ''n'' ''Agent'' million) g1 =
    executePlan sci_executor None (CreateNodePlan ''n'' ''Agent'' million) g1"
proof -
  obtain r g1 where
    run: "executePlan sci_executor None (MergeNodePlan ''n'' ''Agent'' million) fresh_graph = (Ok r, g1)"
    using merge_million_runs by blast
  have "executePlan sci_executor None (MergeNodePlan ''n'' ''Agent'' million) g1 =
    executePlan sci_executor None (CreateNodePlan ''n'' ''Agent'' million) g1"
    by (rule merge_duplicates [where k = "''size''" and x = "VInt 1000000" and
        w = "VFloat (f64_of_int 1000000)", OF _ _ _ _ _ _ _ run])
      (simp_all add: eval_props_def sprint_def sci_fmt_def million_text [simplified])
  with run show ?thesis by blast
qed

text \<open>
  C15. \<open>MATCH (v:label {props}) DELETE v\<close>, when it succeeds, removes exactly the nodes with
  the label and the properties, and exactly the edges that start or end at one of them.
\<close>

theorem delete_query_exact:
  assumes "badger_inv kv (g_store g)" and "colon_free l"
    and "executePlan (badger_executor kv F L S) params (DeletePlan (ScanByLabel v l ps) [v]) g =
      (Ok r, g')"
  shows "graph_nodes kv g' = (\<lambda>i. case graph_nodes kv g i of None \<Rightarrow> None
      | Some n \<Rightarrow> if n_label n = l \<and> filter_ok F ps n then None else Some n) \<and>
    graph_edges kv g' = (\<lambda>k. case graph_edges kv g k of None \<Rightarrow> None
      | Some e \<Rightarrow> if \<exists>n. graph_nodes kv g (n_id n) = Some n \<and> n_label n = l \<and>
            filter_ok F ps n \<and> incident (n_id n) e then None else Some e)"
  using badger_indexed.delete_scan_run [of "badger_executor kv F L S" kv g l v ps r g',
    unfolded executor_fields] assms by simp

text \<open>Deleting Bob takes the edge from Ann along.\<close>

abbreviation bob_filter :: "(string \<times> expr) list option" where
  "bob_filter \<equiv> Some [(''name'', LiteralExpr (VStr ''Bob''))]"

lemma delete_bob_runs:
  "\<exists>r g'. executePlan mem_executor None (DeletePlan (ScanByLabel ''n'' ''Agent'' bob_filter) [''n''])
    knows_graph = (Ok r, g')"
proof -
  have "case fst (executePlan mem_executor None
      (DeletePlan (ScanByLabel ''n'' ''Agent'' bob_filter) [''n'']) knows_graph) of
    Ok _ \<Rightarrow> True | _ \<Rightarrow> False"
    by code_simp
  then show ?thesis
    by (cases "executePlan mem_executor None
      (DeletePlan (ScanByLabel ''n'' ''Agent'' bob_filter) [''n'']) knows_graph")
      (auto split: outcome.splits)
qed

theorem delete_query_exact_witness:
  "\<exists>r g'. executePlan mem_executor None (DeletePlan (ScanByLabel ''n'' ''Agent'' bob_filter) [''n''])
      knows_graph = (Ok r, g') \<and> graph_nodes mem_kv g' ''n:Agent:bob'' = None \<and>
    graph_nodes mem_kv g' ''n:Agent:ann'' = Some ann \<and> graph_edges mem_kv g' ''e:KNOWS:1'' = None"
proof -
  obtain r g' where run: "executePlan mem_executor None
      (DeletePlan (ScanByLabel ''n'' ''Agent'' bob_filter) [''n'']) knows_graph = (Ok r, g')"
    using delete_bob_runs by blast
  note del = delete_query_exact [OF knows_graph_inv _ run, simplified]
  have "\<exists>n. badger_nodes mem_kv mem_knows (n_id n) = Some n \<and> n_label n = ''Agent'' \<and>
      filter_ok plain_fmt bob_filter n \<and> incident (n_id n) knows"
    by (intro exI [of _ bob]) (simp add: mem_knows_nodes [unfolded bob_def] bob_def filter_ok_def
        matchProps_def row_get_def incident_def knows_def)
  with del run show ?thesis
    by (auto simp: knows_graph_def mem_knows_nodes filter_ok_def matchProps_def row_get_def)
      (simp_all add: ann_def bob_def)
qed

section \<open>Rows, order and counts\<close>

lemma strict_weak_row_less: "strict_weak (row_less F params items)"
proof (induction items)
  case Nil
  have "row_less F params [] = (\<lambda>_ _. False)" by (simp add: fun_eq_iff)
  then show ?case by (simp add: strict_weak_def)
next
  case (Cons i rest)
  let ?key = "\<lambda>r. sprint F (evalExpr (oi_expr i) (Some r) params)"
  let ?lt = "if oi_desc i then (\<lambda>r s. ?key s < ?key r) else (\<lambda>r s. ?key r < ?key s)"
  have "strict_weak ?lt"
    using strict_weak_key [of ?key] strict_weak_converse [OF strict_weak_key [of ?key]] by simp
  moreover have "row_less F params (i # rest) = (\<lambda>r s. ?lt r s \<or> \<not> ?lt s r \<and> row_less F params rest r s)"
    by (auto simp: fun_eq_iff compareValues_def Let_def)
  ultimately show ?case using strict_weak_lex [OF _ Cons.IH, of ?lt] by simp
qed




text \<open>
  ORDER BY returns the rows it was given, reordered so that no row stands after a row that
  is greater by the listed keys, and rows that agree on all keys keep their order. (Keys
  compare as their printed text, so the order is the lexicographic one of those texts.)
\<close>

theorem order_by_stable:
  "mset (rs_rows (execSort F items params src)) = mset (rs_rows src) \<and>
   sorted_wrt (\<lambda>r s. \<not> row_less F params items s r) (rs_rows (execSort F items params src)) \<and>
   filter (\<lambda>s. \<not> row_less F params items r s \<and> \<not> row_less F params items s r)
     (rs_rows (execSort F items params src)) =
   filter (\<lambda>s. \<not> row_less F params items r s \<and> \<not> row_less F params items s r) (rs_rows src)"
  using sorted_sort_by [OF strict_weak_row_less] sort_by_stable [OF strict_weak_row_less]
  by (simp add: execSort_def)

text \<open>
  SKIP and LIMIT of a parsed statement cut the rows without panicking: SKIP drops that
  many (all, if there are fewer), LIMIT keeps that many of the rest (all, if there are fewer).
\<close>

theorem limit_skip_rows:
  assumes "executePlan E params p g = (Ok src, g1)" and "plan_ok (LimitOffset p limit skip)"
  shows "executePlan E params (LimitOffset p limit skip) g = (Ok (src\<lparr>rs_rows :=
      (case limit of None \<Rightarrow> \<lambda>rs. rs | Some l \<Rightarrow> take (nat l))
        ((case skip of None \<Rightarrow> \<lambda>rs. rs | Some k \<Rightarrow> drop (nat k)) (rs_rows src))\<rparr>), g1)"
  using assms by (auto simp: go_bind_def execLimitOffset_def Let_def go_ret_def count_ok_def
      nat_le_iff split: option.splits)

theorem limit_skip_rows_witness:
  "\<exists>src. executePlan mem_executor None (ScanByLabel ''n'' ''Agent'' None) knows_graph = (Ok src, knows_graph) \<and>
    executePlan mem_executor None (LimitOffset (ScanByLabel ''n'' ''Agent'' None) (Some 1) (Some 3)) knows_graph =
    (Ok (src\<lparr>rs_rows := take 1 (drop 3 (rs_rows src))\<rparr>), knows_graph)"
proof -
  obtain ns where "execScan mem_executor ''n'' ''Agent'' None knows_graph =
      (Ok (rows_of [''n''] (map (\<lambda>n. [(''n'', nodeToMap n)]) ns)), knows_graph)"
    by (rule badger_indexed.scan_run [of mem_executor mem_kv knows_graph "''Agent''" "''n''" None]) auto
  then have run: "executePlan mem_executor None (ScanByLabel ''n'' ''Agent'' None) knows_graph =
      (Ok (rows_of [''n''] (map (\<lambda>n. [(''n'', nodeToMap n)]) ns)), knows_graph)"
    by simp
  have "plan_ok (LimitOffset (ScanByLabel ''n'' ''Agent'' None) (Some 1) (Some 3))"
    by (simp add: count_ok_def)
  from limit_skip_rows [OF run this] run show ?thesis by (simp del: executePlan.simps)
qed

text \<open>Numbers compare as text: 10 is less than 9.\<close>

lemma comparison_is_textual:
  "evalBool F (BinaryExpr (LiteralExpr (VInt 10)) ''<'' (LiteralExpr (VInt 9))) row params"
  by (simp add: compareValues_def sprint_def show_int_def show_nat.simps digit_char_def
      char_of_def bit_Suc_0_iff less_char_def)

end
