(* ===== verification/Go_Json.thy ===== *)
theory Go_Json
  imports Go_Runes "HOL-Library.Monad_Syntax"
begin

text \<open>
  \<open>encoding/json\<close> as far as the code reads with it: the text of a value is parsed into a
  tree that keeps the raw text of every object member (for \<open>json.RawMessage\<close>), and struct
  fields are filled from the members in order. What the code never inspects is left out:
  which error \<open>Unmarshal\<close> returns. Nesting beyond 10000 levels is an error.
\<close>

section \<open>Tokens\<close>

definition json_space :: "char \<Rightarrow> bool" where
  "json_space c \<longleftrightarrow> c \<in> {CHR '' '', CHR 0x09, CHR 0x0A, CHR 0x0D}"

definition skip_space :: "string \<Rightarrow> string" where
  "skip_space s = dropWhile json_space s"

lemma skip_space_length: "length (skip_space s) \<le> length s"
  unfolding skip_space_def by (rule length_dropWhile_le)

lemma skip_space_less: "skip_space s = c # cs \<Longrightarrow> length cs < length s"
  using skip_space_length [of s] by simp

definition hex_value :: "nat \<Rightarrow> nat option" where
  "hex_value b = (if 48 \<le> b \<and> b \<le> 57 then Some (b - 48)
     else if 97 \<le> b \<and> b \<le> 102 then Some (b - 87)
     else if 65 \<le> b \<and> b \<le> 70 then Some (b - 55) else None)"

text \<open>The raw text between the quotes, checked, and what follows the closing quote.\<close>

definition escape_char :: "char \<Rightarrow> bool" where
  "escape_char c \<longleftrightarrow> c \<in> set (''bfnrt/'' @ [CHR 0x22, CHR 0x5C])"

definition string_escape :: "string \<Rightarrow> (string \<times> string) option" where
  "string_escape cs = (case cs of
       [] \<Rightarrow> None
     | e # ds \<Rightarrow>
        if escape_char e then Some ([e], ds)
        else if e = CHR ''u'' \<and> 4 \<le> length ds \<and>
            list_all (\<lambda>h. hex_value (of_char h) \<noteq> None) (take 4 ds)
        then Some (e # take 4 ds, drop 4 ds) else None)"

lemma string_escape_length: "string_escape cs = Some (x, rest) \<Longrightarrow> length rest < length cs"
  by (auto simp: string_escape_def split: list.splits if_splits)

function (sequential) string_body :: "string \<Rightarrow> (string \<times> string) option" where
  "string_body [] = None"
| "string_body (c # cs) =
     (if c = CHR 0x22 then Some ([], cs)
      else if c = CHR 0x5C then (case string_escape cs of
          None \<Rightarrow> None
        | Some (x, rest) \<Rightarrow> map_option (apfst (\<lambda>b. c # x @ b)) (string_body rest))
      else if of_char c < (32 :: nat) then None
      else map_option (apfst (\<lambda>b. c # b)) (string_body cs))"
  by pat_completeness auto
termination
  by (relation "measure length") (auto dest!: string_escape_length)

lemma string_body_length: "string_body s = Some (b, r) \<Longrightarrow> length r < length s"
proof (induction s arbitrary: b r rule: string_body.induct)
  case (2 c cs)
  consider "c = CHR 0x22" | x t where "c = CHR 0x5C" "string_escape cs = Some (x, t)"
    | "c = CHR 0x5C" "string_escape cs = None" | "c \<noteq> CHR 0x22" "c \<noteq> CHR 0x5C"
    by (cases "string_escape cs") auto
  then show ?case
  proof cases
    case (2 x t)
    with "2.prems" "2.IH"(1) [of "(x, t)" x t] string_escape_length [OF 2(2)] show ?thesis
      by fastforce
  next
    case 4
    with "2.prems" "2.IH"(2) show ?thesis by (fastforce split: if_splits)
  qed (use 2 in simp_all)
qed simp

text \<open>The runes a raw text stands for. A surrogate without its partner reads as U+FFFD.\<close>

definition hex4 :: "nat list \<Rightarrow> nat" where
  "hex4 bs = foldl (\<lambda>n b. 16 * n + (case hex_value b of None \<Rightarrow> 0 | Some h \<Rightarrow> h)) 0 (take 4 bs)"

definition unicode_escape :: "nat list \<Rightarrow> nat \<times> nat" where
  "unicode_escape bs =
     (let r = hex4 bs; s = hex4 (drop 6 bs) in
      if 0xD800 \<le> r \<and> r \<le> 0xDFFF
      then if r \<le> 0xDBFF \<and> take 2 (drop 4 bs) = [92, 117] \<and> 0xDC00 \<le> s \<and> s \<le> 0xDFFF
        then ((r - 0xD800) * 1024 + (s - 0xDC00) + 0x10000, 10)
        else (0xFFFD, 4)
      else (r, 4))"

definition simple_escape :: "nat \<Rightarrow> nat" where
  "simple_escape b = (if b = 98 then 8 else if b = 102 then 12 else if b = 110 then 10
     else if b = 114 then 13 else if b = 116 then 9 else b)"

fun unquote :: "nat list \<Rightarrow> nat list" where
  "unquote [] = []"
| "unquote (b # bs) =
     (if b = 92 then (case bs of
          [] \<Rightarrow> []
        | e # cs \<Rightarrow>
           if e = 117 then (let (r, w) = unicode_escape cs in r # unquote (drop w cs))
           else simple_escape e # unquote cs)
      else let (r, w) = decode_rune (b # bs) in r # unquote (drop (w - 1) bs))"

definition json_text :: "string \<Rightarrow> string" where
  "json_text body = encode_runes (unquote (map of_char body))"

text \<open>A number literal and what follows it.\<close>

definition digits_of :: "string \<Rightarrow> (string \<times> string) option" where
  "digits_of s = (if takeWhile is_digit s = [] then None
     else Some (takeWhile is_digit s, dropWhile is_digit s))"

definition int_part :: "string \<Rightarrow> (string \<times> string) option" where
  "int_part s = (case s of
       [] \<Rightarrow> None
     | c # cs \<Rightarrow> if c = CHR ''0'' then Some ([c], cs) else digits_of s)"

definition frac_part :: "string \<Rightarrow> (string \<times> string) option" where
  "frac_part s = (case s of
       c # cs \<Rightarrow> if c = CHR ''.'' then map_option (apfst (\<lambda>d. c # d)) (digits_of cs)
         else Some ([], s)
     | [] \<Rightarrow> Some ([], []))"

definition exp_part :: "string \<Rightarrow> (string \<times> string) option" where
  "exp_part s = (case s of
       c # cs \<Rightarrow> if c = CHR ''e'' \<or> c = CHR ''E''
         then (case cs of
             d # ds \<Rightarrow> if d = CHR ''+'' \<or> d = CHR ''-''
               then map_option (apfst (\<lambda>x. c # d # x)) (digits_of ds)
               else map_option (apfst (\<lambda>x. c # x)) (digits_of cs)
           | [] \<Rightarrow> None)
         else Some ([], s)
     | [] \<Rightarrow> Some ([], []))"

definition json_number :: "string \<Rightarrow> (string \<times> string) option" where
  "json_number s = (let sign = takeWhile (\<lambda>c. c = CHR ''-'') (take 1 s) in do {
     (i, s1) \<leftarrow> int_part (drop (length sign) s);
     (f, s2) \<leftarrow> frac_part s1;
     (e, s3) \<leftarrow> exp_part s2;
     Some (sign @ i @ f @ e, s3)})"

lemma digits_of_length: "digits_of s = Some (d, r) \<Longrightarrow> length r < length s"
proof -
  assume d: "digits_of s = Some (d, r)"
  then have "takeWhile is_digit s \<noteq> []" "r = dropWhile is_digit s"
    by (auto simp: digits_of_def split: if_splits)
  then show ?thesis
    using arg_cong [OF takeWhile_dropWhile_id [of is_digit s], of length] by (cases "takeWhile is_digit s") auto
qed

lemma int_part_length: "int_part s = Some (d, r) \<Longrightarrow> length r < length s"
  by (auto simp: int_part_def split: list.splits if_splits dest: digits_of_length)

lemma frac_part_length: "frac_part s = Some (d, r) \<Longrightarrow> length r \<le> length s"
  by (fastforce simp: frac_part_def split: list.splits if_splits dest: digits_of_length)

lemma exp_part_length: "exp_part s = Some (d, r) \<Longrightarrow> length r \<le> length s"
  by (fastforce simp: exp_part_def split: list.splits if_splits dest: digits_of_length)

lemma json_number_length: "json_number s = Some (d, r) \<Longrightarrow> length r < length s"
  by (fastforce simp: json_number_def Let_def bind_eq_Some_conv
      dest!: int_part_length frac_part_length exp_part_length)

section \<open>Values\<close>

text \<open>An object member is its key, the raw text of its value, and the value.\<close>

datatype json =
    JNull
  | JBool bool
  | JNum string
  | JStr string
  | JArr "json list"
  | JObj "(string \<times> string \<times> json) list"

definition json_literal :: "string \<Rightarrow> (json \<times> string) option" where
  "json_literal s =
     (if take 4 s = ''true'' then Some (JBool True, drop 4 s)
      else if take 5 s = ''false'' then Some (JBool False, drop 5 s)
      else if take 4 s = ''null'' then Some (JNull, drop 4 s)
      else map_option (apfst JNum) (json_number s))"

lemma json_literal_length: "json_literal s = Some (v, r) \<Longrightarrow> length r < length s"
  by (cases s) (auto simp: json_literal_def split: if_splits dest: json_number_length)

definition max_depth :: int where "max_depth = 10000"

text \<open>
  A value, the elements of an array behind an element's start, and the members of an object
  behind a key's opening quote, each at nesting depth \<open>d\<close>. The two length tests always hold
  (\<open>json_shrinks\<close> below); they let the recursion be justified by the text alone.
\<close>

function (sequential) json_value :: "int \<Rightarrow> string \<Rightarrow> (json \<times> string) option"
and json_elements :: "int \<Rightarrow> string \<Rightarrow> (json list \<times> string) option"
and json_members :: "int \<Rightarrow> string \<Rightarrow> ((string \<times> string \<times> json) list \<times> string) option" where
  "json_value d s = (case skip_space s of
       [] \<Rightarrow> None
     | c # cs \<Rightarrow>
        if c = CHR ''['' then
          (if d \<ge> max_depth then None else case skip_space cs of
             x # xs \<Rightarrow> if x = CHR '']'' then Some (JArr [], xs)
               else map_option (apfst JArr) (json_elements (d + 1) cs)
           | [] \<Rightarrow> None)
        else if c = CHR ''{'' then
          (if d \<ge> max_depth then None else case skip_space cs of
             x # xs \<Rightarrow> if x = CHR ''}'' then Some (JObj [], xs)
               else if x = CHR 0x22 then map_option (apfst JObj) (json_members (d + 1) xs)
               else None
           | [] \<Rightarrow> None)
        else if c = CHR 0x22 then map_option (apfst (\<lambda>b. JStr (json_text b))) (string_body cs)
        else json_literal (c # cs))"
| "json_elements d s = (case json_value d s of
       None \<Rightarrow> None
     | Some (v, r) \<Rightarrow> (case skip_space r of
          c # cs \<Rightarrow> if c = CHR '']'' then Some ([v], cs)
            else if c = CHR '','' \<and> length r \<le> length s
            then map_option (apfst (\<lambda>vs. v # vs)) (json_elements d cs)
            else None
        | [] \<Rightarrow> None))"
| "json_members d s = (case string_body s of
       None \<Rightarrow> None
     | Some (k, r) \<Rightarrow> (case skip_space r of
          c # t \<Rightarrow> if c \<noteq> CHR '':'' then None
            else (case json_value d t of
               None \<Rightarrow> None
             | Some (v, u) \<Rightarrow>
                let raw = take (length (skip_space t) - length u) (skip_space t) in
                (case skip_space u of
                   e # es \<Rightarrow> if e = CHR ''}'' then Some ([(json_text k, raw, v)], es)
                     else if e = CHR '','' \<and> length u \<le> length t
                     then (case skip_space es of
                        q # qs \<Rightarrow> if q = CHR 0x22
                          then map_option (apfst (\<lambda>ms. (json_text k, raw, v) # ms)) (json_members d qs)
                          else None
                      | [] \<Rightarrow> None)
                     else None
                 | [] \<Rightarrow> None))
        | [] \<Rightarrow> None))"
  by pat_completeness auto
termination
proof (relation "measures [case_sum (\<lambda>(d, s). length s) (case_sum (\<lambda>(d, s). length s) (\<lambda>(d, s). length s)),
    case_sum (\<lambda>_. 0) (case_sum (\<lambda>_. 1) (\<lambda>_. 1))]", goal_cases)
qed (auto dest!: string_body_length skip_space_less)

declare json_value.simps [simp del] json_elements.simps [simp del] json_members.simps [simp del]

lemmas json_parse = json_value.simps json_elements.simps json_members.simps

text \<open>Every parser leaves less than it was given; so the length tests above always hold.\<close>

definition leaves_less :: "('a \<times> string) option \<Rightarrow> string \<Rightarrow> bool" where
  "leaves_less r s \<longleftrightarrow> (\<forall>x t. r = Some (x, t) \<longrightarrow> length t < length s)"

lemma leaves_less_simps [simp]:
  "leaves_less None s" "leaves_less (Some (x, t)) s \<longleftrightarrow> length t < length s"
  "leaves_less (map_option (apfst f) r) s \<longleftrightarrow> leaves_less r s"
  by (cases r; auto simp: leaves_less_def)+

lemma leaves_less_mono: "leaves_less r t \<Longrightarrow> length t < length s \<Longrightarrow> leaves_less r s"
  unfolding leaves_less_def using order.strict_trans by blast

lemma leaves_less_mono_le: "leaves_less r t \<Longrightarrow> length t \<le> length s \<Longrightarrow> leaves_less r s"
  unfolding leaves_less_def using order_less_le_trans by blast

lemma leaves_less_literal: "leaves_less (json_literal s) s"
  by (auto simp: leaves_less_def dest: json_literal_length)

lemma leaves_less_string: "leaves_less (string_body s) s"
  by (auto simp: leaves_less_def dest: string_body_length)

lemma json_shrinks:
  "leaves_less (json_value d s) s" "leaves_less (json_elements d s) s" "leaves_less (json_members d s) s"
proof (induction d s and d s and d s rule: json_value_json_elements_json_members.induct)
  case (1 d s)
  show ?case
  proof (cases "skip_space s")
    case (Cons c cs)
    have less: "length cs < length s" "length (c # cs) \<le> length s"
      using skip_space_length [of s] Cons by simp_all
    have lit: "leaves_less (json_literal (c # cs)) s"
      by (rule leaves_less_mono_le [OF leaves_less_literal less(2)])
    have str: "leaves_less (string_body cs) s"
      by (rule leaves_less_mono [OF leaves_less_string less(1)])
    show ?thesis
    proof (cases "skip_space cs")
      case Nil
      with \<open>skip_space s = c # cs\<close> lit str show ?thesis by (simp add: json_value.simps [of d s])
    next
      case (Cons x xs)
      from skip_space_less [OF this] less(1) have xs: "length xs < length s" by simp
      have "leaves_less (json_elements (d + 1) cs) s"
        if "c = CHR ''[''" "d < max_depth" "x \<noteq> CHR '']''"
        by (rule leaves_less_mono [OF 1(1) [OF \<open>skip_space s = c # cs\<close> _ _ Cons] less(1)])
          (use that in simp_all)
      moreover have "leaves_less (json_members (d + 1) xs) s"
        if "c = CHR ''{''" "d < max_depth" "x = CHR 0x22"
        by (rule leaves_less_mono [OF 1(2) [OF \<open>skip_space s = c # cs\<close> _ _ _ Cons] xs])
          (use that in simp_all)
      ultimately show ?thesis
        using \<open>skip_space s = c # cs\<close> Cons lit str xs by (simp add: json_value.simps [of d s])
    qed
  qed (simp add: json_value.simps [of d s])
next
  case (2 d s)
  show ?case
  proof (cases "json_value d s")
    case (Some p)
    obtain v r where p: "p = (v, r)" by fastforce
    with Some "2.IH"(1) have r: "length r < length s" by simp
    show ?thesis
    proof (cases "skip_space r")
      case (Cons c cs)
      from skip_space_less [OF this] r have cs: "length cs < length s" by simp
      have "leaves_less (json_elements d cs) s" if "c \<noteq> CHR '']''" "c = CHR '',''"
        by (rule leaves_less_mono [OF "2.IH"(2) [OF Some p [symmetric] Cons] cs]) (use that r in simp_all)
      with Cons Some p cs show ?thesis by (simp add: json_elements.simps [of d s])
    qed (simp add: Some p json_elements.simps [of d s])
  qed (simp add: json_elements.simps [of d s])
next
  case (3 d s)
  show ?case
  proof (cases "string_body s")
    case (Some p)
    obtain k r where p: "p = (k, r)" by fastforce
    from string_body_length Some p have r: "length r < length s" by blast
    note body = Some [unfolded p]
    show ?thesis
    proof (cases "skip_space r")
      case (Cons c t)
      note rt = Cons skip_space_less [OF Cons]
      show ?thesis
      proof (cases "c = CHR '':'' \<and> json_value d t \<noteq> None")
        case True
        then obtain v u where v: "json_value d t = Some (v, u)" by auto
        from True "3.IH"(1) [OF Some p [symmetric] rt(1)] v have u: "length u < length t" by simp
        show ?thesis
        proof (cases "skip_space u")
          case (Cons e es)
          with skip_space_less [OF this] u rt r have es: "length es < length s" by simp
          note ue = Cons
          show ?thesis
          proof (cases "skip_space es")
            case (Cons x qs)
            from skip_space_less [OF this] es have qs: "length qs < length s" by simp
            have "leaves_less (json_members d qs) s"
              if "e \<noteq> CHR ''}''" "e = CHR '',''" "x = CHR 0x22"
              by (rule leaves_less_mono [OF "3.IH"(2) [OF Some p [symmetric] rt(1) _ v refl refl ue _ _ Cons] qs])
                (use that True u in simp_all)
            with body rt v ue es Cons True show ?thesis by (simp add: Let_def json_members.simps [of d s])
          qed (use body rt v ue es True in \<open>simp add: Let_def json_members.simps [of d s]\<close>)
        qed (use body rt v True in \<open>simp add: Let_def json_members.simps [of d s]\<close>)
      qed (use body rt in \<open>cases "json_value d t"; auto simp: json_members.simps [of d s]\<close>)
    qed (simp add: body json_members.simps [of d s])
  qed (simp add: json_members.simps [of d s])
qed


section \<open>Unmarshal\<close>

text \<open>The raw text of the one value a document holds, and the value.\<close>

definition json_document :: "string \<Rightarrow> (string \<times> json) option" where
  "json_document s = (case json_value 0 s of
       Some (v, r) \<Rightarrow> if skip_space r = []
         then Some (take (length (skip_space s) - length r) (skip_space s), v) else None
     | None \<Rightarrow> None)"

text \<open>
  Member names match a field exactly or up to case; two letters outside ASCII fold to an
  ASCII one.
\<close>

definition fold_rune :: "nat \<Rightarrow> nat" where
  "fold_rune r = (if 97 \<le> r \<and> r \<le> 122 then r - 32
     else if r = 0x17F then 83 else if r = 0x212A then 75 else r)"

definition field_of :: "string list \<Rightarrow> string \<Rightarrow> string option" where
  "field_of names key = (if key \<in> set names then Some key
     else find (\<lambda>n. map fold_rune (runes n) = map fold_rune (runes key)) names)"

type_synonym members = "(string \<times> string \<times> json) list"

text \<open>
  The members a struct with these field names takes, under the field's name. Null leaves the
  struct as it is, anything but an object is an error.
\<close>

definition struct_members :: "string list \<Rightarrow> string \<Rightarrow> members option" where
  "struct_members names text = (case json_document text of
       Some (_, JObj ms) \<Rightarrow> Some (concat (map (\<lambda>(k, rv). case field_of names k of
           None \<Rightarrow> [] | Some n \<Rightarrow> [(n, rv)]) ms))
     | Some (_, JNull) \<Rightarrow> Some []
     | _ \<Rightarrow> None)"

text \<open>A field is set by each of its members in turn; a member of the wrong type is an error.\<close>

definition field :: "('a \<Rightarrow> string \<Rightarrow> json \<Rightarrow> 'a option) \<Rightarrow> 'a \<Rightarrow> string \<Rightarrow> members \<Rightarrow> 'a option" where
  "field set_to zero name ms = foldl (\<lambda>acc (n, raw, v). if n = name
       then Option.bind acc (\<lambda>x. set_to x raw v) else acc) (Some zero) ms"

definition set_string :: "string \<Rightarrow> string \<Rightarrow> json \<Rightarrow> string option" where
  "set_string x raw v = (case v of JStr s \<Rightarrow> Some s | JNull \<Rightarrow> Some x | _ \<Rightarrow> None)"

definition set_raw :: "string \<Rightarrow> string \<Rightarrow> json \<Rightarrow> string option" where
  "set_raw x raw v = Some raw"

definition set_int :: "int \<Rightarrow> string \<Rightarrow> json \<Rightarrow> int option" where
  "set_int x raw v = (case v of
       JNum s \<Rightarrow> (case parse_int64 s of (i, ok) \<Rightarrow> if ok then Some i else None)
     | JNull \<Rightarrow> Some x | _ \<Rightarrow> None)"

text \<open>\<open>strconv.ParseFloat\<close> is a parameter; it fails on a value out of range.\<close>

definition set_float :: "(string \<Rightarrow> 64 word option) \<Rightarrow> 64 word \<Rightarrow> string \<Rightarrow> json \<Rightarrow> 64 word option" where
  "set_float pf x raw v = (case v of JNum s \<Rightarrow> pf s | JNull \<Rightarrow> Some x | _ \<Rightarrow> None)"

fun string_items :: "json list \<Rightarrow> string list option" where
  "string_items [] = Some []"
| "string_items (v # vs) =
     Option.bind (set_string [] [] v) (\<lambda>s. map_option (\<lambda>ss. s # ss) (string_items vs))"

definition set_strings :: "string list \<Rightarrow> string \<Rightarrow> json \<Rightarrow> string list option" where
  "set_strings x raw v = (case v of JArr vs \<Rightarrow> string_items vs | JNull \<Rightarrow> Some [] | _ \<Rightarrow> None)"

text \<open>Equations that run the parser on concrete text.\<close>

lemmas json_run = json_document_def json_parse max_depth_def skip_space_def json_space_def
  json_literal_def json_number_def int_part_def frac_part_def exp_part_def digits_of_def
  is_digit_def string_escape_def escape_char_def json_text_def decode_rune_def encode_runes_def
  encode_rune_def valid_rune_def Let_def

lemma json_document_example:
  "json_document ''{ \"a\":[1,-2.5e3, true], \"b\" : {\"c\":null} }'' =
    Some (''{ \"a\":[1,-2.5e3, true], \"b\" : {\"c\":null} }'', JObj [
      (''a'', ''[1,-2.5e3, true]'', JArr [JNum ''1'', JNum ''-2.5e3'', JBool True]),
      (''b'', ''{\"c\":null}'', JObj [(''c'', ''null'', JNull)])])"
  by (simp add: json_run char_of_def bit_Suc_0_iff)

section \<open>Marshal\<close>

text \<open>
  A string as \<open>json.Marshal\<close> writes it: quotes, backslashes and control characters escaped,
  and the characters that are special in HTML and JavaScript.
\<close>

definition hex_digit :: "nat \<Rightarrow> nat" where
  "hex_digit d = (if d < 10 then 48 + d else 87 + d)"

definition hex_escape :: "nat \<Rightarrow> nat list" where
  "hex_escape r = [92, 117, hex_digit (r div 4096 mod 16), hex_digit (r div 256 mod 16),
     hex_digit (r div 16 mod 16), hex_digit (r mod 16)]"

definition json_escape :: "nat \<Rightarrow> nat list" where
  "json_escape r =
     (if r = 34 \<or> r = 92 then [92, r]
      else if r = 8 then [92, 98] else if r = 12 then [92, 102] else if r = 10 then [92, 110]
      else if r = 13 then [92, 114] else if r = 9 then [92, 116]
      else if r < 32 \<or> r = 60 \<or> r = 62 \<or> r = 38 \<or> r = 0x2028 \<or> r = 0x2029 then hex_escape r
      else map of_char (encode_rune r))"

definition json_body :: "nat list \<Rightarrow> nat list" where
  "json_body rs = concat (map json_escape rs)"

definition json_quote :: "string \<Rightarrow> string" where
  "json_quote s = CHR 0x22 # map char_of (json_body (runes s)) @ [CHR 0x22]"

lemma hex_digit_byte: "d < 16 \<Longrightarrow> hex_digit d < 256"
  by (simp add: hex_digit_def)

lemma hex_value_digit: "d < 16 \<Longrightarrow> hex_value (hex_digit d) = Some d"
  by (simp add: hex_value_def hex_digit_def)

lemma hex4_digits:
  "a < 16 \<Longrightarrow> b < 16 \<Longrightarrow> c < 16 \<Longrightarrow> d < 16 \<Longrightarrow>
    hex4 (hex_digit a # hex_digit b # hex_digit c # hex_digit d # bs) =
      16 * (16 * (16 * a + b) + c) + d"
  by (simp add: hex4_def hex_value_digit numeral_eq_Suc)

lemma hex4_escape:
  assumes "r < 65536"
  shows "hex4 (hex_digit (r div 4096 mod 16) # hex_digit (r div 256 mod 16) #
     hex_digit (r div 16 mod 16) # hex_digit (r mod 16) # bs) = r"
proof -
  have split: "16 * (n div 16) + n mod 16 = n" for n :: nat by simp
  have "r div 4096 = r div 16 div 16 div 16" "r div 256 = r div 16 div 16"
    by (simp_all add: div_mult2_eq [symmetric])
  moreover have "r div 4096 < 16" using assms by simp
  ultimately have "16 * (16 * (16 * (r div 4096 mod 16) + r div 256 mod 16) + r div 16 mod 16) + r mod 16 = r"
    by (simp only: mod_less split)
  then show ?thesis by (subst hex4_digits) (simp_all only: mod_less_divisor zero_less_numeral)
qed

definition named_escape :: "nat \<Rightarrow> bool" where
  "named_escape r \<longleftrightarrow> r \<in> {34, 92, 8, 12, 10, 13, 9}"

definition hex_escaped :: "nat \<Rightarrow> bool" where
  "hex_escaped r \<longleftrightarrow> \<not> named_escape r \<and> (r < 32 \<or> r \<in> {60, 62, 38, 0x2028, 0x2029})"

lemma json_escape_cases:
  obtains (named) b where "json_escape r = [92, b]" "simple_escape b = r" "b \<noteq> 117" "b < 256"
      "escape_char (char_of b)"
  | (hex) "json_escape r = hex_escape r" "r < 0xD800"
  | (plain) "json_escape r = map of_char (encode_rune r)" "32 \<le> r" "r \<noteq> 34" "r \<noteq> 92"
proof -
  consider "named_escape r" | "hex_escaped r" | "\<not> named_escape r" "\<not> hex_escaped r" by blast
  then show thesis
  proof cases
    case 1
    then show thesis unfolding named_escape_def
      by (elim insertE; intro named [of "hd (tl (json_escape r))"])
        (simp_all add: json_escape_def simple_escape_def escape_char_def char_of_def bit_Suc_0_iff)
  next
    case 2
    then show thesis by (intro hex) (auto simp: hex_escaped_def named_escape_def json_escape_def)
  next
    case 3
    then show thesis by (intro plain) (auto simp: hex_escaped_def named_escape_def json_escape_def)
  qed
qed

lemma unicode_escape_hex:
  assumes "r < 0xD800"
  shows "unicode_escape (drop 2 (hex_escape r) @ bs) = (r, 4)"
proof -
  have "hex4 (drop 2 (hex_escape r) @ bs) = r"
    using hex4_escape [of r bs] assms by (simp add: hex_escape_def)
  with assms show ?thesis by (simp add: unicode_escape_def)
qed

lemma encode_rune_plain:
  assumes "b \<in> set (map of_char (encode_rune r))" "32 \<le> r" "r \<noteq> 34" "r \<noteq> 92"
  shows "32 \<le> b \<and> b \<noteq> 34 \<and> b \<noteq> (92 :: nat) \<and> b < 256"
proof -
  from assms(1) obtain c where c: "c \<in> set (encode_rune r)" "b = of_char c" by auto
  have "of_char c < (256 :: nat)" using of_char_mod_256 [of c] by (metis mod_less_divisor zero_less_numeral)
  with encode_rune_bytes [OF c(1)] assms(2-4) c(2) show ?thesis by auto
qed

lemma unquote_escape:
  assumes "valid_rune r"
  shows "unquote (json_escape r @ bs) = r # unquote bs"
proof (cases rule: json_escape_cases [of r])
  case (named b)
  then show ?thesis by simp
next
  case hex
  with unicode_escape_hex [OF hex(2), of bs] show ?thesis
    by (simp add: hex_escape_def)
next
  case plain
  obtain b :: nat and cs where e: "map of_char (encode_rune r) = b # cs"
    by (cases "map of_char (encode_rune r) :: nat list") (auto simp: encode_rune_def split: if_splits)
  with encode_rune_plain [of b r] plain have "b \<noteq> 92" by auto
  moreover have "length (encode_rune r) = Suc (length cs)" using arg_cong [OF e, of length] by simp
  ultimately show ?thesis
    using plain(1) decode_encode_rune [OF assms, of bs] e by simp
qed

lemma unquote_body:
  "list_all valid_rune rs \<Longrightarrow> unquote (json_body rs) = rs"
  by (induction rs) (simp_all add: json_body_def unquote_escape)

lemma string_body_plain:
  "list_all (\<lambda>c. c \<noteq> CHR 0x22 \<and> c \<noteq> CHR 0x5C \<and> \<not> of_char c < (32 :: nat)) xs \<Longrightarrow>
    string_body (xs @ t) = map_option (apfst (\<lambda>b. xs @ b)) (string_body t)"
proof (induction xs)
  case Nil
  then show ?case by (cases "string_body t") auto
next
  case (Cons x xs)
  then show ?case by (cases "string_body t") auto
qed

lemma chars_22_5C: "char_of (92 :: nat) = CHR 0x5C" "char_of (117 :: nat) = CHR ''u''"
  by (simp_all add: char_of_def bit_Suc_0_iff)

lemma of_char_hex_digit: "d < 16 \<Longrightarrow> of_char (char_of (hex_digit d)) = hex_digit d"
  by (simp add: hex_digit_def of_char_of)

lemma string_escape_u:
  "list_all (\<lambda>h. hex_value (of_char h) \<noteq> None) hs \<Longrightarrow> length hs = 4 \<Longrightarrow>
    string_escape (CHR ''u'' # hs @ t) = Some (CHR ''u'' # hs, t)"
  by (simp add: string_escape_def escape_char_def)

lemma string_body_escape:
  "string_body (map char_of (json_escape r) @ t) =
    map_option (apfst (\<lambda>b. map char_of (json_escape r) @ b)) (string_body t)"
proof (cases rule: json_escape_cases [of r])
  case (named b)
  then show ?thesis by (simp add: chars_22_5C string_escape_def)
next
  case hex
  let ?hs = "map (\<lambda>d. char_of (hex_digit d)) [r div 4096 mod 16, r div 256 mod 16, r div 16 mod 16, r mod 16]"
  have "list_all (\<lambda>h. hex_value (of_char h) \<noteq> None) ?hs"
    by (simp only: list.map list.pred_inject of_char_hex_digit hex_value_digit mod_less_divisor
        zero_less_numeral) simp
  from string_escape_u [OF this, of t]
  have "string_escape (CHR ''u'' # ?hs @ t) = Some (CHR ''u'' # ?hs, t)" by simp
  moreover have "map char_of (json_escape r) = CHR 0x5C # CHR ''u'' # ?hs"
    using hex(1) by (simp add: hex_escape_def chars_22_5C)
  ultimately show ?thesis by simp
next
  case plain
  have "list_all (\<lambda>c. c \<noteq> CHR 0x22 \<and> c \<noteq> CHR 0x5C \<and> \<not> of_char c < (32 :: nat)) (encode_rune r)"
    unfolding list_all_iff
  proof
    fix c assume "c \<in> set (encode_rune r)"
    with encode_rune_plain [of "of_char c" r] plain(2-4)
    have "32 \<le> (of_char c :: nat)" "of_char c \<noteq> (34 :: nat)" "of_char c \<noteq> (92 :: nat)" by auto
    then show "c \<noteq> CHR 0x22 \<and> c \<noteq> CHR 0x5C \<and> \<not> of_char c < (32 :: nat)" by auto
  qed
  with plain(1) show ?thesis by (simp add: string_body_plain comp_def)
qed

lemma string_body_quoted:
  "string_body (map char_of (json_body rs) @ CHR 0x22 # t) = Some (map char_of (json_body rs), t)"
  by (induction rs) (simp_all add: json_body_def string_body_escape)

text \<open>Text that is valid UTF-8, as every decoded string is.\<close>

definition utf8 :: "string \<Rightarrow> bool" where
  "utf8 s \<longleftrightarrow> (\<exists>rs. list_all valid_rune rs \<and> s = encode_runes rs)"

lemma utf8_encode_runes [simp]: "utf8 (encode_runes rs)"
  unfolding utf8_def
proof (intro exI conjI)
  let ?fix = "\<lambda>r. if valid_rune r then r else 0xFFFD"
  show "list_all valid_rune (map ?fix rs)" by (auto simp: list_all_iff valid_rune_def)
  have "encode_rune r = encode_rune (?fix r)" for r
    by (simp add: encode_rune_def valid_rune_def)
  then show "encode_runes rs = encode_runes (map ?fix rs)" by (simp add: encode_runes_def comp_def)
qed

lemma utf8_json_text [simp]: "utf8 (json_text b)"
  by (simp add: json_text_def)

lemma utf8_Nil [simp]: "utf8 []"
  using utf8_encode_runes [of "[]"] by (simp add: encode_runes_def)

text \<open>What was written reads back.\<close>

lemma json_escape_byte: "b \<in> set (json_escape r) \<Longrightarrow> b < 256"
proof (cases rule: json_escape_cases [of r])
  case hex
  moreover have "hex_digit d < 256" if "d < 16" for d using that by (simp add: hex_digit_def)
  moreover assume "b \<in> set (json_escape r)"
  ultimately show ?thesis using mod_less_divisor [of 16] by (auto simp: hex_escape_def simp del: mod_less)
next
  case plain
  moreover assume "b \<in> set (json_escape r)"
  ultimately show ?thesis using encode_rune_plain [of b r] by simp
qed auto

lemma json_text_body:
  assumes "list_all valid_rune rs"
  shows "json_text (map char_of (json_body rs)) = encode_runes rs"
proof -
  have "map of_char (map char_of (json_body rs)) = json_body rs"
    by (rule map_idI [of "json_body rs" "of_char \<circ> char_of", unfolded map_map [symmetric]])
      (auto simp: json_body_def of_char_of dest: json_escape_byte)
  then show ?thesis by (simp add: json_text_def unquote_body [OF assms])
qed

lemma string_body_quote:
  assumes "utf8 s"
  shows "\<exists>b. json_quote s = CHR 0x22 # b @ [CHR 0x22] \<and> string_body (b @ CHR 0x22 # t) = Some (b, t) \<and>
    json_text b = s"
proof -
  obtain rs where rs: "list_all valid_rune rs" "s = encode_runes rs"
    using assms by (auto simp: utf8_def)
  then have "runes s = rs" by (simp add: runes_encode_runes)
  with rs string_body_quoted [of rs t] json_text_body [OF rs(1)] show ?thesis
    by (intro exI [of _ "map char_of (json_body rs)"]) (simp add: json_quote_def)
qed

lemma json_value_quote:
  assumes "utf8 s"
  shows "json_value d (json_quote s @ t) = Some (JStr s, t)"
proof -
  obtain b where "json_quote s = CHR 0x22 # b @ [CHR 0x22]" "string_body (b @ CHR 0x22 # t) = Some (b, t)"
    "json_text b = s" using string_body_quote [OF assms] by blast
  then show ?thesis by (simp add: json_value.simps [of d] skip_space_def json_space_def)
qed

end
