(* ===== verification/Go_Sha256.thy ===== *)
theory Go_Sha256
  imports Go_Text
begin

unbundle bit_operations_syntax

text \<open>
  \<open>crypto/sha256\<close> (FIPS 180-4) over bytes, on 32-bit words, and hexadecimal text. The edge
  identifiers of the ingest pipeline are built from the first eight bytes of a digest.
\<close>

type_synonym w32 = "32 word"

definition rotr :: "nat \<Rightarrow> w32 \<Rightarrow> w32" where
  "rotr n x = drop_bit n x OR push_bit (32 - n) x"

definition round_constants :: "w32 list" where
  "round_constants =
    [0x428a2f98, 0x71374491, 0xb5c0fbcf, 0xe9b5dba5, 0x3956c25b, 0x59f111f1, 0x923f82a4, 0xab1c5ed5,
     0xd807aa98, 0x12835b01, 0x243185be, 0x550c7dc3, 0x72be5d74, 0x80deb1fe, 0x9bdc06a7, 0xc19bf174,
     0xe49b69c1, 0xefbe4786, 0x0fc19dc6, 0x240ca1cc, 0x2de92c6f, 0x4a7484aa, 0x5cb0a9dc, 0x76f988da,
     0x983e5152, 0xa831c66d, 0xb00327c8, 0xbf597fc7, 0xc6e00bf3, 0xd5a79147, 0x06ca6351, 0x14292967,
     0x27b70a85, 0x2e1b2138, 0x4d2c6dfc, 0x53380d13, 0x650a7354, 0x766a0abb, 0x81c2c92e, 0x92722c85,
     0xa2bfe8a1, 0xa81a664b, 0xc24b8b70, 0xc76c51a3, 0xd192e819, 0xd6990624, 0xf40e3585, 0x106aa070,
     0x19a4c116, 0x1e376c08, 0x2748774c, 0x34b0bcb5, 0x391c0cb3, 0x4ed8aa4a, 0x5b9cca4f, 0x682e6ff3,
     0x748f82ee, 0x78a5636f, 0x84c87814, 0x8cc70208, 0x90befffa, 0xa4506ceb, 0xbef9a3f7, 0xc67178f2]"

definition initial_hash :: "w32 list" where
  "initial_hash = [0x6a09e667, 0xbb67ae85, 0x3c6ef372, 0xa54ff53a,
     0x510e527f, 0x9b05688c, 0x1f83d9ab, 0x5be0cd19]"

text \<open>The message schedule, newest word first, extended by one word.\<close>

definition next_word :: "w32 list \<Rightarrow> w32" where
  "next_word ws = (let x = ws ! 1; y = ws ! 14 in
     (rotr 17 x XOR rotr 19 x XOR drop_bit 10 x) + ws ! 6 +
     (rotr 7 y XOR rotr 18 y XOR drop_bit 3 y) + ws ! 15)"

definition schedule :: "w32 list \<Rightarrow> w32 list" where
  "schedule block = rev (((\<lambda>ws. next_word ws # ws) ^^ 48) (rev block))"

definition sha_round :: "w32 \<times> w32 \<Rightarrow> w32 list \<Rightarrow> w32 list" where
  "sha_round kw st = (case st of
       [a, b, c, d, e, f, g, h] \<Rightarrow>
         let t1 = h + (rotr 6 e XOR rotr 11 e XOR rotr 25 e) + ((e AND f) XOR (NOT e AND g)) +
                  fst kw + snd kw;
             t2 = (rotr 2 a XOR rotr 13 a XOR rotr 22 a) +
                  ((a AND b) XOR (a AND c) XOR (b AND c)) in
         [t1 + t2, a, b, c, d + t1, e, f, g]
     | _ \<Rightarrow> st)"

definition compress :: "w32 list \<Rightarrow> w32 list \<Rightarrow> w32 list" where
  "compress block st =
     map2 (+) st (fold sha_round (zip round_constants (schedule block)) st)"

text \<open>Padding to blocks of 64 bytes: the bit 1, zeros, and the length in bits.\<close>

definition bytes_of :: "nat \<Rightarrow> nat \<Rightarrow> nat list" where
  "bytes_of w n = map (\<lambda>i. n div 256 ^ i mod 256) (rev [0..<w])"

definition pad_message :: "nat list \<Rightarrow> nat list" where
  "pad_message bs = bs @ [128] @ replicate ((119 - length bs mod 64) mod 64) 0 @
     bytes_of 8 (8 * length bs)"

fun words_of :: "nat list \<Rightarrow> w32 list" where
  "words_of (a # b # c # d # bs) =
     word_of_nat (a * 16777216 + b * 65536 + c * 256 + d) # words_of bs"
| "words_of _ = []"

fun blocks :: "w32 list \<Rightarrow> w32 list list" where
  "blocks [] = []"
| "blocks (w # ws) = take 16 (w # ws) # blocks (drop 15 ws)"

definition sha256 :: "nat list \<Rightarrow> nat list" where
  "sha256 bs = concat (map (\<lambda>w. bytes_of 4 (unat w))
     (fold compress (blocks (words_of (pad_message bs))) initial_hash))"

text \<open>\<open>%x\<close> of bytes.\<close>

definition hex_char :: "nat \<Rightarrow> char" where
  "hex_char d = char_of (if d < 10 then 48 + d else 87 + d)"

definition hex_text :: "nat list \<Rightarrow> string" where
  "hex_text bs = concat (map (\<lambda>b. [hex_char (b div 16), hex_char (b mod 16)]) bs)"

text \<open>Hexadecimal text holds no colon.\<close>

lemma bytes_of_less: "b \<in> set (bytes_of w n) \<Longrightarrow> b < 256"
  by (auto simp: bytes_of_def)

lemma sha256_bytes: "b \<in> set (sha256 bs) \<Longrightarrow> b < 256"
  by (auto simp: sha256_def dest: bytes_of_less)

lemma hex_char_not_colon: "d < 16 \<Longrightarrow> hex_char d \<noteq> colon"
proof
  assume d: "d < 16" and "hex_char d = colon"
  then have "(of_char (hex_char d) :: nat) = of_char colon" by simp
  with d show False by (simp add: hex_char_def of_char_of split: if_splits)
qed

lemma colon_free_hex_text: "\<forall>b \<in> set bs. b < 256 \<Longrightarrow> colon_free (hex_text bs)"
proof (induction bs)
  case (Cons b bs)
  then have "b div 16 < 16" "b mod 16 < 16" by auto
  with Cons show ?case by (simp add: hex_text_def hex_char_not_colon)
qed (simp add: hex_text_def)

end
