(* ===== verification/Go_Clock.thy ===== *)
theory Go_Clock
  imports Go_Time "HOL-Library.Monad_Syntax"
begin

text \<open>
  \<open>time.Parse\<close> with the layouts the program uses, the instants it compares, and the printing of
  durations. \<open>Parse\<close> is laxer than RFC 3339: it takes an hour of one digit, a comma before the
  fraction, and zone offsets up to 24:60; \<open>time.Time\<close> fields of JSON are parsed the same way.
\<close>

section \<open>Parsing\<close>

text \<open>A parsed time: its wall clock and the offset of its zone in minutes.\<close>

record stamp =
  ts_year :: nat
  ts_month :: nat
  ts_day :: nat
  ts_hour :: nat
  ts_min :: nat
  ts_sec :: nat
  ts_nano :: int
  ts_zone :: int

definition zero_stamp :: stamp where
  "zero_stamp = \<lparr>ts_year = 1, ts_month = 1, ts_day = 1, ts_hour = 0, ts_min = 0, ts_sec = 0,
     ts_nano = 0, ts_zone = 0\<rparr>"

definition days_in :: "nat \<Rightarrow> nat \<Rightarrow> nat" where
  "days_in y m = (if m = 2 then if y mod 4 = 0 \<and> (y mod 100 \<noteq> 0 \<or> y mod 400 = 0) then 29 else 28
     else if m \<in> {4, 6, 9, 11} then 30 else 31)"

text \<open>Each step answers what it read and the rest of the text.\<close>

definition get_year :: "string \<Rightarrow> (nat \<times> string) option" where
  "get_year s = (if length (take 4 s) = 4 \<and> list_all is_digit (take 4 s)
     then Some (digits_val (take 4 s), drop 4 s) else None)"

definition getnum :: "bool \<Rightarrow> string \<Rightarrow> (nat \<times> string) option" where
  "getnum two s = (case s of
       [] \<Rightarrow> None
     | c # r \<Rightarrow> if \<not> is_digit c then None
         else (case r of
             d # r' \<Rightarrow> if is_digit d then Some (10 * digit_val c + digit_val d, r')
               else if two then None else Some (digit_val c, r)
           | [] \<Rightarrow> if two then None else Some (digit_val c, [])))"

definition get_upto :: "bool \<Rightarrow> nat \<Rightarrow> nat \<Rightarrow> string \<Rightarrow> (nat \<times> string) option" where
  "get_upto two lo hi s = (case getnum two s of
       None \<Rightarrow> None | Some (n, r) \<Rightarrow> if lo \<le> n \<and> n \<le> hi then Some (n, r) else None)"

definition skip_char :: "char \<Rightarrow> string \<Rightarrow> string option" where
  "skip_char c s = (case s of [] \<Rightarrow> None | d # r \<Rightarrow> if d = c then Some r else None)"

text \<open>A fraction of a second counts to nine digits.\<close>

definition get_fraction :: "string \<Rightarrow> int \<times> string" where
  "get_fraction s = (case s of
       p # d # r \<Rightarrow> if (p = CHR ''.'' \<or> p = CHR '','') \<and> is_digit d
         then (let ds = take 9 (takeWhile is_digit (d # r)) in
           (int (digits_val ds) * 10 ^ (9 - length ds), dropWhile is_digit (d # r)))
         else (0, s)
     | _ \<Rightarrow> (0, s))"

definition get_zone :: "string \<Rightarrow> (int \<times> string) option" where
  "get_zone s = (case s of
       [] \<Rightarrow> None
     | sg # r \<Rightarrow> if sg = CHR ''Z'' then Some (0, r)
         else do {
           (hr, r) \<leftarrow> get_upto True 0 24 r;
           r \<leftarrow> skip_char (CHR '':'') r;
           (mm, r) \<leftarrow> get_upto True 0 60 r;
           if sg = CHR ''+'' then Some (int (hr * 60 + mm), r)
           else if sg = CHR ''-'' then Some (- int (hr * 60 + mm), r) else None })"

definition get_date :: "string \<Rightarrow> (nat \<times> nat \<times> nat \<times> string) option" where
  "get_date s = do {
     (y, s) \<leftarrow> get_year s;
     s \<leftarrow> skip_char (CHR ''-'') s;
     (mo, s) \<leftarrow> get_upto True 1 12 s;
     s \<leftarrow> skip_char (CHR ''-'') s;
     (d, s) \<leftarrow> get_upto True 1 (days_in y mo) s;
     Some (y, mo, d, s) }"

text \<open>\<open>time.Parse(time.RFC3339, s)\<close> and \<open>time.Parse("2006-01-02", s)\<close>.\<close>

definition parse_stamp :: "string \<Rightarrow> stamp option" where
  "parse_stamp s = do {
     (y, mo, d, s) \<leftarrow> get_date s;
     s \<leftarrow> skip_char (CHR ''T'') s;
     (h, s) \<leftarrow> get_upto False 0 23 s;
     s \<leftarrow> skip_char (CHR '':'') s;
     (mi, s) \<leftarrow> get_upto True 0 59 s;
     s \<leftarrow> skip_char (CHR '':'') s;
     (sec, s) \<leftarrow> get_upto True 0 59 s;
     (case get_fraction s of (ns, s) \<Rightarrow> do {
       (z, s) \<leftarrow> get_zone s;
       if s = [] then Some \<lparr>ts_year = y, ts_month = mo, ts_day = d, ts_hour = h, ts_min = mi,
         ts_sec = sec, ts_nano = ns, ts_zone = z\<rparr> else None }) }"

definition parse_day :: "string \<Rightarrow> stamp option" where
  "parse_day s = do {
     (y, mo, d, s) \<leftarrow> get_date s;
     if s = [] then Some \<lparr>ts_year = y, ts_month = mo, ts_day = d, ts_hour = 0, ts_min = 0,
       ts_sec = 0, ts_nano = 0, ts_zone = 0\<rparr> else None }"

section \<open>Instants\<close>

text \<open>Days since 1970 of a date, and nanoseconds since 1970 of a time.\<close>

definition days_of_civil :: "int \<Rightarrow> int \<Rightarrow> int \<Rightarrow> int" where
  "days_of_civil y m d =
     (let y' = (if m \<le> 2 then y - 1 else y); era = y' div 400; yoe = y' mod 400;
          doy = (153 * ((m + 9) mod 12) + 2) div 5 + d - 1;
          doe = yoe * 365 + yoe div 4 - yoe div 100 + doy in
      era * 146097 + doe - 719468)"

definition instant :: "stamp \<Rightarrow> int" where
  "instant t = (days_of_civil (int (ts_year t)) (int (ts_month t)) (int (ts_day t)) * 86400 +
     int (ts_hour t) * 3600 + int (ts_min t) * 60 + int (ts_sec t) - ts_zone t * 60) * 10 ^ 9 +
     ts_nano t"

section \<open>Printing\<close>

text \<open>\<open>Format("2006-01-02T15:04:05Z07:00")\<close>.\<close>

definition zone_text :: "int \<Rightarrow> string" where
  "zone_text z = (if z = 0 then ''Z''
     else (if z < 0 then ''-'' else ''+'') @ pad_int 2 (\<bar>z\<bar> div 60) @ '':'' @ pad_int 2 (\<bar>z\<bar> mod 60))"

definition stamp_text :: "stamp \<Rightarrow> string" where
  "stamp_text t = pad_int 4 (int (ts_year t)) @ ''-'' @ pad_int 2 (int (ts_month t)) @ ''-'' @
     pad_int 2 (int (ts_day t)) @ ''T'' @ pad_int 2 (int (ts_hour t)) @ '':'' @
     pad_int 2 (int (ts_min t)) @ '':'' @ pad_int 2 (int (ts_sec t)) @ zone_text (ts_zone t)"

text \<open>
  \<open>t.Sub(u)\<close> saturates at the bounds of an int64. \<open>Duration.String\<close> of an hour or more: hours,
  minutes, and seconds with the fraction's trailing zeros cut off.
\<close>

definition time_sub :: "int \<Rightarrow> int \<Rightarrow> int" where
  "time_sub t u = max int64_min (min int64_max (t - u))"

definition duration_text :: "int \<Rightarrow> string" where
  "duration_text d =
     (let frac = d mod 10 ^ 9;
          digits = rev (dropWhile (\<lambda>c. c = CHR ''0'') (rev (pad_int 9 frac))) in
      show_int (d div (3600 * 10 ^ 9)) @ ''h'' @ show_int (d div (60 * 10 ^ 9) mod 60) @ ''m'' @
      show_int (d div 10 ^ 9 mod 60) @ (if frac = 0 then [] else CHR ''.'' # digits) @ ''s'')"

section \<open>Examples\<close>

lemma parse_stamp_examples:
  "map_option stamp_text (parse_stamp ''2026-02-28T23:59:07.25+05:30'') = Some ''2026-02-28T23:59:07+05:30''"
  "map_option stamp_text (parse_stamp ''2026-02-28T9:59:07,5-00:00'') = Some ''2026-02-28T09:59:07Z''"
  "parse_stamp ''2026-02-29T00:00:00Z'' = None"
  "map_option instant (parse_stamp ''2024-02-29T23:30:00-01:00'') = Some (1709253000 * 10 ^ 9)"
  "map_option instant (parse_day ''1970-01-02'') = Some (86400 * 10 ^ 9)"
  by code_simp+

lemma duration_text_example: "duration_text (262925 * 10 ^ 9) = ''73h2m5s''"
  by code_simp

end
