(* ===== verification/Ingest_Envelope.thy ===== *)
theory Ingest_Envelope
  imports Go_Json Go_Sha256 Go_Clock Graph_Engine
begin

text \<open>
  internal/ingest: the group envelope and its payloads as \<open>encoding/json\<close> decodes them
  (envelope.go), record positions (record.go), and the deterministic identifiers
  (nodeid.go). Decoding errors are one message; nothing looks at their text.
\<close>

section \<open>Timestamps\<close>

text \<open>A \<open>time.Time\<close> field reads the raw text of its member.\<close>

definition set_stamp :: "stamp \<Rightarrow> string \<Rightarrow> json \<Rightarrow> stamp option" where
  "set_stamp x raw v = (case v of
       JNull \<Rightarrow> Some x | JStr _ \<Rightarrow> parse_stamp (butlast (tl raw)) | _ \<Rightarrow> None)"

section \<open>Records and envelopes\<close>

record topic_partition =
  tp_topic :: string
  tp_partition :: "32 word"

record source_offset =
  so_topic :: string
  so_partition :: "32 word"
  so_offset :: "64 word"

record log_record =
  rec_source :: source_offset
  rec_value :: string

record envelope =
  env_type :: string
  env_correlation :: string
  env_sender :: string
  env_timestamp :: stamp
  env_payload :: string

definition decode_error :: gerr where
  "decode_error = Msg ''json: cannot unmarshal''"

text \<open>\<open>json.Unmarshal\<close> into a struct; the error is wrapped by the caller.\<close>

definition unmarshal :: "string list \<Rightarrow> (members \<Rightarrow> 'a option) \<Rightarrow> string \<Rightarrow> gerr + 'a" where
  "unmarshal names fill data =
     (case Option.bind (struct_members names data) fill of
        None \<Rightarrow> Inl decode_error | Some x \<Rightarrow> Inr x)"

definition ParseEnvelope :: "string \<Rightarrow> gerr + envelope" where
  "ParseEnvelope data =
     (case unmarshal [''Type'', ''CorrelationID'', ''SenderID'', ''Timestamp'', ''Payload'']
        (\<lambda>ms. do {
           t \<leftarrow> field set_string [] ''Type'' ms;
           c \<leftarrow> field set_string [] ''CorrelationID'' ms;
           s \<leftarrow> field set_string [] ''SenderID'' ms;
           ts \<leftarrow> field set_stamp zero_stamp ''Timestamp'' ms;
           p \<leftarrow> field set_raw [] ''Payload'' ms;
           Some \<lparr>env_type = t, env_correlation = c, env_sender = s, env_timestamp = ts,
                 env_payload = p\<rparr> }) data of
       Inl e \<Rightarrow> Inl (Wrap ''parse envelope'' e)
     | Inr env \<Rightarrow> if env_type env = []
         then Inl (Msg ''parse envelope: missing Type field'') else Inr env)"

section \<open>Payloads\<close>

record announce_payload =
  ap_agent_id :: string
  ap_agent_name :: string
  ap_action :: string
  ap_group_name :: string

definition decode_announce :: "string \<Rightarrow> gerr + announce_payload" where
  "decode_announce = unmarshal [''AgentID'', ''AgentName'', ''Action'', ''GroupName''] (\<lambda>ms. do {
     i \<leftarrow> field set_string [] ''AgentID'' ms;
     n \<leftarrow> field set_string [] ''AgentName'' ms;
     a \<leftarrow> field set_string [] ''Action'' ms;
     g \<leftarrow> field set_string [] ''GroupName'' ms;
     Some \<lparr>ap_agent_id = i, ap_agent_name = n, ap_action = a, ap_group_name = g\<rparr> })"

record task_request_payload =
  rq_task_id :: string
  rq_text :: string
  rq_target :: string

definition decode_task_request :: "string \<Rightarrow> gerr + task_request_payload" where
  "decode_task_request = unmarshal [''TaskID'', ''RequestText'', ''TargetAgent''] (\<lambda>ms. do {
     t \<leftarrow> field set_string [] ''TaskID'' ms;
     r \<leftarrow> field set_string [] ''RequestText'' ms;
     a \<leftarrow> field set_string [] ''TargetAgent'' ms;
     Some \<lparr>rq_task_id = t, rq_text = r, rq_target = a\<rparr> })"

record task_response_payload =
  rp_task_id :: string
  rp_text :: string
  rp_in_reply_to :: string

definition decode_task_response :: "string \<Rightarrow> gerr + task_response_payload" where
  "decode_task_response = unmarshal [''TaskID'', ''ResponseText'', ''InReplyTo''] (\<lambda>ms. do {
     t \<leftarrow> field set_string [] ''TaskID'' ms;
     r \<leftarrow> field set_string [] ''ResponseText'' ms;
     i \<leftarrow> field set_string [] ''InReplyTo'' ms;
     Some \<lparr>rp_task_id = t, rp_text = r, rp_in_reply_to = i\<rparr> })"

text \<open>\<open>json.Marshal\<close> of a response payload.\<close>

definition marshal_task_response :: "task_response_payload \<Rightarrow> string" where
  "marshal_task_response p = ''{\"TaskID\":'' @ json_quote (rp_task_id p) @
     '',\"ResponseText\":'' @ json_quote (rp_text p) @
     '',\"InReplyTo\":'' @ json_quote (rp_in_reply_to p) @ ''}''"

record task_status_payload =
  sp_task_id :: string
  sp_status :: string

definition decode_task_status :: "string \<Rightarrow> gerr + task_status_payload" where
  "decode_task_status = unmarshal [''TaskID'', ''Status''] (\<lambda>ms. do {
     t \<leftarrow> field set_string [] ''TaskID'' ms;
     s \<leftarrow> field set_string [] ''Status'' ms;
     Some \<lparr>sp_task_id = t, sp_status = s\<rparr> })"

record skill_request_payload =
  sq_skill_name :: string
  sq_parameters :: string

definition decode_skill_request :: "string \<Rightarrow> gerr + skill_request_payload" where
  "decode_skill_request = unmarshal [''SkillName'', ''Parameters''] (\<lambda>ms. do {
     n \<leftarrow> field set_string [] ''SkillName'' ms;
     p \<leftarrow> field set_raw [] ''Parameters'' ms;
     Some \<lparr>sq_skill_name = n, sq_parameters = p\<rparr> })"

record skill_response_payload =
  ss_skill_name :: string
  ss_result :: string
  ss_in_reply_to :: string

definition decode_skill_response :: "string \<Rightarrow> gerr + skill_response_payload" where
  "decode_skill_response = unmarshal [''SkillName'', ''Result'', ''InReplyTo''] (\<lambda>ms. do {
     n \<leftarrow> field set_string [] ''SkillName'' ms;
     r \<leftarrow> field set_string [] ''Result'' ms;
     i \<leftarrow> field set_string [] ''InReplyTo'' ms;
     Some \<lparr>ss_skill_name = n, ss_result = r, ss_in_reply_to = i\<rparr> })"

record memory_payload =
  mp_key :: string
  mp_value :: string
  mp_references :: "string list"

definition decode_memory :: "string \<Rightarrow> gerr + memory_payload" where
  "decode_memory = unmarshal [''Key'', ''Value'', ''References''] (\<lambda>ms. do {
     k \<leftarrow> field set_string [] ''Key'' ms;
     v \<leftarrow> field set_string [] ''Value'' ms;
     r \<leftarrow> field set_strings [] ''References'' ms;
     Some \<lparr>mp_key = k, mp_value = v, mp_references = r\<rparr> })"

record trace_payload =
  tr_span_id :: string
  tr_operation :: string
  tr_duration :: "64 word"

definition decode_trace :: "(string \<Rightarrow> 64 word option) \<Rightarrow> string \<Rightarrow> gerr + trace_payload" where
  "decode_trace pf = unmarshal [''SpanID'', ''Operation'', ''DurationMs''] (\<lambda>ms. do {
     s \<leftarrow> field set_string [] ''SpanID'' ms;
     operation \<leftarrow> field set_string [] ''Operation'' ms;
     d \<leftarrow> field (set_float pf) 0 ''DurationMs'' ms;
     Some \<lparr>tr_span_id = s, tr_operation = operation, tr_duration = d\<rparr> })"

record audit_payload =
  au_action :: string
  au_resource :: string
  au_outcome :: string

definition decode_audit :: "string \<Rightarrow> gerr + audit_payload" where
  "decode_audit = unmarshal [''Action'', ''Resource'', ''Outcome''] (\<lambda>ms. do {
     a \<leftarrow> field set_string [] ''Action'' ms;
     r \<leftarrow> field set_string [] ''Resource'' ms;
     u \<leftarrow> field set_string [] ''Outcome'' ms;
     Some \<lparr>au_action = a, au_resource = r, au_outcome = u\<rparr> })"

record roster_payload =
  ro_agent_id :: string
  ro_skills :: "string list"
  ro_version :: int
  ro_action :: string

definition decode_roster :: "string \<Rightarrow> gerr + roster_payload" where
  "decode_roster = unmarshal [''AgentID'', ''Skills'', ''Version'', ''Action''] (\<lambda>ms. do {
     i \<leftarrow> field set_string [] ''AgentID'' ms;
     s \<leftarrow> field set_strings [] ''Skills'' ms;
     v \<leftarrow> field set_int 0 ''Version'' ms;
     a \<leftarrow> field set_string [] ''Action'' ms;
     Some \<lparr>ro_agent_id = i, ro_skills = s, ro_version = v, ro_action = a\<rparr> })"

record orchestrator_payload =
  or_action :: string
  or_from_agent :: string
  or_to_agent :: string
  or_task_id :: string

definition decode_orchestrator :: "string \<Rightarrow> gerr + orchestrator_payload" where
  "decode_orchestrator = unmarshal [''Action'', ''FromAgent'', ''ToAgent'', ''TaskID''] (\<lambda>ms. do {
     a \<leftarrow> field set_string [] ''Action'' ms;
     f \<leftarrow> field set_string [] ''FromAgent'' ms;
     t \<leftarrow> field set_string [] ''ToAgent'' ms;
     i \<leftarrow> field set_string [] ''TaskID'' ms;
     Some \<lparr>or_action = a, or_from_agent = f, or_to_agent = t, or_task_id = i\<rparr> })"

record human_feedback_payload =
  hf_cycle_id :: string
  hf_feedback_type :: string
  hf_comment :: string
  hf_impact :: "64 word"
  hf_relevance :: "64 word"
  hf_value :: "64 word"
  hf_reviewer_id :: string

definition decode_human_feedback ::
  "(string \<Rightarrow> 64 word option) \<Rightarrow> string \<Rightarrow> gerr + human_feedback_payload" where
  "decode_human_feedback pf = unmarshal [''CycleID'', ''FeedbackType'', ''Comment'', ''Impact'',
       ''Relevance'', ''ValueContribution'', ''ReviewerID''] (\<lambda>ms. do {
     c \<leftarrow> field set_string [] ''CycleID'' ms;
     t \<leftarrow> field set_string [] ''FeedbackType'' ms;
     m \<leftarrow> field set_string [] ''Comment'' ms;
     i \<leftarrow> field (set_float pf) 0 ''Impact'' ms;
     r \<leftarrow> field (set_float pf) 0 ''Relevance'' ms;
     v \<leftarrow> field (set_float pf) 0 ''ValueContribution'' ms;
     w \<leftarrow> field set_string [] ''ReviewerID'' ms;
     Some \<lparr>hf_cycle_id = c, hf_feedback_type = t, hf_comment = m, hf_impact = i,
           hf_relevance = r, hf_value = v, hf_reviewer_id = w\<rparr> })"

section \<open>Identifiers\<close>

definition AgentNodeID :: "string \<Rightarrow> string" where
  "AgentNodeID agent = ''n:Agent:'' @ agent"

definition ConversationNodeID :: "string \<Rightarrow> string" where
  "ConversationNodeID correlation = ''n:Conversation:'' @ correlation"

definition SkillNodeID :: "string \<Rightarrow> string" where
  "SkillNodeID skill = ''n:Skill:'' @ skill"

definition source_text :: "source_offset \<Rightarrow> string" where
  "source_text src = so_topic src @ '':'' @ show_int (sint (so_partition src)) @ '':'' @
     show_int (sint (so_offset src))"

definition MessageNodeID :: "source_offset \<Rightarrow> string" where
  "MessageNodeID src = ''n:Message:'' @ source_text src"

definition SharedMemoryNodeID :: "source_offset \<Rightarrow> string" where
  "SharedMemoryNodeID src = ''n:SharedMemory:'' @ source_text src"

definition AuditEventNodeID :: "source_offset \<Rightarrow> string" where
  "AuditEventNodeID src = ''n:AuditEvent:'' @ source_text src"

definition HumanFeedbackNodeID :: "source_offset \<Rightarrow> string" where
  "HumanFeedbackNodeID src = ''n:HumanFeedback:'' @ source_text src"

definition DeterministicEdgeID :: "string \<Rightarrow> string \<Rightarrow> string \<Rightarrow> string" where
  "DeterministicEdgeID label from to =
     ''e:'' @ label @ '':'' @ hex_text (take 8 (sha256 (map of_char (from @ '':'' @ to))))"

text \<open>Every such edge identifier has the shape the key scheme of the store asks for.\<close>

lemma edge_id_colons:
  assumes "colon_free label"
  shows "colons (DeterministicEdgeID label from to) = 2"
proof -
  have "colon_free (hex_text (take 8 (sha256 bs)))" for bs
    by (rule colon_free_hex_text) (auto dest!: in_set_takeD sha256_bytes)
  with assms show ?thesis
    by (simp add: DeterministicEdgeID_def)
qed

end
