(* ===== verification/Ingest_Handlers.thy ===== *)
theory Ingest_Handlers
  imports Ingest_Envelope
begin

text \<open>
  internal/ingest/handlers.go and router.go: what each kind of envelope does to the graph.
  A handler decodes its payload and issues upserts one after the other; the first that fails
  ends it, with the error wrapped in the handler's context.
\<close>

section \<open>Upserts\<close>

text \<open>
  One call of \<open>UpsertNode\<close>, or of \<open>UpsertEdge\<close> with the deterministic identifier of its
  label and ends, and the text its error is wrapped in (\<open>None\<close> where it is returned as is).
\<close>

datatype upsert =
    NodeUp "string option" string string props
  | EdgeUp "string option" string string string "props option"

definition wrap_in :: "string option \<Rightarrow> ('s, 'a) go \<Rightarrow> ('s, unit) go" where
  "wrap_in c m = go_bind (case c of None \<Rightarrow> m | Some t \<Rightarrow> go_wrap t m) (\<lambda>_. go_ret ())"

fun run_upsert :: "'s storage_ops \<Rightarrow> upsert \<Rightarrow> ('s graph, unit) go" where
  "run_upsert ops (NodeUp c i label ps) = wrap_in c (UpsertNode ops i label (Some ps))"
| "run_upsert ops (EdgeUp c label from to ps) =
     wrap_in c (UpsertEdge ops (DeterministicEdgeID label from to) label from to ps)"

definition run_upserts :: "'s storage_ops \<Rightarrow> upsert list \<Rightarrow> ('s graph, unit) go" where
  "run_upserts ops us = go_for us (run_upsert ops)"

text \<open>\<open>json.Unmarshal(env.Payload, &p)\<close>, its error wrapped.\<close>

definition with_payload :: "string \<Rightarrow> gerr + 'p \<Rightarrow> ('p \<Rightarrow> ('x, unit) go) \<Rightarrow> ('x, unit) go" where
  "with_payload c r f = (case r of Inl e \<Rightarrow> go_raise (Wrap c e) | Inr p \<Rightarrow> f p)"

text \<open>\<open>strconv.ParseFloat\<close> and \<open>strconv.Quote\<close>.\<close>

record ingest_lib =
  in_parse_float :: "string \<Rightarrow> 64 word option"
  in_quote :: "string \<Rightarrow> string"

type_synonym 's handler = "envelope \<Rightarrow> source_offset \<Rightarrow> ('s graph, unit) go"

section \<open>Handlers\<close>

definition HandleAnnounce :: "'s storage_ops \<Rightarrow> 's handler" where
  "HandleAnnounce ops env src =
     with_payload ''handle announce'' (decode_announce (env_payload env)) (\<lambda>p.
     let agent = (if ap_agent_id p = [] then env_sender env else ap_agent_id p) in
     run_upserts ops
       [NodeUp None (AgentNodeID agent) ''Agent''
          [(''agentName'', VStr (ap_agent_name p)), (''action'', VStr (ap_action p)),
           (''groupName'', VStr (ap_group_name p)), (''senderID'', VStr (env_sender env))]])"

text \<open>The sender's node, and the two nodes and two edges of a message in a conversation.\<close>

definition sender_node :: "string \<Rightarrow> envelope \<Rightarrow> upsert" where
  "sender_node h env = NodeUp (Some (h @ '': upsert sender'')) (AgentNodeID (env_sender env))
     ''Agent'' [(''senderID'', VStr (env_sender env))]"

definition conversation_node :: "string \<Rightarrow> envelope \<Rightarrow> upsert" where
  "conversation_node h env = NodeUp (Some (h @ '': upsert conversation''))
     (ConversationNodeID (env_correlation env)) ''Conversation''
     [(''correlationID'', VStr (env_correlation env))]"

definition message_node :: "string \<Rightarrow> source_offset \<Rightarrow> props \<Rightarrow> upsert" where
  "message_node h src ps = NodeUp (Some (h @ '': upsert message'')) (MessageNodeID src) ''Message'' ps"

definition authored_edge :: "string \<Rightarrow> envelope \<Rightarrow> source_offset \<Rightarrow> upsert" where
  "authored_edge h env src = EdgeUp (Some (h @ '': upsert authored edge'')) ''AUTHORED''
     (AgentNodeID (env_sender env)) (MessageNodeID src) None"

definition belongs_edge :: "string \<Rightarrow> envelope \<Rightarrow> source_offset \<Rightarrow> upsert" where
  "belongs_edge h env src = EdgeUp (Some (h @ '': upsert belongs_to edge'')) ''BELONGS_TO''
     (MessageNodeID src) (ConversationNodeID (env_correlation env)) None"

definition HandleRequest :: "'s storage_ops \<Rightarrow> 's handler" where
  "HandleRequest ops env src =
     (let h = ''handle request'' in
      with_payload h (decode_task_request (env_payload env)) (\<lambda>p.
      run_upserts ops
        [sender_node h env, conversation_node h env,
         message_node h src [(''text'', VStr (rq_text p)), (''taskID'', VStr (rq_task_id p)),
           (''target'', VStr (rq_target p)), (''senderID'', VStr (env_sender env))],
         authored_edge h env src, belongs_edge h env src]))"

definition HandleResponse :: "'s storage_ops \<Rightarrow> 's handler" where
  "HandleResponse ops env src =
     (let h = ''handle response'' in
      with_payload h (decode_task_response (env_payload env)) (\<lambda>p.
      run_upserts ops
        [sender_node h env, conversation_node h env,
         message_node h src [(''text'', VStr (rp_text p)), (''taskID'', VStr (rp_task_id p)),
           (''inReplyTo'', VStr (rp_in_reply_to p)), (''senderID'', VStr (env_sender env))],
         authored_edge h env src, belongs_edge h env src]))"

definition HandleTaskStatus :: "'s storage_ops \<Rightarrow> 's handler" where
  "HandleTaskStatus ops env src =
     with_payload ''handle task_status'' (decode_task_status (env_payload env)) (\<lambda>p.
     run_upserts ops
       [NodeUp None (ConversationNodeID (env_correlation env)) ''Conversation''
          [(''taskStatus'', VStr (sp_status p)), (''taskID'', VStr (sp_task_id p))]])"

definition HandleSkillRequest :: "'s storage_ops \<Rightarrow> 's handler" where
  "HandleSkillRequest ops env src =
     (let h = ''handle skill_request'' in
      with_payload h (decode_skill_request (env_payload env)) (\<lambda>p.
      let skill = SkillNodeID (sq_skill_name p) in
      run_upserts ops
        [sender_node h env, conversation_node h env,
         message_node h src [(''skillName'', VStr (sq_skill_name p)),
           (''parameters'', VStr (sq_parameters p)), (''senderID'', VStr (env_sender env))],
         NodeUp (Some (h @ '': upsert skill'')) skill ''Skill''
           [(''skillName'', VStr (sq_skill_name p))],
         authored_edge h env src, belongs_edge h env src,
         EdgeUp (Some (h @ '': upsert uses_skill edge'')) ''USES_SKILL'' (MessageNodeID src) skill
           None]))"

text \<open>A skill response is rewritten into a response: marshalled, and handled as one.\<close>

definition HandleSkillResponse :: "'s storage_ops \<Rightarrow> 's handler" where
  "HandleSkillResponse ops env src =
     with_payload ''handle skill_response'' (decode_skill_response (env_payload env)) (\<lambda>p.
     HandleResponse ops (env\<lparr>env_payload := marshal_task_response
       \<lparr>rp_task_id = [], rp_text = ss_result p, rp_in_reply_to = ss_in_reply_to p\<rparr>\<rparr>) src)"

definition memory_reference :: "source_offset \<Rightarrow> string \<Rightarrow> upsert list" where
  "memory_reference src ref =
     [NodeUp (Some ''handle memory: upsert ref agent'') (AgentNodeID ref) ''Agent''
        [(''senderID'', VStr ref)],
      EdgeUp (Some ''handle memory: upsert references edge'') ''REFERENCES''
        (SharedMemoryNodeID src) (AgentNodeID ref) None]"

definition HandleMemory :: "'s storage_ops \<Rightarrow> 's handler" where
  "HandleMemory ops env src =
     (let h = ''handle memory'' in
      with_payload h (decode_memory (env_payload env)) (\<lambda>p.
      run_upserts ops
        ([NodeUp (Some (h @ '': upsert memory node'')) (SharedMemoryNodeID src) ''SharedMemory''
            [(''key'', VStr (mp_key p)), (''value'', VStr (mp_value p))],
          sender_node h env,
          EdgeUp (Some (h @ '': upsert shared_by edge'')) ''SHARED_BY'' (SharedMemoryNodeID src)
            (AgentNodeID (env_sender env)) None] @
         concat (map (memory_reference src) (mp_references p)))))"

definition HandleTrace :: "ingest_lib \<Rightarrow> 's storage_ops \<Rightarrow> 's handler" where
  "HandleTrace L ops env src =
     with_payload ''handle trace'' (decode_trace (in_parse_float L) (env_payload env)) (\<lambda>p.
     run_upserts ops
       [NodeUp None (ConversationNodeID (env_correlation env)) ''Conversation''
          [(''traceSpanID'', VStr (tr_span_id p)), (''traceOperation'', VStr (tr_operation p)),
           (''traceDurationMs'', VFloat (tr_duration p))]])"

definition HandleAudit :: "'s storage_ops \<Rightarrow> 's handler" where
  "HandleAudit ops env src =
     (let h = ''handle audit'' in
      with_payload h (decode_audit (env_payload env)) (\<lambda>p.
      run_upserts ops
        [NodeUp (Some (h @ '': upsert audit node'')) (AuditEventNodeID src) ''AuditEvent''
           [(''action'', VStr (au_action p)), (''resource'', VStr (au_resource p)),
            (''outcome'', VStr (au_outcome p)), (''senderID'', VStr (env_sender env))],
         sender_node h env,
         EdgeUp None ''AUDITED_BY'' (AuditEventNodeID src) (AgentNodeID (env_sender env)) None]))"

text \<open>
  A roster declares skills. Removing one marks the edge, it does not delete it; adding it
  again does not clear the mark.
\<close>

definition roster_props :: "roster_payload \<Rightarrow> string \<Rightarrow> props" where
  "roster_props p declaredAt =
     (if ro_action p = ''remove''
      then [(''removedAt'', VStr declaredAt), (''declaredAt'', VStr declaredAt)]
      else [(''declaredAt'', VStr declaredAt)]) @
     (if ro_version p > 0 then [(''rosterVersion'', VInt (word_of_int (ro_version p)))] else [])"

definition roster_skill :: "roster_payload \<Rightarrow> string \<Rightarrow> string \<Rightarrow> string \<Rightarrow> upsert list" where
  "roster_skill p declaredAt agent skill =
     [NodeUp (Some ''handle roster: upsert skill'') (SkillNodeID skill) ''Skill''
        [(''skillName'', VStr skill)],
      EdgeUp (Some (if ro_action p = ''remove'' then ''handle roster: upsert has_skill edge (remove)''
                    else ''handle roster: upsert has_skill edge''))
        ''HAS_SKILL'' (AgentNodeID agent) (SkillNodeID skill) (Some (roster_props p declaredAt))]"

definition HandleRoster :: "'s storage_ops \<Rightarrow> 's handler" where
  "HandleRoster ops env src =
     with_payload ''handle roster'' (decode_roster (env_payload env)) (\<lambda>p.
     let agent = (if ro_agent_id p = [] then env_sender env else ro_agent_id p);
         declaredAt = stamp_text (env_timestamp env) in
     run_upserts ops
       (NodeUp (Some ''handle roster: upsert agent'') (AgentNodeID agent) ''Agent''
          [(''senderID'', VStr agent)] #
        concat (map (roster_skill p declaredAt agent) (ro_skills p))))"

text \<open>\<open>x != 0\<close> on a float64: both zeros are equal to 0.\<close>

definition f64_nonzero :: "64 word \<Rightarrow> bool" where
  "f64_nonzero w \<longleftrightarrow> push_bit 1 w \<noteq> 0"

definition score_props :: "64 word \<Rightarrow> 64 word \<Rightarrow> 64 word \<Rightarrow> props" where
  "score_props impact relevance val =
     (if f64_nonzero impact then [(''impact'', VFloat impact)] else []) @
     (if f64_nonzero relevance then [(''relevance'', VFloat relevance)] else []) @
     (if f64_nonzero val then [(''valueContribution'', VFloat val)] else [])"

definition applyScoreOverrides ::
  "'s storage_ops \<Rightarrow> string \<Rightarrow> 64 word \<Rightarrow> 64 word \<Rightarrow> 64 word \<Rightarrow> ('s graph, unit) go" where
  "applyScoreOverrides ops cycle impact relevance val =
     go_bind (go_try (Neighbors ops cycle)) (\<lambda>r. case r of
       Inl _ \<Rightarrow> go_ret ()
     | Inr es \<Rightarrow> go_for es (\<lambda>e.
         if e_label e \<noteq> ''LINKS_TO'' \<or> e_to e \<noteq> cycle then go_ret ()
         else let ps = score_props impact relevance val in
           if ps \<noteq> [] then go_ignore (UpsertEdge ops (e_id e) (e_label e) (e_from e) (e_to e) (Some ps))
           else go_ret ()))"

text \<open>
  Human feedback stores the feedback node, links the cycle, and only then makes sure of the
  cycle's own node.
\<close>

definition feedback_upserts :: "envelope \<Rightarrow> source_offset \<Rightarrow> human_feedback_payload \<Rightarrow> upsert list" where
  "feedback_upserts env src p = (let h = ''handle human_feedback'' in
     [NodeUp (Some (h @ '': upsert feedback node'')) (HumanFeedbackNodeID src) ''HumanFeedback''
        [(''cycleId'', VStr (hf_cycle_id p)), (''feedbackType'', VStr (hf_feedback_type p)),
         (''comment'', VStr (hf_comment p)), (''impact'', VFloat (hf_impact p)),
         (''relevance'', VFloat (hf_relevance p)), (''valueContribution'', VFloat (hf_value p)),
         (''reviewerID'', VStr (hf_reviewer_id p)), (''senderID'', VStr (env_sender env))],
      EdgeUp (Some (h @ '': upsert feedback edge'')) ''HAS_FEEDBACK'' (hf_cycle_id p)
        (HumanFeedbackNodeID src) None,
      NodeUp (Some (h @ '': update cycle status'')) (hf_cycle_id p) ''ReflectionCycle''
        [(''humanFeedbackStatus'', VStr ''RECEIVED'')]])"

definition HandleHumanFeedback :: "ingest_lib \<Rightarrow> 's storage_ops \<Rightarrow> 's handler" where
  "HandleHumanFeedback L ops env src =
     with_payload ''handle human_feedback''
       (decode_human_feedback (in_parse_float L) (env_payload env)) (\<lambda>p.
     if hf_cycle_id p = [] then go_raise (Msg ''handle human_feedback: missing CycleID'')
     else go_bind (run_upserts ops (feedback_upserts env src p)) (\<lambda>_.
       applyScoreOverrides ops (hf_cycle_id p) (hf_impact p) (hf_relevance p) (hf_value p)))"

definition HandleOrchestrator :: "ingest_lib \<Rightarrow> 's storage_ops \<Rightarrow> 's handler" where
  "HandleOrchestrator L ops env src =
     (let h = ''handle orchestrator'' in
      with_payload h (decode_orchestrator (env_payload env)) (\<lambda>p.
      let from = AgentNodeID (or_from_agent p); to = AgentNodeID (or_to_agent p);
          edge = (\<lambda>label. EdgeUp None label from to (Some [(''taskID'', VStr (or_task_id p))])) in
      go_bind (run_upserts ops
        [NodeUp (Some (h @ '': upsert from agent'')) from ''Agent'' [(''senderID'', VStr (or_from_agent p))],
         NodeUp (Some (h @ '': upsert to agent'')) to ''Agent'' [(''senderID'', VStr (or_to_agent p))]])
       (\<lambda>_. if or_action p = ''delegate'' then run_upserts ops [edge ''DELEGATES_TO'']
         else if or_action p = ''report'' then run_upserts ops [edge ''REPORTS_TO'']
         else go_raise (Msg (h @ '': unknown action '' @ in_quote L (or_action p))))))"

section \<open>The router\<close>

definition NewRouter :: "ingest_lib \<Rightarrow> 's storage_ops \<Rightarrow> (string \<times> 's handler) list" where
  "NewRouter L ops =
     [(''announce'', HandleAnnounce ops), (''request'', HandleRequest ops),
      (''response'', HandleResponse ops), (''task_status'', HandleTaskStatus ops),
      (''skill_request'', HandleSkillRequest ops), (''skill_response'', HandleSkillResponse ops),
      (''memory'', HandleMemory ops), (''trace'', HandleTrace L ops),
      (''audit'', HandleAudit ops), (''roster'', HandleRoster ops),
      (''orchestrator'', HandleOrchestrator L ops),
      (''human_feedback'', HandleHumanFeedback L ops)]"

text \<open>An unknown type is logged and skipped.\<close>

definition Route :: "(string \<times> 's handler) list \<Rightarrow> 's handler" where
  "Route handlers env src = (case map_of handlers (env_type env) of
       None \<Rightarrow> go_ret () | Some h \<Rightarrow> h env src)"

end
