(* ===== verification/Ingest_Processor.thy ===== *)
theory Ingest_Processor
  imports Ingest_Handlers
begin

text \<open>
  internal/ingest: checkpoints (checkpoint.go), segment readers (reader.go), publishers
  (publisher.go) and the processor that polls a reader and routes its records
  (processor.go). The in-memory reader and publisher hold a mutex in every operation, so
  each is one step.
\<close>

section \<open>Checkpoints\<close>

text \<open>\<open>CheckpointStore\<close>: the graph and a namespace.\<close>

definition checkpoint_id :: "string \<Rightarrow> string \<Rightarrow> 32 word \<Rightarrow> string" where
  "checkpoint_id ns topic part = ''ckpt:'' @ ns @ '':'' @ topic @ '':'' @ show_int (sint part)"

definition checkpoint_error :: gerr where
  "checkpoint_error = Wrap ''checkpoint load'' (Msg ''strconv.ParseInt'')"

definition Load :: "'s storage_ops \<Rightarrow> string \<Rightarrow> string \<Rightarrow> 32 word \<Rightarrow> ('s graph, 64 word) go" where
  "Load ops ns topic part =
     go_bind (go_try (graph_GetNode ops (checkpoint_id ns topic part))) (\<lambda>r. case r of
       Inl _ \<Rightarrow> go_ret (- 1)
     | Inr n \<Rightarrow> (case map_of (prop_list (n_props n)) ''offset'' of
           Some (VStr s) \<Rightarrow> (case parse_int64 s of
               (i, ok) \<Rightarrow> if ok then go_ret (word_of_int i) else go_raise checkpoint_error)
         | _ \<Rightarrow> go_ret (- 1)))"

definition Commit :: "'s storage_ops \<Rightarrow> string \<Rightarrow> string \<Rightarrow> 32 word \<Rightarrow> 64 word \<Rightarrow> ('s graph, unit) go" where
  "Commit ops ns topic part offset =
     go_bind (UpsertNode ops (checkpoint_id ns topic part) ''_checkpoint'' (Some
       [(''topic'', VStr topic), (''partition'', VInt (scast part)),
        (''offset'', VStr (show_int (sint offset))), (''namespace'', VStr ns)]))
     (\<lambda>_. go_ret ())"

section \<open>Segment readers\<close>

text \<open>The interface: what it answers depends on the state of the log it reads.\<close>

record 'm segment_reader =
  rd_read :: "'m \<Rightarrow> string \<Rightarrow> 32 word \<Rightarrow> 64 word \<Rightarrow> int \<Rightarrow> gerr + log_record list"
  rd_list :: "'m \<Rightarrow> gerr + topic_partition list"

text \<open>\<open>itoa\<close>: the digits of a positive int32, last digit first; negating the least one overflows.\<close>

fun rev_digits :: "nat \<Rightarrow> string" where
  "rev_digits n = (if n = 0 then [] else digit_char (n mod 10) # rev_digits (n div 10))"

declare rev_digits.simps [simp del]

definition itoa :: "32 word \<Rightarrow> string" where
  "itoa n = (if n = 0 then ''0''
     else (if sint n < 0 then ''-'' else []) @
       rev (rev_digits (nat (sint (if sint n < 0 then - n else n)))))"

definition tpKey :: "string \<Rightarrow> 32 word \<Rightarrow> string" where
  "tpKey topic part = topic @ '':'' @ itoa part"

text \<open>\<open>MemoryReader\<close>: records under the key of their partition.\<close>

type_synonym memory_reader = "(string \<times> log_record list) list"

definition records_at :: "memory_reader \<Rightarrow> string \<Rightarrow> log_record list" where
  "records_at m key = (case map_of m key of None \<Rightarrow> [] | Some rs \<Rightarrow> rs)"

definition AddRecord :: "string \<Rightarrow> 32 word \<Rightarrow> 64 word \<Rightarrow> string \<Rightarrow> memory_reader \<Rightarrow> memory_reader" where
  "AddRecord topic part offset val m =
     (let key = tpKey topic part in
      AList.update key (records_at m key @ [\<lparr>rec_source = \<lparr>so_topic = topic, so_partition = part,
        so_offset = offset\<rparr>, rec_value = val\<rparr>]) m)"

abbreviation rec_offset :: "log_record \<Rightarrow> int" where
  "rec_offset r \<equiv> sint (so_offset (rec_source r))"

text \<open>The loop over the sorted records, left once the result is full.\<close>

fun read_loop :: "int \<Rightarrow> int \<Rightarrow> log_record list \<Rightarrow> log_record list \<Rightarrow> log_record list" where
  "read_loop after most result [] = result"
| "read_loop after most result (r # rs) =
     (if rec_offset r > after
      then if int (length (result @ [r])) \<ge> most then result @ [r]
        else read_loop after most (result @ [r]) rs
      else read_loop after most result rs)"

definition ReadRecords :: "memory_reader \<Rightarrow> string \<Rightarrow> 32 word \<Rightarrow> 64 word \<Rightarrow> int \<Rightarrow> gerr + log_record list" where
  "ReadRecords m topic part after maxRecords =
     Inr (read_loop (sint after) maxRecords []
       (sort_by (\<lambda>r s. rec_offset r < rec_offset s) (records_at m (tpKey topic part))))"

fun list_loop :: "string list \<Rightarrow> log_record list \<Rightarrow> topic_partition list" where
  "list_loop seen [] = []"
| "list_loop seen (r # rs) =
     (let src = rec_source r; key = tpKey (so_topic src) (so_partition src) in
      if key \<in> set seen then list_loop seen rs
      else \<lparr>tp_topic = so_topic src, tp_partition = so_partition src\<rparr> # list_loop (key # seen) rs)"

definition ListTopicPartitions :: "memory_reader \<Rightarrow> gerr + topic_partition list" where
  "ListTopicPartitions m = Inr (list_loop [] (concat (map snd m)))"

definition MemoryReader :: "memory_reader segment_reader" where
  "MemoryReader = \<lparr>rd_read = ReadRecords, rd_list = ListTopicPartitions\<rparr>"

section \<open>Publishers\<close>

record published_message =
  pm_topic :: string
  pm_key :: string
  pm_data :: string

definition Publish :: "string \<Rightarrow> string \<Rightarrow> string \<Rightarrow> (published_message list, unit) go" where
  "Publish topic key data =
     (\<lambda>ms. (Ok (), ms @ [\<lparr>pm_topic = topic, pm_key = key, pm_data = data\<rparr>]))"

definition Len :: "published_message list \<Rightarrow> nat" where
  "Len ms = length ms"

section \<open>The processor\<close>

text \<open>
  \<open>Processor\<close>: the reader, the router, the checkpoints in their namespace, the graph and the
  batch size. \<open>ctx k\<close> is the answer of the \<open>k\<close>-th call of \<open>ctx.Err()\<close> during a poll, and a
  poll reads one state of the log.
\<close>

record ('s, 'm) processor =
  pr_storage :: "'s storage_ops"
  pr_reader :: "'m segment_reader"
  pr_router :: "(string \<times> 's handler) list"
  pr_namespace :: string
  pr_batch :: int

definition NewProcessor :: "ingest_lib \<Rightarrow> 's storage_ops \<Rightarrow> 'm segment_reader \<Rightarrow> string \<Rightarrow> int \<Rightarrow> ('s, 'm) processor" where
  "NewProcessor L ops reader ns batch = \<lparr>pr_storage = ops, pr_reader = reader,
     pr_router = NewRouter L ops, pr_namespace = ns, pr_batch = batch\<rparr>"

definition ProcessRecord :: "('s, 'm) processor \<Rightarrow> log_record \<Rightarrow> ('s graph, unit) go" where
  "ProcessRecord P r = (case ParseEnvelope (rec_value r) of
       Inl e \<Rightarrow> go_raise e
     | Inr env \<Rightarrow> Route (pr_router P) env (rec_source r))"

text \<open>A record that fails is logged and skipped: the checkpoint moves past it.\<close>

definition poll_record :: "('s, 'm) processor \<Rightarrow> log_record \<Rightarrow> ('s graph, unit) go" where
  "poll_record P r =
     go_bind (go_try (ProcessRecord P r)) (\<lambda>_.
     let src = rec_source r in
     Commit (pr_storage P) (pr_namespace P) (so_topic src) (so_partition src) (so_offset src))"

fun poll_partitions :: "('s, 'm) processor \<Rightarrow> 'm \<Rightarrow> (nat \<Rightarrow> gerr option) \<Rightarrow> nat \<Rightarrow>
    topic_partition list \<Rightarrow> ('s graph, unit) go" where
  "poll_partitions P m ctx k [] = go_ret ()"
| "poll_partitions P m ctx k (tp # tps) =
     (case ctx k of
        Some e \<Rightarrow> go_raise e
      | None \<Rightarrow>
         go_bind (go_try (Load (pr_storage P) (pr_namespace P) (tp_topic tp) (tp_partition tp)))
         (\<lambda>r. case r of
            Inl _ \<Rightarrow> poll_partitions P m ctx (Suc k) tps
          | Inr after \<Rightarrow>
             (case rd_read (pr_reader P) m (tp_topic tp) (tp_partition tp) after (pr_batch P) of
                Inl _ \<Rightarrow> poll_partitions P m ctx (Suc k) tps
              | Inr rs \<Rightarrow> go_bind (go_for rs (poll_record P))
                  (\<lambda>_. poll_partitions P m ctx (Suc k) tps))))"

definition poll :: "('s, 'm) processor \<Rightarrow> (nat \<Rightarrow> gerr option) \<Rightarrow> 'm \<Rightarrow> ('s graph, unit) go" where
  "poll P ctx m = (case rd_list (pr_reader P) m of
       Inl e \<Rightarrow> go_raise e
     | Inr tps \<Rightarrow> poll_partitions P m ctx 0 tps)"

text \<open>
  \<open>Run\<close> waits for ticks and for the end of its context; the error of a poll is logged. A list
  of events that ends without \<open>Done\<close> leaves it waiting (\<open>None\<close>).
\<close>

datatype 'm run_event = Tick "nat \<Rightarrow> gerr option" 'm | Done gerr

fun Run :: "('s, 'm) processor \<Rightarrow> 'm run_event list \<Rightarrow> ('s graph, gerr option) go" where
  "Run P [] = go_ret None"
| "Run P (Done e # evs) = go_ret (Some e)"
| "Run P (Tick ctx m # evs) = go_bind (go_try (poll P ctx m)) (\<lambda>_. Run P evs)"

end
