(* ===== verification/Ingest_Laws.thy ===== *)
theory Ingest_Laws
  imports Ingest_Processor
begin

text \<open>
  What the upserts of the ingest handlers do to the abstract graph, proved once over the
  storage contract: which documents they write, when they panic, and that repeating them
  changes nothing.
\<close>

section \<open>Merged property maps\<close>

text \<open>
  The property map stored by an upsert: \<open>old\<close> is the map stored before, \<open>None\<close> where there
  was no document.
\<close>

definition stored_merge :: "props option option \<Rightarrow> props option \<Rightarrow> props option \<Rightarrow> bool" where
  "stored_merge old ps p \<longleftrightarrow> (\<exists>P. json_norm_fields (prop_list ps) = Some P \<and> (case old of
       None \<Rightarrow> p = Some P
     | Some None \<Rightarrow> prop_list ps = [] \<and> p = None
     | Some (Some q) \<Rightarrow> p = Some (copy_into P q)))"

lemma stored_mergeI:
  assumes old: "case old of None \<Rightarrow> q = Some (prop_list ps)
      | Some o' \<Rightarrow> merge_props o' ps = Some q \<and> props_json o' = Some o' \<and> props_ok o'"
    and json: "props_json q = Some p" and ps: "props_ok ps"
  shows "stored_merge old ps p"
proof (cases old)
  case None
  with old json show ?thesis by (auto simp: stored_merge_def props_json_def)
next
  case (Some o')
  with old have merge: "merge_props o' ps = Some q" "props_json o' = Some o'" "props_ok o'" by auto
  show ?thesis
  proof (cases o')
    case None
    with merge(1) json Some show ?thesis
      by (auto simp: stored_merge_def merge_props_def props_json_def split: if_splits)
  next
    case (Some m)
    with merge json obtain r where r: "json_norm_fields (copy_into (prop_list ps) m) = Some r" "p = Some r"
      by (auto simp: merge_props_def props_json_def)
    have "distinct (map fst (prop_list ps))" "distinct (map fst m)"
      using ps merge(3) Some by (simp_all add: props_ok_def)
    then obtain P where P: "json_norm_fields (prop_list ps) = Some P"
      using json_norm_copy_intoD [OF r(1)] by blast
    have "json_norm_fields m = Some m" using merge(2) Some by (auto simp: props_json_def)
    from json_norm_copy_into [OF P this] r P \<open>old = Some o'\<close> Some show ?thesis
      by (simp add: stored_merge_def)
  qed
qed

text \<open>A stored map that has all entries of \<open>ps\<close> already.\<close>

definition absorbs :: "props option \<Rightarrow> props option \<Rightarrow> bool" where
  "absorbs q ps \<longleftrightarrow> (\<exists>P. json_norm_fields (prop_list ps) = Some P \<and> (case q of
       None \<Rightarrow> prop_list ps = [] | Some m \<Rightarrow> map_of P \<subseteq>\<^sub>m map_of m))"

definition agree :: "props option \<Rightarrow> props option \<Rightarrow> bool" where
  "agree ps qs \<longleftrightarrow> (\<forall>k v w. (k, v) \<in> set (prop_list ps) \<longrightarrow> (k, w) \<in> set (prop_list qs) \<longrightarrow> v = w)"

lemma norm_map_of:
  "json_norm_fields fs = Some gs \<Longrightarrow> map_of gs k = Option.bind (map_of fs k) json_norm"
  by (induction fs arbitrary: gs) (auto split: option.splits if_splits)

lemma distinct_norm: "json_norm_fields fs = Some gs \<Longrightarrow> distinct (map fst fs) \<Longrightarrow> distinct (map fst gs)"
  by (simp add: json_norm_fields_keys)

lemma merge_absorbs:
  assumes "stored_merge old ps p" and "props_ok ps"
  shows "absorbs p ps"
proof -
  from assms(1) obtain P where P: "json_norm_fields (prop_list ps) = Some P" and c: "case old of
       None \<Rightarrow> p = Some P
     | Some None \<Rightarrow> prop_list ps = [] \<and> p = None
     | Some (Some q) \<Rightarrow> p = Some (copy_into P q)" by (auto simp: stored_merge_def)
  have "map_of (copy_into P q) = map_of q ++ map_of P" for q
    by (rule map_of_copy_into) (use distinct_norm [OF P] assms(2) in \<open>simp add: props_ok_def\<close>)
  with P c show ?thesis by (auto simp: absorbs_def split: option.splits)
qed

lemma merge_keeps_absorbed:
  assumes merge: "stored_merge (Some q) ps p" and "props_ok ps" and abs: "absorbs q us" and "agree us ps"
  shows "absorbs p us"
proof (cases q)
  case None
  with merge abs show ?thesis by (auto simp: stored_merge_def absorbs_def)
next
  case (Some m)
  from merge Some obtain P where P: "json_norm_fields (prop_list ps) = Some P" "p = Some (copy_into P m)"
    by (auto simp: stored_merge_def)
  from abs Some obtain U where U: "json_norm_fields (prop_list us) = Some U" "map_of U \<subseteq>\<^sub>m map_of m"
    by (auto simp: absorbs_def)
  have copy: "map_of (copy_into P m) = map_of m ++ map_of P"
    by (rule map_of_copy_into) (use distinct_norm [OF P(1)] assms(2) in \<open>simp add: props_ok_def\<close>)
  have "(map_of m ++ map_of P) k = Some v" if u: "map_of U k = Some v" for k v
  proof (cases "map_of P k")
    case None
    with U(2) u show ?thesis by (auto simp: map_add_def map_le_def dom_def)
  next
    case (Some w)
    obtain x y where "map_of (prop_list us) k = Some x" "json_norm x = Some v"
      "map_of (prop_list ps) k = Some y" "json_norm y = Some w"
      using u Some by (auto simp: norm_map_of [OF U(1)] norm_map_of [OF P(1)] bind_eq_Some_conv)
    with \<open>agree us ps\<close> have "x = y" by (auto simp: agree_def dest!: map_of_SomeD)
    with \<open>json_norm x = Some v\<close> \<open>json_norm y = Some w\<close> Some show ?thesis by simp
  qed
  with U(1) P(2) copy show ?thesis
    by (auto simp: absorbs_def map_le_def dom_def)
qed

lemma absorbed_merge:
  assumes "stored_merge (Some q) ps p" and "absorbs q ps" and "props_ok ps"
  shows "p = q"
  using assms copy_into_absorb by (fastforce simp: stored_merge_def absorbs_def props_ok_def
      json_norm_fields_keys split: option.splits)

section \<open>One upsert\<close>

text \<open>What the key scheme asks of an upsert's label and properties.\<close>

fun up_ok :: "upsert \<Rightarrow> bool" where
  "up_ok (NodeUp c i label ps) \<longleftrightarrow> colon_free label \<and> distinct (map fst ps)"
| "up_ok (EdgeUp c label from to ps) \<longleftrightarrow> colon_free label \<and> props_ok ps"

lemma wrap_in_result:
  assumes "wrap_in c m g = (r, g')"
  obtains r0 where "m g = (r0, g')" and "r = Ok () \<longleftrightarrow> (\<exists>x. r0 = Ok x)" and "r = Panic \<longleftrightarrow> r0 = Panic"
  using assms by (cases "m g"; cases c)
    (auto simp: wrap_in_def go_bind_def go_wrap_def go_ret_def split: outcome.splits)

context graph_storage
begin

text \<open>
  A node upsert that succeeds writes one document, with the merged property map; one that
  does not leaves the graph as it was. It panics only where the stored map is nil.
\<close>

lemma node_up:
  assumes inv: "g_inv g" and ok: "up_ok (NodeUp c i label ps)"
    and run: "run_upsert ops (NodeUp c i label ps) g = (r, g')"
  shows "g_inv g'" and "g_edges g' = g_edges g"
    and "r = Panic \<Longrightarrow> ps \<noteq> [] \<and> (\<exists>n. g_nodes g i = Some n \<and> n_props n = None)"
    and "r \<noteq> Ok () \<Longrightarrow> g_nodes g' = g_nodes g"
    and "r = Ok () \<Longrightarrow> \<exists>m. g_nodes g' = (g_nodes g)(i \<mapsto> m) \<and>
      stored_merge (map_option n_props (g_nodes g i)) (Some ps) (n_props m) \<and>
      (\<forall>n. g_nodes g i = Some n \<longrightarrow> m = n\<lparr>n_props := n_props m\<rparr>)"
proof -
  have ps: "props_ok (Some ps)" using ok by (simp add: props_ok_def)
  from run obtain r0 where r0: "UpsertNode ops i label (Some ps) g = (r0, g')"
    "r = Ok () \<longleftrightarrow> (\<exists>x. r0 = Ok x)" "r = Panic \<longleftrightarrow> r0 = Panic"
    by (auto elim: wrap_in_result)
  have lbl: "colon_free label" using ok by simp
  note up = upsert_node [OF inv lbl ps r0(1)]
  show "g_inv g'" "g_edges g' = g_edges g" "r \<noteq> Ok () \<Longrightarrow> g_nodes g' = g_nodes g"
    using up r0(2) by blast+
  show "ps \<noteq> [] \<and> (\<exists>n. g_nodes g i = Some n \<and> n_props n = None)" if "r = Panic"
    using up r0(3) that by (auto simp: upsert_node_doc_def merge_props_def split: option.splits if_splits)
  show "\<exists>m. g_nodes g' = (g_nodes g)(i \<mapsto> m) \<and>
      stored_merge (map_option n_props (g_nodes g i)) (Some ps) (n_props m) \<and>
      (\<forall>n. g_nodes g i = Some n \<longrightarrow> m = n\<lparr>n_props := n_props m\<rparr>)" if "r = Ok ()"
  proof -
    from up r0(2) that obtain n m where doc: "upsert_node_doc g i label (Some ps) (g_nodes g i) = Some n"
      and m: "node_json n = Some m" "g_nodes g' = (g_nodes g)(i \<mapsto> m)" by blast
    have "stored_merge (map_option n_props (g_nodes g i)) (Some ps) (n_props m)"
    proof (rule stored_mergeI [OF _ node_json_fields(4) [OF m(1)] ps])
      show "case map_option n_props (g_nodes g i) of None \<Rightarrow> n_props n = Some (prop_list (Some ps))
        | Some o' \<Rightarrow> merge_props o' (Some ps) = Some (n_props n) \<and> props_json o' = Some o' \<and> props_ok o'"
      proof (cases "g_nodes g i")
        case (Some o')
        with keyed_node [OF inv Some] doc show ?thesis
          by (auto simp: upsert_node_doc_def stored_node_def node_ok_def dest: node_json_fields(4))
      qed (use doc in \<open>auto simp: upsert_node_doc_def\<close>)
    qed
    moreover have "m = n0\<lparr>n_props := n_props m\<rparr>" if "g_nodes g i = Some n0" for n0
      using doc m(1) that by (auto simp: upsert_node_doc_def node_json_def split: if_splits)
    ultimately show ?thesis using m(2) by blast
  qed
qed

lemma edge_up:
  assumes inv: "g_inv g" and k: "colons k = 2" and ps: "props_ok ps"
    and run: "UpsertEdge ops k label from to ps g = (r, g')"
  shows "g_inv g'" and "g_nodes g' = g_nodes g"
    and "r = Panic \<Longrightarrow> prop_list ps \<noteq> [] \<and> (\<exists>e. g_edges g k = Some e \<and> e_props e = None)"
    and "\<not> (\<exists>e. r = Ok e) \<Longrightarrow> g_edges g' = g_edges g"
    and "r = Ok e \<Longrightarrow> \<exists>f. g_edges g' = (g_edges g)(k \<mapsto> f) \<and>
      stored_merge (map_option e_props (g_edges g k)) ps (e_props f) \<and>
      (case g_edges g k of None \<Rightarrow> e_from f = from \<and> e_to f = to
         | Some o' \<Rightarrow> f = o'\<lparr>e_props := e_props f\<rparr>)"
proof -
  note up = upsert_edge [OF inv k ps run]
  show "g_inv g'" "g_nodes g' = g_nodes g" "\<not> (\<exists>e. r = Ok e) \<Longrightarrow> g_edges g' = g_edges g"
    using up by blast+
  show "prop_list ps \<noteq> [] \<and> (\<exists>e. g_edges g k = Some e \<and> e_props e = None)" if "r = Panic"
    using up that by (auto simp: upsert_edge_doc_def merge_props_def split: option.splits if_splits)
  show "\<exists>f. g_edges g' = (g_edges g)(k \<mapsto> f) \<and>
      stored_merge (map_option e_props (g_edges g k)) ps (e_props f) \<and>
      (case g_edges g k of None \<Rightarrow> e_from f = from \<and> e_to f = to
         | Some o' \<Rightarrow> f = o'\<lparr>e_props := e_props f\<rparr>)" if "r = Ok e"
  proof -
    from up that obtain f where doc: "upsert_edge_doc g k label from to ps (g_edges g k) = Some e"
      and f: "edge_json e = Some f" "g_edges g' = (g_edges g)(k \<mapsto> f)" by blast
    have "stored_merge (map_option e_props (g_edges g k)) ps (e_props f)"
    proof (rule stored_mergeI [OF _ edge_json_fields(6) [OF f(1)] ps])
      show "case map_option e_props (g_edges g k) of None \<Rightarrow> e_props e = Some (prop_list ps)
        | Some o' \<Rightarrow> merge_props o' ps = Some (e_props e) \<and> props_json o' = Some o' \<and> props_ok o'"
      proof (cases "g_edges g k")
        case (Some o')
        with keyed_edge [OF inv Some] doc show ?thesis
          by (auto simp: upsert_edge_doc_def stored_edge_def edge_ok_def dest: edge_json_fields(6))
      qed (use doc in \<open>auto simp: upsert_edge_doc_def\<close>)
    qed
    with f doc show ?thesis
      by (auto simp: upsert_edge_doc_def edge_json_def split: option.splits if_splits)
  qed
qed

end

section \<open>Sequences of upserts\<close>

text \<open>Every stored document has a property map.\<close>

definition has_maps :: "(string \<Rightarrow> node option) \<Rightarrow> (string \<Rightarrow> edge option) \<Rightarrow> bool" where
  "has_maps N E \<longleftrightarrow> (\<forall>i n. N i = Some n \<longrightarrow> n_props n \<noteq> None) \<and> (\<forall>k e. E k = Some e \<longrightarrow> e_props e \<noteq> None)"

lemma has_mapsD:
  "has_maps N E \<Longrightarrow> N i = Some n \<Longrightarrow> n_props n \<noteq> None"
  "has_maps N E \<Longrightarrow> E k = Some e \<Longrightarrow> e_props e \<noteq> None"
  unfolding has_maps_def by blast+

text \<open>The property \<open>offset\<close> of a node, as \<open>Load\<close> looks at it.\<close>

definition offset_at :: "(string \<Rightarrow> node option) \<Rightarrow> string \<Rightarrow> string option" where
  "offset_at N i = (case N i of None \<Rightarrow> None
     | Some n \<Rightarrow> (case map_of (prop_list (n_props n)) ''offset'' of Some (VStr s) \<Rightarrow> Some s | _ \<Rightarrow> None))"

fun no_offset :: "upsert \<Rightarrow> bool" where
  "no_offset (NodeUp c i label ps) \<longleftrightarrow> ''offset'' \<notin> fst ` set ps"
| "no_offset (EdgeUp c label from to ps) \<longleftrightarrow> True"

text \<open>Every edge comes after its two ends.\<close>

fun anchored :: "string set \<Rightarrow> upsert list \<Rightarrow> bool" where
  "anchored S [] \<longleftrightarrow> True"
| "anchored S (NodeUp c i label ps # us) \<longleftrightarrow> anchored (insert i S) us"
| "anchored S (EdgeUp c label from to ps # us) \<longleftrightarrow> from \<in> S \<and> to \<in> S \<and> anchored S us"

lemma anchored_mono: "anchored S us \<Longrightarrow> S \<subseteq> T \<Longrightarrow> anchored T us"
  by (induction S us arbitrary: T rule: anchored.induct) (auto intro: insert_mono)

text \<open>Two upserts of one document write the same values under the keys they share.\<close>

fun up_agree :: "upsert \<Rightarrow> upsert \<Rightarrow> bool" where
  "up_agree (NodeUp c i label ps) (NodeUp d j label' qs) \<longleftrightarrow> (i = j \<longrightarrow> agree (Some ps) (Some qs))"
| "up_agree (EdgeUp c label from to ps) (EdgeUp d label' from' to' qs) \<longleftrightarrow>
     (DeterministicEdgeID label from to = DeterministicEdgeID label' from' to' \<longrightarrow> agree ps qs)"
| "up_agree u v \<longleftrightarrow> True"

fun absorbed :: "upsert \<Rightarrow> (string \<Rightarrow> node option) \<Rightarrow> (string \<Rightarrow> edge option) \<Rightarrow> bool" where
  "absorbed (NodeUp c i label ps) N E \<longleftrightarrow> (\<exists>n. N i = Some n \<and> absorbs (n_props n) (Some ps))"
| "absorbed (EdgeUp c label from to ps) N E \<longleftrightarrow>
     (\<exists>e. E (DeterministicEdgeID label from to) = Some e \<and> absorbs (e_props e) ps)"

lemma merge_has_map: "stored_merge old ps p \<Longrightarrow> old \<noteq> Some None \<Longrightarrow> p \<noteq> None"
  by (auto simp: stored_merge_def split: option.splits)

lemma merge_other_key:
  assumes "stored_merge old ps p" and "k \<notin> fst ` set (prop_list ps)" and "props_ok ps"
  shows "map_of (prop_list p) k = (case old of None \<Rightarrow> None | Some q \<Rightarrow> map_of (prop_list q) k)"
proof -
  from assms(1) obtain P where P: "json_norm_fields (prop_list ps) = Some P" and c: "case old of
       None \<Rightarrow> p = Some P
     | Some None \<Rightarrow> prop_list ps = [] \<and> p = None
     | Some (Some q) \<Rightarrow> p = Some (copy_into P q)" by (auto simp: stored_merge_def)
  have "map_of (copy_into P q) = map_of q ++ map_of P" for q
    by (rule map_of_copy_into) (use distinct_norm [OF P] assms(3) in \<open>simp add: props_ok_def\<close>)
  moreover have "map_of P k = None"
  proof -
    have "set (map fst P) = fst ` set (prop_list ps)" using json_norm_fields_keys [OF P] by simp
    with assms(2) show ?thesis by (simp add: map_of_eq_None_iff)
  qed
  ultimately show ?thesis using c by (auto simp: map_add_def split: option.splits)
qed

context graph_storage
begin

lemma edge_up_run:
  assumes inv: "g_inv g" and ok: "up_ok (EdgeUp c label from to ps)"
    and run: "run_upsert ops (EdgeUp c label from to ps) g = (r, g')"
  defines "k \<equiv> DeterministicEdgeID label from to"
  shows "g_inv g'" and "g_nodes g' = g_nodes g"
    and "r = Panic \<Longrightarrow> prop_list ps \<noteq> [] \<and> (\<exists>e. g_edges g k = Some e \<and> e_props e = None)"
    and "r \<noteq> Ok () \<Longrightarrow> g_edges g' = g_edges g"
    and "r = Ok () \<Longrightarrow> \<exists>f. g_edges g' = (g_edges g)(k \<mapsto> f) \<and>
      stored_merge (map_option e_props (g_edges g k)) ps (e_props f) \<and>
      (case g_edges g k of None \<Rightarrow> e_from f = from \<and> e_to f = to
         | Some o' \<Rightarrow> f = o'\<lparr>e_props := e_props f\<rparr>)"
proof -
  have ps: "props_ok ps" and k: "colons k = 2" using ok by (simp_all add: k_def edge_id_colons)
  obtain r0 where r0: "UpsertEdge ops k label from to ps g = (r0, g')"
    "r = Ok () \<longleftrightarrow> (\<exists>x. r0 = Ok x)" "r = Panic \<longleftrightarrow> r0 = Panic"
    using run by (auto simp: k_def elim: wrap_in_result)
  note up = edge_up [OF inv k ps r0(1)]
  show "g_inv g'" "g_nodes g' = g_nodes g" by (rule up)+
  show "prop_list ps \<noteq> [] \<and> (\<exists>e. g_edges g k = Some e \<and> e_props e = None)" if "r = Panic"
    using up(3) r0(3) that by blast
  show "g_edges g' = g_edges g" if "r \<noteq> Ok ()"
    using up(4) r0(2) that by blast
  show "\<exists>f. g_edges g' = (g_edges g)(k \<mapsto> f) \<and>
      stored_merge (map_option e_props (g_edges g k)) ps (e_props f) \<and>
      (case g_edges g k of None \<Rightarrow> e_from f = from \<and> e_to f = to
         | Some o' \<Rightarrow> f = o'\<lparr>e_props := e_props f\<rparr>)" if "r = Ok ()"
    using up(5) r0(2) that by blast
qed

text \<open>One upsert, of either kind.\<close>

lemma up_inv: "g_inv g \<Longrightarrow> up_ok u \<Longrightarrow> run_upsert ops u g = (r, g') \<Longrightarrow> g_inv g'"
  by (cases u) (blast intro: node_up(1) edge_up_run(1))+

lemma up_maps:
  assumes "g_inv g" and "up_ok u" and "run_upsert ops u g = (r, g')"
    and maps: "has_maps (g_nodes g) (g_edges g)"
  shows "r \<noteq> Panic \<and> has_maps (g_nodes g') (g_edges g')"
proof (cases u)
  case (NodeUp c i label ps)
  note up = node_up [OF assms(1) assms(2) [unfolded NodeUp] assms(3) [unfolded NodeUp]]
  have "r \<noteq> Panic" using up(3) has_mapsD(1) [OF maps] by blast
  moreover have "has_maps (g_nodes g') (g_edges g')"
  proof (cases "r = Ok ()")
    case True
    with up(5) obtain m where m: "g_nodes g' = (g_nodes g)(i \<mapsto> m)"
      "stored_merge (map_option n_props (g_nodes g i)) (Some ps) (n_props m)" by blast
    from merge_has_map [OF m(2)] has_mapsD(1) [OF maps] have "n_props m \<noteq> None" by auto
    with m(1) up(2) maps show ?thesis by (simp add: has_maps_def)
  qed (use up(2,4) maps in simp)
  ultimately show ?thesis by simp
next
  case (EdgeUp c label f t ps)
  note up = edge_up_run [OF assms(1) assms(2) [unfolded EdgeUp] assms(3) [unfolded EdgeUp]]
  have "r \<noteq> Panic" using up(3) has_mapsD(2) [OF maps] by blast
  moreover have "has_maps (g_nodes g') (g_edges g')"
  proof (cases "r = Ok ()")
    case True
    with up(5) obtain e where e: "g_edges g' = (g_edges g)(DeterministicEdgeID label f t \<mapsto> e)"
      "stored_merge (map_option e_props (g_edges g (DeterministicEdgeID label f t))) ps (e_props e)" by blast
    from merge_has_map [OF e(2)] has_mapsD(2) [OF maps] have "e_props e \<noteq> None" by auto
    with e(1) up(2) maps show ?thesis by (simp add: has_maps_def)
  qed (use up(2,4) maps in simp)
  ultimately show ?thesis by simp
qed

lemma up_offset:
  assumes "g_inv g" and "up_ok u" and "run_upsert ops u g = (r, g')" and "no_offset u"
  shows "offset_at (g_nodes g') = offset_at (g_nodes g)"
proof (cases u)
  case (NodeUp c i label ps)
  note up = node_up [OF assms(1) assms(2) [unfolded NodeUp] assms(3) [unfolded NodeUp]]
  show ?thesis
  proof (cases "r = Ok ()")
    case True
    with up(5) obtain m where m: "g_nodes g' = (g_nodes g)(i \<mapsto> m)"
      "stored_merge (map_option n_props (g_nodes g i)) (Some ps) (n_props m)" by blast
    have "map_of (prop_list (n_props m)) ''offset'' =
        (case g_nodes g i of None \<Rightarrow> None | Some n \<Rightarrow> map_of (prop_list (n_props n)) ''offset'')"
      using merge_other_key [OF m(2), of "''offset''"] assms(2,4)
      by (simp add: NodeUp props_ok_def split: option.splits)
    with m(1) show ?thesis by (auto simp: offset_at_def fun_eq_iff split: option.splits)
  qed (use up(4) in simp)
next
  case (EdgeUp c label f t ps)
  with edge_up_run(2) [OF assms(1) assms(2) [unfolded EdgeUp] assms(3) [unfolded EdgeUp]]
  show ?thesis by simp
qed

text \<open>An edge upsert keeps the ends of an edge that is there.\<close>

lemma kept_ends:
  assumes c: "case E k of None \<Rightarrow> e_from e = f \<and> e_to e = t | Some o' \<Rightarrow> e = o'\<lparr>e_props := e_props e\<rparr>"
    and nd: "no_dangling N E" and ends: "{f, t} \<subseteq> dom N"
  shows "N (e_from e) \<noteq> None \<and> N (e_to e) \<noteq> None"
proof (cases "E k")
  case (Some o')
  with c have "e = o'\<lparr>e_props := e_props e\<rparr>" by simp
  from arg_cong [OF this, of e_from] arg_cong [OF this, of e_to]
  have "e_from e = e_from o'" "e_to e = e_to o'" by simp_all
  with Some nd show ?thesis by (simp add: no_dangling_def)
qed (use c ends in auto)

text \<open>Edges whose ends are stored do not dangle, whatever the upsert returns.\<close>

lemma up_dom: "g_inv g \<Longrightarrow> up_ok u \<Longrightarrow> run_upsert ops u g = (r, g') \<Longrightarrow>
    dom (g_nodes g) \<subseteq> dom (g_nodes g')"
  and up_dom_node: "g_inv g \<Longrightarrow> up_ok (NodeUp c i label ps) \<Longrightarrow>
    run_upsert ops (NodeUp c i label ps) g = (Ok (), g') \<Longrightarrow> i \<in> dom (g_nodes g')"
proof -
  assume inv: "g_inv g" and ok: "up_ok u" and run: "run_upsert ops u g = (r, g')"
  show "dom (g_nodes g) \<subseteq> dom (g_nodes g')"
  proof (cases u)
    case (NodeUp c i label ps)
    note up = node_up [OF inv ok [unfolded NodeUp] run [unfolded NodeUp]]
    show ?thesis
    proof (cases "r = Ok ()")
      case True
      with up(5) obtain m where "g_nodes g' = (g_nodes g)(i \<mapsto> m)" by blast
      then show ?thesis by auto
    qed (use up(4) in simp)
  next
    case (EdgeUp c label f t ps)
    with edge_up_run(2) [OF inv ok [unfolded EdgeUp] run [unfolded EdgeUp]] show ?thesis by simp
  qed
next
  assume "g_inv g" "up_ok (NodeUp c i label ps)" "run_upsert ops (NodeUp c i label ps) g = (Ok (), g')"
  from node_up(5) [OF this] obtain m where "g_nodes g' = (g_nodes g)(i \<mapsto> m)" by blast
  then show "i \<in> dom (g_nodes g')" by auto
qed

lemma up_no_dangling_node:
  assumes "g_inv g" and "up_ok (NodeUp c i label ps)" and "run_upsert ops (NodeUp c i label ps) g = (r, g')"
    and "no_dangling (g_nodes g) (g_edges g)"
  shows "no_dangling (g_nodes g') (g_edges g')"
  using no_dangling_nodes_mono [OF assms(4) up_dom [OF assms(1-3)]] node_up(2) [OF assms(1-3)] by simp

lemma up_no_dangling_edge:
  assumes inv: "g_inv g" and ok: "up_ok (EdgeUp c label f t ps)"
    and run: "run_upsert ops (EdgeUp c label f t ps) g = (r, g')"
    and nd: "no_dangling (g_nodes g) (g_edges g)" and ends: "{f, t} \<subseteq> dom (g_nodes g)"
  shows "no_dangling (g_nodes g') (g_edges g')"
proof (cases "r = Ok ()")
  case True
  let ?k = "DeterministicEdgeID label f t"
  from edge_up_run(2,5) [OF inv ok run] True obtain e where e: "g_nodes g' = g_nodes g"
      "g_edges g' = (g_edges g)(?k \<mapsto> e)"
    and c: "case g_edges g ?k of None \<Rightarrow> e_from e = f \<and> e_to e = t
      | Some o' \<Rightarrow> e = o'\<lparr>e_props := e_props e\<rparr>" by blast
  have "g_nodes g (e_from e) \<noteq> None \<and> g_nodes g (e_to e) \<noteq> None"
    by (rule kept_ends [OF c nd ends])
  then show ?thesis using e no_dangling_upd [OF nd] by simp
next
  case False
  with edge_up_run(2,4) [OF inv ok run] nd show ?thesis by simp
qed

lemma ups_Cons:
  assumes "run_upserts ops (u # us) g = (r, g')"
  obtains (ok) h where "run_upsert ops u g = (Ok (), h)" and "run_upserts ops us h = (r, g')"
  | (fail) "run_upsert ops u g = (r, g')" and "r \<noteq> Ok ()"
  using assms by (cases "run_upsert ops u g"; cases "fst (run_upsert ops u g)")
    (auto simp: run_upserts_def go_bind_def)

lemma ups_Nil [simp]: "run_upserts ops [] g = (Ok (), g)"
  by (simp add: run_upserts_def go_ret_def)

lemma ups_induct [consumes 3, case_names Nil fail step]:
  assumes "run_upserts ops us g = (r, g')" and "g_inv g" and "list_all up_ok us"
    and Nil: "\<And>g. g_inv g \<Longrightarrow> P [] g (Ok ()) g"
    and fail: "\<And>u us g r g'. g_inv g \<Longrightarrow> up_ok u \<Longrightarrow> list_all up_ok us \<Longrightarrow>
      run_upsert ops u g = (r, g') \<Longrightarrow> r \<noteq> Ok () \<Longrightarrow> P (u # us) g r g'"
    and step: "\<And>u us g h r g'. g_inv g \<Longrightarrow> up_ok u \<Longrightarrow> list_all up_ok us \<Longrightarrow>
      run_upsert ops u g = (Ok (), h) \<Longrightarrow> g_inv h \<Longrightarrow> run_upserts ops us h = (r, g') \<Longrightarrow>
      P us h r g' \<Longrightarrow> P (u # us) g r g'"
  shows "P us g r g'"
  using assms(1-3)
proof (induction us arbitrary: g)
  case Nil
  then show ?case using assms(4) by simp
next
  case (Cons u us)
  from Cons.prems(1) show ?case
  proof (cases rule: ups_Cons)
    case (ok h)
    with Cons.prems up_inv have "g_inv h" by auto
    with ok Cons show ?thesis by (auto intro: step)
  next
    case fail
    with Cons.prems assms(5) show ?thesis by simp
  qed
qed

lemma ups_inv:
  assumes "run_upserts ops us g = (r, g')" "g_inv g" "list_all up_ok us"
  shows "g_inv g'"
  using assms by (induction rule: ups_induct) (auto dest: up_inv)

lemma ups_maps:
  assumes "run_upserts ops us g = (r, g')" "g_inv g" "list_all up_ok us"
    and "has_maps (g_nodes g) (g_edges g)"
  shows "r \<noteq> Panic \<and> has_maps (g_nodes g') (g_edges g')"
  using assms by (induction rule: ups_induct) (auto dest: up_maps)

lemma ups_offset:
  assumes "run_upserts ops us g = (r, g')" "g_inv g" "list_all up_ok us" and "list_all no_offset us"
  shows "offset_at (g_nodes g') = offset_at (g_nodes g)"
  using assms by (induction rule: ups_induct) (auto dest: up_offset)

lemma ups_dom:
  assumes "run_upserts ops us g = (r, g')" "g_inv g" "list_all up_ok us"
  shows "dom (g_nodes g) \<subseteq> dom (g_nodes g')"
  using assms by (induction rule: ups_induct) (blast dest: up_dom)+

lemma ups_no_dangling:
  assumes "run_upserts ops us g = (r, g')" "g_inv g" "list_all up_ok us"
    and "anchored S us" "S \<subseteq> dom (g_nodes g)" "no_dangling (g_nodes g) (g_edges g)"
  shows "no_dangling (g_nodes g') (g_edges g')"
  using assms
proof (induction arbitrary: S rule: ups_induct)
  case (fail u us g r g')
  then show ?case
    by (cases u) (auto intro: up_no_dangling_node up_no_dangling_edge)
next
  case (step u us g h r g')
  show ?case
  proof (cases u)
    case (NodeUp c i label ps)
    with step have nd: "no_dangling (g_nodes h) (g_edges h)" by (auto intro: up_no_dangling_node)
    have "insert i S \<subseteq> dom (g_nodes h)"
      using up_dom [OF step(1,2,4)] up_dom_node [OF step(1) step(2) [unfolded NodeUp] step(4) [unfolded NodeUp]]
        step.prems(2) by auto
    with step.IH [of "insert i S"] step.prems NodeUp nd show ?thesis by simp
  next
    case (EdgeUp c label f t ps)
    with step have "no_dangling (g_nodes h) (g_edges h)" by (auto intro: up_no_dangling_edge)
    moreover have "S \<subseteq> dom (g_nodes h)" using up_dom [OF step(1,2,4)] step.prems(2) by blast
    ultimately show ?thesis using step.IH [of S] step.prems EdgeUp by simp
  qed
qed simp

text \<open>
  A sequence whose upserts agree, run a second time: every document has absorbed every
  upsert, and none is changed.
\<close>

lemma up_absorbed:
  assumes inv: "g_inv g" and ok: "up_ok u" and run: "run_upsert ops u g = (Ok (), g')"
  shows "absorbed u (g_nodes g') (g_edges g')"
proof (cases u)
  case (NodeUp c i label ps)
  have "props_ok (Some ps)" using ok NodeUp by (simp add: props_ok_def)
  with node_up(5) [OF inv ok [unfolded NodeUp] run [unfolded NodeUp]] merge_absorbs NodeUp
  show ?thesis by fastforce
next
  case (EdgeUp c label f t ps)
  have "props_ok ps" using ok EdgeUp by simp
  with edge_up_run(5) [OF inv ok [unfolded EdgeUp] run [unfolded EdgeUp]] merge_absorbs EdgeUp
  show ?thesis by fastforce
qed

lemma up_keeps_absorbed:
  assumes inv: "g_inv g" and ok: "up_ok v" and run: "run_upsert ops v g = (r, g')"
    and abs: "absorbed u (g_nodes g) (g_edges g)" and agr: "up_agree u v"
  shows "absorbed u (g_nodes g') (g_edges g')"
proof (cases v)
  case v: (NodeUp c i label ps)
  note up = node_up [OF inv ok [unfolded v] run [unfolded v]]
  show ?thesis
  proof (cases "r = Ok ()")
    case True
    with up(5) obtain m where m: "g_nodes g' = (g_nodes g)(i \<mapsto> m)"
      "stored_merge (map_option n_props (g_nodes g i)) (Some ps) (n_props m)" by blast
    show ?thesis
    proof (cases u)
      case (NodeUp d j label' qs)
      show ?thesis
      proof (cases "j = i")
        case True
        with abs NodeUp obtain n where n: "g_nodes g i = Some n" "absorbs (n_props n) (Some qs)" by auto
        have "absorbs (n_props m) (Some qs)"
        proof (rule merge_keeps_absorbed [OF _ _ n(2)])
          show "stored_merge (Some (n_props n)) (Some ps) (n_props m)" using m(2) n(1) by simp
          show "props_ok (Some ps)" using ok v by (simp add: props_ok_def)
          show "agree (Some qs) (Some ps)" using agr NodeUp v True by simp
        qed
        with m(1) NodeUp True show ?thesis by simp
      qed (use abs m NodeUp in auto)
    next
      case (EdgeUp d label' f t qs)
      with abs up(2) show ?thesis by simp
    qed
  qed (use up(2,4) abs in simp)
next
  case v: (EdgeUp c label f t ps)
  note up = edge_up_run [OF inv ok [unfolded v] run [unfolded v]]
  let ?k = "DeterministicEdgeID label f t"
  show ?thesis
  proof (cases "r = Ok ()")
    case True
    with up(5) obtain e where e: "g_edges g' = (g_edges g)(?k \<mapsto> e)"
      "stored_merge (map_option e_props (g_edges g ?k)) ps (e_props e)" by blast
    show ?thesis
    proof (cases u)
      case (EdgeUp d label' f' t' qs)
      show ?thesis
      proof (cases "DeterministicEdgeID label' f' t' = ?k")
        case True
        with abs EdgeUp obtain o' where n: "g_edges g ?k = Some o'" "absorbs (e_props o') qs" by auto
        have "absorbs (e_props e) qs"
        proof (rule merge_keeps_absorbed [OF _ _ n(2)])
          show "stored_merge (Some (e_props o')) ps (e_props e)" using e(2) n(1) by simp
          show "props_ok ps" using ok v by simp
          show "agree qs ps" using agr EdgeUp v True by simp
        qed
        with e(1) EdgeUp True show ?thesis by simp
      qed (use abs e EdgeUp in auto)
    next
      case (NodeUp d i label' qs)
      with abs up(2) show ?thesis by simp
    qed
  qed (use up(2,4) abs in simp)
qed

lemma up_again:
  assumes inv: "g_inv g" and ok: "up_ok u" and run: "run_upsert ops u g = (r, g')"
    and abs: "absorbed u (g_nodes g) (g_edges g)"
  shows "r \<noteq> Panic \<and> g_nodes g' = g_nodes g \<and> g_edges g' = g_edges g"
proof (cases u)
  case (NodeUp c i label ps)
  note up = node_up [OF inv ok [unfolded NodeUp] run [unfolded NodeUp]]
  from abs NodeUp obtain n where n: "g_nodes g i = Some n" "absorbs (n_props n) (Some ps)" by auto
  have "r \<noteq> Panic" using up(3) n by (auto simp: absorbs_def)
  moreover have "g_nodes g' = g_nodes g" if "r = Ok ()"
  proof -
    from up(5) [OF that] n(1) obtain m where m: "g_nodes g' = (g_nodes g)(i \<mapsto> m)"
      "stored_merge (Some (n_props n)) (Some ps) (n_props m)" "m = n\<lparr>n_props := n_props m\<rparr>" by auto
    have "n_props m = n_props n"
      by (rule absorbed_merge [OF m(2) n(2)]) (use ok NodeUp in \<open>simp add: props_ok_def\<close>)
    with m(3) have "m = n" by simp
    with m(1) n(1) show ?thesis by (simp add: map_upd_triv)
  qed
  ultimately show ?thesis using up(2,4) by blast
next
  case (EdgeUp c label f t ps)
  let ?k = "DeterministicEdgeID label f t"
  note up = edge_up_run [OF inv ok [unfolded EdgeUp] run [unfolded EdgeUp]]
  from abs EdgeUp obtain e where e: "g_edges g ?k = Some e" "absorbs (e_props e) ps" by auto
  have "r \<noteq> Panic" using up(3) e by (auto simp: absorbs_def)
  moreover have "g_edges g' = g_edges g" if "r = Ok ()"
  proof -
    from up(5) [OF that] e(1) obtain m where m: "g_edges g' = (g_edges g)(?k \<mapsto> m)"
      "stored_merge (Some (e_props e)) ps (e_props m)" "m = e\<lparr>e_props := e_props m\<rparr>" by auto
    have "e_props m = e_props e"
      by (rule absorbed_merge [OF m(2) e(2)]) (use ok EdgeUp in simp)
    with m(3) have "m = e" by simp
    with m(1) e(1) show ?thesis by (simp add: map_upd_triv)
  qed
  ultimately show ?thesis using up(2,4) by blast
qed

lemma ups_absorbed:
  assumes "run_upserts ops us g = (r, g')" "g_inv g" "list_all up_ok us"
    and "r = Ok ()" "\<forall>u \<in> set us. \<forall>v \<in> set us. up_agree u v"
  shows "\<forall>u. (u \<in> set us \<or> absorbed u (g_nodes g) (g_edges g) \<and> (\<forall>v \<in> set us. up_agree u v)) \<longrightarrow>
    absorbed u (g_nodes g') (g_edges g')"
  using assms
proof (induction rule: ups_induct)
  case (step u us g h r g')
  show ?case
  proof (intro allI impI)
    fix x assume x: "x \<in> set (u # us) \<or> absorbed x (g_nodes g) (g_edges g) \<and> (\<forall>v \<in> set (u # us). up_agree x v)"
    have "x \<in> set us \<or> absorbed x (g_nodes h) (g_edges h) \<and> (\<forall>v \<in> set us. up_agree x v)"
    proof (cases "x = u \<or> x \<in> set us")
      case True
      then show ?thesis using up_absorbed [OF step(1,2,4)] step.prems(2) by auto
    next
      case False
      with x show ?thesis using up_keeps_absorbed [OF step(1,2,4), of x] by auto
    qed
    with step.IH step.prems show "absorbed x (g_nodes g') (g_edges g')" by auto
  qed
qed simp_all

lemma ups_again:
  assumes "run_upserts ops us g = (r, g')" "g_inv g" "list_all up_ok us"
    and "\<forall>u \<in> set us. absorbed u (g_nodes g) (g_edges g)"
  shows "r \<noteq> Panic \<and> g_nodes g' = g_nodes g \<and> g_edges g' = g_edges g"
  using assms
proof (induction rule: ups_induct)
  case (fail u us g r g')
  then show ?case using up_again [OF fail(1,2,4)] by simp
next
  case (step u us g h r g')
  then show ?case using up_again [OF step(1,2,4)] by simp
qed simp

lemma ups_twice:
  assumes "run_upserts ops us g = (Ok (), g1)" and inv: "g_inv g" and ok: "list_all up_ok us"
    and "\<forall>u \<in> set us. \<forall>v \<in> set us. up_agree u v"
    and "run_upserts ops us g1 = (r, g2)"
  shows "r \<noteq> Panic \<and> g_nodes g2 = g_nodes g1 \<and> g_edges g2 = g_edges g1"
proof (rule ups_again [OF assms(5) ups_inv [OF assms(1-3)] ok])
  show "\<forall>u \<in> set us. absorbed u (g_nodes g1) (g_edges g1)"
    using ups_absorbed [OF assms(1-3) refl assms(4)] by blast
qed

end

end
