(* ===== verification/Ingest_Semantics.thy ===== *)
theory Ingest_Semantics
  imports Ingest_Laws
begin

text \<open>
  The handlers as scripts of upserts, and what routing a record does to any graph storage:
  invariants, panics, dangling edges, checkpoints, repetition.
\<close>

section \<open>Handlers as scripts\<close>

text \<open>A sequence of upserts, and the error the handler ends with when all have succeeded.\<close>

definition run_script :: "'s storage_ops \<Rightarrow> upsert list \<Rightarrow> gerr option \<Rightarrow> ('s graph, unit) go" where
  "run_script ops us e = go_bind (run_upserts ops us)
     (\<lambda>_. case e of None \<Rightarrow> go_ret () | Some x \<Rightarrow> go_raise x)"

definition script_ok :: "upsert list \<Rightarrow> bool" where
  "script_ok us \<longleftrightarrow> list_all up_ok us \<and> list_all no_offset us \<and> anchored {} us \<and>
     (\<forall>u \<in> set us. \<forall>v \<in> set us. up_agree u v)"

lemma run_script_None: "run_script ops us None = run_upserts ops us"
proof
  fix g
  obtain r h where r: "run_upserts ops us g = (r, h)" by fastforce
  then show "run_script ops us None g = run_upserts ops us g"
    by (cases r) (simp_all add: run_script_def go_bind_def go_ret_def)
qed

lemma run_script_raise: "run_script ops [] (Some e) = go_raise e"
  by (simp add: run_script_def run_upserts_def go_bind_def go_ret_def)

lemma run_upserts_append:
  "go_bind (run_upserts ops us) (\<lambda>_. run_upserts ops vs) = run_upserts ops (us @ vs)"
  unfolding run_upserts_def
  by (induction us) (auto simp: go_bind_def go_ret_def fun_eq_iff split: prod.splits outcome.splits)

lemma agree_simps [simp]: "agree None ps" "agree ps None"
  by (simp_all add: agree_def)

lemma agree_self: "distinct (map fst ps) \<Longrightarrow> agree (Some ps) (Some ps)"
  unfolding agree_def by (auto dest: eq_key_imp_eq_value)

lemma props_ok_simps [simp]: "props_ok None" "props_ok (Some ps) \<longleftrightarrow> distinct (map fst ps)"
  by (simp_all add: props_ok_def)

lemmas ids = AgentNodeID_def ConversationNodeID_def SkillNodeID_def MessageNodeID_def
  SharedMemoryNodeID_def AuditEventNodeID_def HumanFeedbackNodeID_def

lemmas script_parts = sender_node_def conversation_node_def message_node_def authored_edge_def
  belongs_edge_def memory_reference_def roster_skill_def

lemma script_okI:
  "list_all up_ok us \<Longrightarrow> list_all no_offset us \<Longrightarrow> anchored {} us \<Longrightarrow>
    (\<And>u v. u \<in> set us \<Longrightarrow> v \<in> set us \<Longrightarrow> up_agree u v) \<Longrightarrow> script_ok us"
  by (simp add: script_ok_def)

text \<open>What a handler may be: an error at once, or a script.\<close>

definition scripted :: "('s storage_ops \<Rightarrow> ('s graph, unit) go) \<Rightarrow> bool" where
  "scripted m \<longleftrightarrow> (\<exists>us e. script_ok us \<and> m = (\<lambda>ops. run_script ops us e))"

lemma scripted_upserts: "script_ok us \<Longrightarrow> scripted (\<lambda>ops. run_upserts ops us)"
  unfolding scripted_def by (intro exI [of _ us] exI [of _ None]) (simp add: run_script_None)

lemma scripted_error: "script_ok us \<Longrightarrow> scripted (\<lambda>ops. go_bind (run_upserts ops us) (\<lambda>_. go_raise e))"
  unfolding scripted_def by (intro exI [of _ us] exI [of _ "Some e"]) (simp add: run_script_def)

lemma scripted_raise: "scripted (\<lambda>ops. go_raise e)"
  unfolding scripted_def
  by (intro exI [of _ "[]"] exI [of _ "Some e"]) (simp add: run_script_raise script_ok_def)

lemma scripted_payload:
  "(\<And>p. r = Inr p \<Longrightarrow> scripted (\<lambda>ops. f ops p)) \<Longrightarrow> scripted (\<lambda>ops. with_payload c r (f ops))"
  by (cases r) (simp_all add: with_payload_def scripted_raise)

lemma scripted_if: "scripted a \<Longrightarrow> scripted b \<Longrightarrow> scripted (\<lambda>ops. if c then a ops else b ops)"
  by (cases c) simp_all

lemma go_bind_if:
  "go_bind m (\<lambda>_. if c then a else b) = (if c then go_bind m (\<lambda>_. a) else go_bind m (\<lambda>_. b))"
  by simp

lemma request_scripted: "scripted (\<lambda>ops. HandleRequest ops env src)"
  unfolding HandleRequest_def Let_def
  by (intro scripted_payload scripted_upserts script_okI)
    (auto simp: script_parts ids agree_self)

lemma response_scripted: "scripted (\<lambda>ops. HandleResponse ops env src)"
  unfolding HandleResponse_def Let_def
  by (intro scripted_payload scripted_upserts script_okI)
    (auto simp: script_parts ids agree_self)

lemma announce_scripted: "scripted (\<lambda>ops. HandleAnnounce ops env src)"
  unfolding HandleAnnounce_def Let_def
  by (intro scripted_payload scripted_upserts script_okI) (auto simp: agree_self)

lemma task_status_scripted: "scripted (\<lambda>ops. HandleTaskStatus ops env src)"
  unfolding HandleTaskStatus_def
  by (intro scripted_payload scripted_upserts script_okI) (auto simp: agree_self)

lemma trace_scripted: "scripted (\<lambda>ops. HandleTrace L ops env src)"
  unfolding HandleTrace_def
  by (intro scripted_payload scripted_upserts script_okI) (auto simp: agree_self)

lemma skill_request_scripted: "scripted (\<lambda>ops. HandleSkillRequest ops env src)"
  unfolding HandleSkillRequest_def Let_def
  by (intro scripted_payload scripted_upserts script_okI)
    (auto simp: script_parts ids agree_self)

lemma skill_response_scripted: "scripted (\<lambda>ops. HandleSkillResponse ops env src)"
  unfolding HandleSkillResponse_def
  by (intro scripted_payload response_scripted)

lemma audit_scripted: "scripted (\<lambda>ops. HandleAudit ops env src)"
  unfolding HandleAudit_def Let_def
  by (intro scripted_payload scripted_upserts script_okI)
    (auto simp: script_parts ids agree_self)

lemma anchored_append:
  "anchored S (us @ vs) \<longleftrightarrow> anchored S us \<and>
     anchored (S \<union> {i. \<exists>c l ps. NodeUp c i l ps \<in> set us}) vs"
proof (induction S us rule: anchored.induct)
  case (2 S c i label ps us)
  have "insert i S \<union> {j. \<exists>c l ps. NodeUp c j l ps \<in> set us} =
      S \<union> {j. \<exists>d l qs. NodeUp d j l qs \<in> set (NodeUp c i label ps # us)}" by auto
  with 2 show ?case by simp
next
  case (3 S c label f t ps us)
  have "{j. \<exists>d l qs. NodeUp d j l qs \<in> set (EdgeUp c label f t ps # us)} =
      {j. \<exists>d l qs. NodeUp d j l qs \<in> set us}" by auto
  with 3 show ?case by simp
qed simp

text \<open>A loop whose every round is anchored, the rounds sharing the ends \<open>S\<close>.\<close>

lemma anchored_concat:
  "(\<And>x. x \<in> set xs \<Longrightarrow> anchored S (f x)) \<Longrightarrow> anchored S (concat (map f xs))"
proof (induction xs)
  case (Cons x xs)
  then show ?case by (auto simp: anchored_append intro: anchored_mono)
qed simp

lemma memory_scripted: "scripted (\<lambda>ops. HandleMemory ops env src)"
  unfolding HandleMemory_def Let_def
proof (intro scripted_payload scripted_upserts script_okI, goal_cases)
  case (3 p)
  show ?case
    by (auto simp: script_parts ids intro!: anchored_concat)
qed (auto simp: script_parts ids agree_self list_all_iff)

lemma roster_props_distinct: "distinct (map fst (roster_props p d))" "''offset'' \<notin> fst ` set (roster_props p d)"
  by (auto simp: roster_props_def)

lemma roster_scripted: "scripted (\<lambda>ops. HandleRoster ops env src)"
  unfolding HandleRoster_def Let_def
proof (intro scripted_payload scripted_upserts script_okI, goal_cases)
  case (3 p)
  show ?case
    by (auto simp: script_parts ids intro!: anchored_concat)
qed (auto simp: script_parts ids agree_self list_all_iff roster_props_distinct)

lemma orchestrator_scripted: "scripted (\<lambda>ops. HandleOrchestrator L ops env src)"
  unfolding HandleOrchestrator_def Let_def
proof (intro scripted_payload)
  fix p assume "decode_orchestrator (env_payload env) = Inr p"
  let ?from = "AgentNodeID (or_from_agent p)" and ?to = "AgentNodeID (or_to_agent p)"
  let ?nodes = "[NodeUp (Some (''handle orchestrator'' @ '': upsert from agent'')) ?from ''Agent'' [(''senderID'', VStr (or_from_agent p))],
    NodeUp (Some (''handle orchestrator'' @ '': upsert to agent'')) ?to ''Agent'' [(''senderID'', VStr (or_to_agent p))]]"
  have ok: "script_ok (?nodes @ es)"
    if "es = [] \<or> (\<exists>l. colon_free l \<and> es = [EdgeUp None l ?from ?to (Some [(''taskID'', VStr (or_task_id p))])])" for es
    using that by (intro script_okI) (auto simp: ids agree_self)
  have edge: "scripted (\<lambda>ops. go_bind (run_upserts ops ?nodes) (\<lambda>_. run_upserts ops
      [EdgeUp None l ?from ?to (Some [(''taskID'', VStr (or_task_id p))])]))" if "colon_free l" for l
    unfolding run_upserts_append by (intro scripted_upserts ok) (use that in blast)
  have fail: "scripted (\<lambda>ops. go_bind (run_upserts ops ?nodes) (\<lambda>_. go_raise e))" for e
    using scripted_error [OF ok [of "[]"]] by simp
  show "scripted (\<lambda>ops. go_bind (run_upserts ops ?nodes) (\<lambda>_.
      if or_action p = ''delegate'' then run_upserts ops
        [EdgeUp None ''DELEGATES_TO'' ?from ?to (Some [(''taskID'', VStr (or_task_id p))])]
      else if or_action p = ''report'' then run_upserts ops
        [EdgeUp None ''REPORTS_TO'' ?from ?to (Some [(''taskID'', VStr (or_task_id p))])]
      else go_raise (Msg (''handle orchestrator'' @ '': unknown action '' @ in_quote L (or_action p)))))"
    unfolding go_bind_if by (intro scripted_if edge fail) simp_all
qed

text \<open>Every record that is not human feedback is a script.\<close>

lemma Route_scripted:
  assumes "env_type env \<noteq> ''human_feedback''"
  shows "scripted (\<lambda>ops :: 's storage_ops. Route (NewRouter L ops) env src)"
proof -
  have skip: "scripted (\<lambda>ops :: 's storage_ops. go_ret ())"
    using scripted_upserts [of "[]"] by (simp add: script_ok_def run_upserts_def)
  have route: "(\<lambda>ops :: 's storage_ops. Route (NewRouter L ops) env src) = (\<lambda>ops. let t = env_type env in
      if t = ''announce'' then HandleAnnounce ops env src
      else if t = ''request'' then HandleRequest ops env src
      else if t = ''response'' then HandleResponse ops env src
      else if t = ''task_status'' then HandleTaskStatus ops env src
      else if t = ''skill_request'' then HandleSkillRequest ops env src
      else if t = ''skill_response'' then HandleSkillResponse ops env src
      else if t = ''memory'' then HandleMemory ops env src
      else if t = ''trace'' then HandleTrace L ops env src
      else if t = ''audit'' then HandleAudit ops env src
      else if t = ''roster'' then HandleRoster ops env src
      else if t = ''orchestrator'' then HandleOrchestrator L ops env src else go_ret ())"
    using assms by (simp add: Route_def NewRouter_def Let_def fun_eq_iff)
  show ?thesis
    unfolding route Let_def
    by (intro scripted_if skip announce_scripted request_scripted response_scripted
        task_status_scripted skill_request_scripted skill_response_scripted memory_scripted
        trace_scripted audit_scripted roster_scripted orchestrator_scripted)
qed

section \<open>Routing a record\<close>

lemma feedback_upserts_ok:
  "list_all up_ok (feedback_upserts env src p)" "list_all no_offset (feedback_upserts env src p)"
  by (simp_all add: feedback_upserts_def Let_def)

context graph_storage
begin

lemma script_run:
  assumes "script_ok us" and "run_script ops us e g = (r, g')" and inv: "g_inv g"
  obtains r0 where "run_upserts ops us g = (r0, g')" and "r = Panic \<longleftrightarrow> r0 = Panic"
    and "r = Ok () \<Longrightarrow> r0 = Ok () \<and> e = None"
  using assms(2) by (cases "run_upserts ops us g"; cases e; cases "fst (run_upserts ops us g)")
    (auto simp: run_script_def go_bind_def go_ret_def go_raise_def)

lemma scripted_run:
  assumes "scripted m" and run: "m ops g = (r, g')" and inv: "g_inv g"
  shows "g_inv g'" and "offset_at (g_nodes g') = offset_at (g_nodes g)"
    and "has_maps (g_nodes g) (g_edges g) \<Longrightarrow> r \<noteq> Panic \<and> has_maps (g_nodes g') (g_edges g')"
    and "no_dangling (g_nodes g) (g_edges g) \<Longrightarrow> no_dangling (g_nodes g') (g_edges g')"
proof -
  from assms(1) obtain us e where ok: "script_ok us" and m: "m = (\<lambda>ops. run_script ops us e)"
    by (auto simp: scripted_def)
  from run m have "run_script ops us e g = (r, g')" by simp
  then obtain r0 where r0: "run_upserts ops us g = (r0, g')" "r = Panic \<longleftrightarrow> r0 = Panic"
    by (rule script_run [OF ok _ inv])
  have ups: "list_all up_ok us" "list_all no_offset us" "anchored {} us"
    using ok by (simp_all add: script_ok_def)
  show "g_inv g'" by (rule ups_inv [OF r0(1) inv ups(1)])
  show "offset_at (g_nodes g') = offset_at (g_nodes g)" by (rule ups_offset [OF r0(1) inv ups(1,2)])
  show "r \<noteq> Panic \<and> has_maps (g_nodes g') (g_edges g')" if "has_maps (g_nodes g) (g_edges g)"
    using ups_maps [OF r0(1) inv ups(1) that] r0(2) by simp
  show "no_dangling (g_nodes g') (g_edges g')" if "no_dangling (g_nodes g) (g_edges g)"
    by (rule ups_no_dangling [OF r0(1) inv ups(1,3) _ that]) simp
qed

lemma scripted_twice:
  assumes "scripted m" and run: "m ops g = (Ok (), g1)" "m ops g1 = (r, g2)" and inv: "g_inv g"
  shows "r \<noteq> Panic \<and> g_nodes g2 = g_nodes g1 \<and> g_edges g2 = g_edges g1"
proof -
  from assms(1) obtain us e where ok: "script_ok us" and m: "m = (\<lambda>ops. run_script ops us e)"
    by (auto simp: scripted_def)
  from run(1) m have run1: "run_script ops us e g = (Ok (), g1)" by simp
  obtain r1 where "run_upserts ops us g = (r1, g1)" "r1 = Ok () \<and> e = None"
    using script_run [OF ok run1 inv] by blast
  then have ups1: "run_upserts ops us g = (Ok (), g1)" and "e = None" by simp_all
  with run(2) m have ups2: "run_upserts ops us g1 = (r, g2)" by (simp add: run_script_None)
  show ?thesis
    by (rule ups_twice [OF ups1 inv _ _ ups2]) (use ok in \<open>simp_all add: script_ok_def\<close>)
qed

text \<open>Score overrides write edges that are there.\<close>

lemma ignore_edge:
  assumes inv: "g_inv g" and k: "colons k = 2" and ps: "props_ok ps"
    and run: "go_ignore (UpsertEdge ops k label from to ps) g = (r, g')"
  shows "g_inv g'" and "g_nodes g' = g_nodes g"
    and "has_maps (g_nodes g) (g_edges g) \<Longrightarrow> r \<noteq> Panic \<and> has_maps (g_nodes g') (g_edges g')"
    and "no_dangling (g_nodes g) (g_edges g) \<Longrightarrow> {from, to} \<subseteq> dom (g_nodes g) \<Longrightarrow>
      no_dangling (g_nodes g') (g_edges g')"
proof -
  obtain r0 where r0: "UpsertEdge ops k label from to ps g = (r0, g')" "r = Panic \<longleftrightarrow> r0 = Panic"
    using run by (cases "UpsertEdge ops k label from to ps g"; cases "fst (UpsertEdge ops k label from to ps g)")
      (auto simp: go_ignore_def go_bind_def go_try_def go_ret_def)
  note up = edge_up [OF inv k ps r0(1)]
  show "g_inv g'" "g_nodes g' = g_nodes g" by (rule up)+
  show "r \<noteq> Panic \<and> has_maps (g_nodes g') (g_edges g')" if maps: "has_maps (g_nodes g) (g_edges g)"
  proof (cases r0)
    case (Ok x)
    with up(5) obtain e where e: "g_edges g' = (g_edges g)(k \<mapsto> e)"
      "stored_merge (map_option e_props (g_edges g k)) ps (e_props e)" by blast
    from merge_has_map [OF e(2)] has_mapsD(2) [OF maps] have "e_props e \<noteq> None" by auto
    with e(1) up(2) maps r0 Ok show ?thesis by (simp add: has_maps_def)
  next
    case (Err x)
    with up(2,4) maps r0 show ?thesis by simp
  next
    case Panic
    with up(3) has_mapsD(2) [OF maps] show ?thesis by blast
  qed
  show "no_dangling (g_nodes g') (g_edges g')"
    if nd: "no_dangling (g_nodes g) (g_edges g)" and ends: "{from, to} \<subseteq> dom (g_nodes g)"
  proof (cases "\<exists>x. r0 = Ok x")
    case True
    with up(5) obtain e where e: "g_edges g' = (g_edges g)(k \<mapsto> e)"
      "case g_edges g k of None \<Rightarrow> e_from e = from \<and> e_to e = to
         | Some o' \<Rightarrow> e = o'\<lparr>e_props := e_props e\<rparr>" by blast
    have "g_nodes g (e_from e) \<noteq> None \<and> g_nodes g (e_to e) \<noteq> None"
      by (rule kept_ends [OF e(2) nd ends])
    with no_dangling_upd [OF nd] e(1) up(2) show ?thesis by simp
  next
    case False
    with up(2,4) nd show ?thesis by simp
  qed
qed

lemma overrides_run:
  assumes inv: "g_inv g" and run: "applyScoreOverrides ops cycle a b c g = (r, g')"
  shows "g_inv g'" and "g_nodes g' = g_nodes g"
    and "has_maps (g_nodes g) (g_edges g) \<Longrightarrow> r \<noteq> Panic \<and> has_maps (g_nodes g') (g_edges g')"
    and "no_dangling (g_nodes g) (g_edges g) \<Longrightarrow> no_dangling (g_nodes g') (g_edges g')"
proof -
  obtain es where es: "st_edges_by_node ops cycle (g_store g) = (Ok es, g_store g)"
    "set es = {e. g_edges g (e_id e) = Some e \<and> incident cycle e}"
    using edges_by_node [OF inv] by blast
  have ok: "colons (e_id e) = 2" if "e \<in> set es" for e
    using keyed_edge [OF inv, of "e_id e" e] es(2) that by (simp add: stored_edge_def edge_ok_def)
  have ps: "props_ok (Some (score_props a b c))" by (simp add: score_props_def)
  define body :: "edge \<Rightarrow> ('s graph, unit) go" where "body e = (if e_label e \<noteq> ''LINKS_TO'' \<or> e_to e \<noteq> cycle then go_ret ()
      else let ps = score_props a b c in
        if ps \<noteq> [] then go_ignore (UpsertEdge ops (e_id e) (e_label e) (e_from e) (e_to e) (Some ps))
        else go_ret ())" for e
  have loop: "go_for es body g = (r, g')"
    using run es(1) by (simp add: applyScoreOverrides_def Neighbors_def on_store_def go_bind_def
        go_try_def body_def [abs_def])
  have step: "g_inv h' \<and> g_nodes h' = g_nodes h \<and>
      (has_maps (g_nodes h) (g_edges h) \<longrightarrow> q \<noteq> Panic \<and> has_maps (g_nodes h') (g_edges h')) \<and>
      (no_dangling (g_nodes h) (g_edges h) \<longrightarrow> {e_from e, e_to e} \<subseteq> dom (g_nodes h) \<longrightarrow>
        no_dangling (g_nodes h') (g_edges h'))"
    if "e \<in> set es" "g_inv h" "body e h = (q, h')" for e h q h'
    using that(3) ignore_edge [OF that(2) ok [OF that(1)] ps, of "e_label e" "e_from e" "e_to e" q h'] that(2)
    by (auto simp: body_def Let_def go_ret_def split: if_splits)
  have all: "set xs \<subseteq> set es \<Longrightarrow> g_inv h \<Longrightarrow> go_for xs body h = (q, h') \<Longrightarrow>
      g_inv h' \<and> g_nodes h' = g_nodes h \<and>
      (has_maps (g_nodes h) (g_edges h) \<longrightarrow> q \<noteq> Panic \<and> has_maps (g_nodes h') (g_edges h')) \<and>
      (no_dangling (g_nodes h) (g_edges h) \<longrightarrow> (\<forall>e \<in> set xs. {e_from e, e_to e} \<subseteq> dom (g_nodes h)) \<longrightarrow>
        no_dangling (g_nodes h') (g_edges h'))" for xs h q h'
  proof (induction xs arbitrary: h)
    case (Cons x xs)
    obtain q1 h1 where b: "body x h = (q1, h1)" by fastforce
    note st = step [OF _ Cons.prems(2) b]
    show ?case
    proof (cases q1)
      case (Ok u)
      with Cons.prems b have "go_for xs body h1 = (q, h')" by (simp add: go_bind_def)
      with Cons.IH [of h1] st Cons.prems show ?thesis by auto
    next
      case (Err e)
      with Cons.prems b st show ?thesis by (auto simp: go_bind_def)
    next
      case Panic
      with Cons.prems b st show ?thesis by (auto simp: go_bind_def)
    qed
  qed (auto simp: go_ret_def)
  note final = all [OF subset_refl inv loop]
  show "g_inv g'" "g_nodes g' = g_nodes g"
    "has_maps (g_nodes g) (g_edges g) \<Longrightarrow> r \<noteq> Panic \<and> has_maps (g_nodes g') (g_edges g')"
    using final by blast+
  show "no_dangling (g_nodes g') (g_edges g')" if nd: "no_dangling (g_nodes g) (g_edges g)"
  proof -
    have "{e_from e, e_to e} \<subseteq> dom (g_nodes g)" if "e \<in> set es" for e
      using es(2) that nd unfolding no_dangling_def by blast
    with final nd show ?thesis by blast
  qed
qed

text \<open>
  The edge to the cycle dangles until the last upsert; when all three have succeeded nothing
  does.
\<close>

lemma feedback_no_dangling:
  assumes inv: "g_inv g" and run: "run_upserts ops (feedback_upserts env src p) g = (Ok (), g')"
    and nd: "no_dangling (g_nodes g) (g_edges g)"
  shows "no_dangling (g_nodes g') (g_edges g')"
proof -
  obtain u v w where us: "feedback_upserts env src p = [u, v, w]"
    and v: "\<exists>c. v = EdgeUp c ''HAS_FEEDBACK'' (hf_cycle_id p) (HumanFeedbackNodeID src) None"
    and u: "\<exists>c l ps. u = NodeUp c (HumanFeedbackNodeID src) l ps"
    and w: "\<exists>c l ps. w = NodeUp c (hf_cycle_id p) l ps"
    by (simp add: feedback_upserts_def Let_def)
  have ok: "up_ok u" "up_ok v" "up_ok w" using feedback_upserts_ok(1) [of env src p] us by simp_all
  obtain g1 g2 where r1: "run_upsert ops u g = (Ok (), g1)" and r2: "run_upsert ops v g1 = (Ok (), g2)"
    and r3: "run_upsert ops w g2 = (Ok (), g')"
    using run unfolding us by (auto elim!: ups_Cons)
  note inv1 = up_inv [OF inv ok(1) r1]
  note inv2 = up_inv [OF inv1 ok(2) r2]
  let ?N = "g_nodes g'" and ?f = "HumanFeedbackNodeID src" and ?c = "hf_cycle_id p"
  have "?f \<in> dom (g_nodes g1)" using up_dom_node [OF inv] ok(1) r1 u by blast
  moreover have "?c \<in> dom ?N" using up_dom_node [OF inv2] ok(3) r3 w by blast
  moreover have dom: "dom (g_nodes g1) \<subseteq> dom ?N"
    using up_dom [OF inv1 ok(2) r2] up_dom [OF inv2 ok(3) r3] by blast
  ultimately have ends: "{?c, ?f} \<subseteq> dom ?N" by blast
  have "no_dangling (g_nodes g1) (g_edges g1)"
    using up_no_dangling_node [OF inv _ _ nd] ok(1) r1 u by blast
  then have nd1: "no_dangling ?N (g_edges g1)" by (rule no_dangling_nodes_mono [OF _ dom])
  obtain c where v': "v = EdgeUp c ''HAS_FEEDBACK'' ?c ?f None" using v by blast
  from edge_up_run(5) [OF inv1 ok(2) [unfolded v'] r2 [unfolded v']]
  obtain k e where e: "g_edges g2 = (g_edges g1)(k \<mapsto> e)"
    "case g_edges g1 k of None \<Rightarrow> e_from e = ?c \<and> e_to e = ?f
       | Some o' \<Rightarrow> e = o'\<lparr>e_props := e_props e\<rparr>" by blast
  have "?N (e_from e) \<noteq> None \<and> ?N (e_to e) \<noteq> None" by (rule kept_ends [OF e(2) nd1 ends])
  then have "no_dangling ?N (g_edges g2)" unfolding e(1) by (intro no_dangling_upd [OF nd1]) simp_all
  moreover have "g_edges g' = g_edges g2" using node_up(2) [OF inv2] ok(3) r3 w by blast
  ultimately show ?thesis by simp
qed

text \<open>Human feedback, and with it every record.\<close>

lemma feedback_run:
  assumes inv: "g_inv g" and run: "HandleHumanFeedback L ops env src g = (r, g')"
  shows "g_inv g' \<and> offset_at (g_nodes g') = offset_at (g_nodes g) \<and>
    (has_maps (g_nodes g) (g_edges g) \<longrightarrow> r \<noteq> Panic \<and> has_maps (g_nodes g') (g_edges g')) \<and>
    (r = Ok () \<longrightarrow> no_dangling (g_nodes g) (g_edges g) \<longrightarrow> no_dangling (g_nodes g') (g_edges g'))"
proof (cases "\<exists>e. HandleHumanFeedback L ops env src = go_raise e")
  case True
  with run inv show ?thesis by (auto simp: go_raise_def)
next
  case False
  then obtain p where "HandleHumanFeedback L ops env src =
      go_bind (run_upserts ops (feedback_upserts env src p)) (\<lambda>_.
        applyScoreOverrides ops (hf_cycle_id p) (hf_impact p) (hf_relevance p) (hf_value p))"
    unfolding HandleHumanFeedback_def with_payload_def by (auto split: sum.splits if_splits)
  with run have run': "go_bind (run_upserts ops (feedback_upserts env src p)) (\<lambda>_.
      applyScoreOverrides ops (hf_cycle_id p) (hf_impact p) (hf_relevance p) (hf_value p)) g = (r, g')"
    by simp
  obtain q h where ups: "run_upserts ops (feedback_upserts env src p) g = (q, h)" by fastforce
  note ok = feedback_upserts_ok [of env src p]
  note first = ups_inv [OF ups inv ok(1)] ups_offset [OF ups inv ok] ups_maps [OF ups inv ok(1)]
  show ?thesis
  proof (cases q)
    case (Ok u)
    with run' ups have rest: "applyScoreOverrides ops (hf_cycle_id p) (hf_impact p) (hf_relevance p)
        (hf_value p) h = (r, g')" by (simp add: go_bind_def)
    note second = overrides_run [OF first(1) rest]
    have "no_dangling (g_nodes h) (g_edges h)" if "no_dangling (g_nodes g) (g_edges g)"
      by (rule feedback_no_dangling [OF inv _ that]) (use ups Ok in simp)
    with first second show ?thesis by simp
  qed (use run' ups first in \<open>auto simp: go_bind_def\<close>)
qed

end

end
