(* ===== verification/Ingest_Poll.thy ===== *)
theory Ingest_Poll
  imports Ingest_Semantics
begin

text \<open>
  Polling: what loading and committing a checkpoint do, the contract of a segment reader,
  and how a processor moves through the log it reads. The in-memory reader is shown to meet
  the contract.
\<close>

section \<open>Checkpoints of the abstract graph\<close>

definition checkpoint_of :: "(string \<Rightarrow> node option) \<Rightarrow> string \<Rightarrow> string \<Rightarrow> 32 word \<Rightarrow> gerr + 64 word" where
  "checkpoint_of N ns t p = (case offset_at N (checkpoint_id ns t p) of
       None \<Rightarrow> Inr (- 1)
     | Some s \<Rightarrow> (case parse_int64 s of (i, okay) \<Rightarrow>
         if okay then Inr (word_of_int i) else Inl checkpoint_error))"

lemma checkpoint_id_eq [simp]:
  "checkpoint_id ns t p = checkpoint_id ns t' p' \<longleftrightarrow> t = t' \<and> p = p'"
proof -
  have "colons (show_int (sint p)) = colons (show_int (sint p'))" by simp
  from colon_key_eq [OF this, of "''ckpt:'' @ ns @ '':'' @ t" "''ckpt:'' @ ns @ '':'' @ t'"]
  have "checkpoint_id ns t p = checkpoint_id ns t' p' \<longleftrightarrow> t = t' \<and> show_int (sint p) = show_int (sint p')"
    by (simp add: checkpoint_id_def)
  moreover have "show_int (sint p) = show_int (sint p') \<longleftrightarrow> p = p'"
  proof
    assume "show_int (sint p) = show_int (sint p')"
    then have "parse_int64 (show_int (sint p)) = parse_int64 (show_int (sint p'))" by simp
    moreover have "int64_min \<le> sint q \<and> sint q \<le> int64_max" for q :: "32 word"
      using sint_ge [of q] sint_lt [of q] by (simp add: int64_min_def int64_max_def)
    ultimately have "sint p = sint p'" by (simp add: parse_int64_show_int)
    then show "p = p'" by (rule signed_word_eqI)
  qed simp
  ultimately show ?thesis by simp
qed

lemma checkpoint_cong: "offset_at N = offset_at N' \<Longrightarrow> checkpoint_of N = checkpoint_of N'"
  by (simp add: checkpoint_of_def fun_eq_iff)

lemma offset_of_text [simp]:
  "checkpoint_of N ns t p = Inr off" if "offset_at N (checkpoint_id ns t p) = Some (show_int (sint off))"
  using that sint_int64_ok [of off] by (simp add: checkpoint_of_def parse_int64_show_int int64_ok_def)

context graph_storage
begin

lemma route_run:
  assumes inv: "g_inv g" and run: "Route (NewRouter L ops) env src g = (r, g')"
  shows "g_inv g'" and "offset_at (g_nodes g') = offset_at (g_nodes g)"
    and "has_maps (g_nodes g) (g_edges g) \<Longrightarrow> r \<noteq> Panic \<and> has_maps (g_nodes g') (g_edges g')"
    and "env_type env \<noteq> ''human_feedback'' \<or> r = Ok () \<Longrightarrow> no_dangling (g_nodes g) (g_edges g) \<Longrightarrow>
      no_dangling (g_nodes g') (g_edges g')"
proof -
  have "(g_inv g' \<and> offset_at (g_nodes g') = offset_at (g_nodes g) \<and>
    (has_maps (g_nodes g) (g_edges g) \<longrightarrow> r \<noteq> Panic \<and> has_maps (g_nodes g') (g_edges g'))) \<and>
    (env_type env \<noteq> ''human_feedback'' \<or> r = Ok () \<longrightarrow> no_dangling (g_nodes g) (g_edges g) \<longrightarrow>
      no_dangling (g_nodes g') (g_edges g'))"
  proof (cases "env_type env = ''human_feedback''")
    case True
    with run have "HandleHumanFeedback L ops env src g = (r, g')"
      by (simp add: Route_def NewRouter_def)
    from feedback_run [OF inv this] True show ?thesis by simp
  next
    case False
    note s = Route_scripted [OF False, of L src]
    show ?thesis using scripted_run [OF s run inv] by blast
  qed
  then show "g_inv g'" "offset_at (g_nodes g') = offset_at (g_nodes g)"
    "has_maps (g_nodes g) (g_edges g) \<Longrightarrow> r \<noteq> Panic \<and> has_maps (g_nodes g') (g_edges g')"
    "env_type env \<noteq> ''human_feedback'' \<or> r = Ok () \<Longrightarrow> no_dangling (g_nodes g) (g_edges g) \<Longrightarrow>
      no_dangling (g_nodes g') (g_edges g')"
    by blast+
qed

lemma load_run:
  assumes inv: "g_inv g"
  shows "Load ops ns t p g = (case checkpoint_of (g_nodes g) ns t p of Inl e \<Rightarrow> Err e | Inr x \<Rightarrow> Ok x, g)"
proof -
  let ?i = "checkpoint_id ns t p"
  have get: "graph_GetNode ops ?i g = (case g_nodes g ?i of Some n \<Rightarrow> Ok n
      | None \<Rightarrow> Err (Msg (''node '' @ ?i @ '' not found'')), g)"
    by (simp only: graph_GetNode_def on_store_def get_node [OF inv]) simp
  show ?thesis
  proof (cases "g_nodes g ?i")
    case None
    with get show ?thesis
      by (simp add: Load_def go_bind_def go_try_def go_ret_def checkpoint_of_def offset_at_def)
  next
    case (Some n)
    with get show ?thesis
      by (simp add: Load_def go_bind_def go_try_def go_ret_def go_raise_def checkpoint_of_def
          offset_at_def split: option.splits gval.splits prod.splits)
  qed
qed

text \<open>Committing writes one checkpoint and touches no other.\<close>

lemma commit_run:
  assumes inv: "g_inv g" and run: "Commit ops ns t p off g = (r, g')"
  shows "g_inv g'" and "g_edges g' = g_edges g"
    and "r = Ok () \<Longrightarrow> checkpoint_of (g_nodes g') =
      (\<lambda>ns' t' p'. if checkpoint_id ns' t' p' = checkpoint_id ns t p then Inr off
                   else checkpoint_of (g_nodes g) ns' t' p')"
    and "r \<noteq> Ok () \<Longrightarrow> g_nodes g' = g_nodes g"
    and "has_maps (g_nodes g) (g_edges g) \<Longrightarrow> r \<noteq> Panic \<and> has_maps (g_nodes g') (g_edges g')"
    and "no_dangling (g_nodes g) (g_edges g) \<Longrightarrow> no_dangling (g_nodes g') (g_edges g')"
proof -
  let ?i = "checkpoint_id ns t p"
  let ?ps = "[(''topic'', VStr t), (''partition'', VInt (scast p)),
    (''offset'', VStr (show_int (sint off))), (''namespace'', VStr ns)]"
  have u: "run_upsert ops (NodeUp None ?i ''_checkpoint'' ?ps) g = (r, g')"
    using run by (simp add: Commit_def wrap_in_def)
  have ok: "up_ok (NodeUp None ?i ''_checkpoint'' ?ps)" by simp
  note up = node_up [OF inv ok u]
  show "g_inv g'" "g_edges g' = g_edges g" by (rule up)+
  show "g_nodes g' = g_nodes g" if "r \<noteq> Ok ()" using up(4) that by blast
  show "r \<noteq> Panic \<and> has_maps (g_nodes g') (g_edges g')" if "has_maps (g_nodes g) (g_edges g)"
    by (rule up_maps [OF inv ok u that])
  show "no_dangling (g_nodes g') (g_edges g')" if "no_dangling (g_nodes g) (g_edges g)"
    by (rule up_no_dangling_node [OF inv ok u that])
  show "checkpoint_of (g_nodes g') = (\<lambda>ns' t' p'. if checkpoint_id ns' t' p' = ?i then Inr off
      else checkpoint_of (g_nodes g) ns' t' p')" if "r = Ok ()"
  proof -
    from up(5) [OF that] obtain m where m: "g_nodes g' = (g_nodes g)(?i \<mapsto> m)"
      "stored_merge (map_option n_props (g_nodes g ?i)) (Some ?ps) (n_props m)" by blast
    from merge_absorbs [OF m(2)] have "map_of (prop_list (n_props m)) ''offset'' = Some (VStr (show_int (sint off)))"
      by (auto simp: absorbs_def map_le_def props_ok_def split: option.splits
          dest!: bspec [where x = "''offset''"])
    with m(1) have "offset_at (g_nodes g') =
        (offset_at (g_nodes g))(?i \<mapsto> show_int (sint off))"
      by (simp add: offset_at_def fun_eq_iff)
    then show ?thesis
      using sint_int64_ok [of off]
      by (auto simp: checkpoint_of_def fun_eq_iff parse_int64_show_int int64_ok_def)
  qed
qed

end

end
