(* ===== verification/Ingest_Log.thy ===== *)
theory Ingest_Log
  imports Ingest_Poll
begin

text \<open>
  The contract of a segment reader and what polling does over any reader that meets it: a
  poll is one pass over the unread batches, and every successful poll moves every partition
  on by one batch.
\<close>

section \<open>Sorted logs\<close>

lemma go_for_append: "go_for (xs @ ys) body = go_bind (go_for xs body) (\<lambda>_. go_for ys body)"
  by (induction xs) (auto simp: fun_eq_iff go_bind_def go_ret_def split: outcome.splits prod.splits)

lemma filter_after_take:
  assumes "sorted_wrt (\<lambda>x y. f x < (f y :: int)) xs" and "take n xs \<noteq> []"
  shows "filter (\<lambda>x. f (last (take n xs)) < f x) xs = drop n xs"
  using assms
proof (induction xs arbitrary: n)
  case (Cons x xs)
  then obtain k where n: "n = Suc k" by (cases n) auto
  show ?case
  proof (cases "take k xs = []")
    case True
    then have "k = 0 \<or> xs = []" by auto
    moreover have "filter (\<lambda>y. f x < f y) xs = xs" using Cons.prems(1) by (auto simp: filter_id_conv)
    ultimately show ?thesis using n by auto
  next
    case False
    have "f x < f (last (take k xs))"
      using Cons.prems(1) last_in_set [OF False] by (auto dest: in_set_takeD)
    with Cons.IH [of k] Cons.prems False n show ?thesis by auto
  qed
qed simp

lemma filter_after_last:
  fixes c :: int
  assumes "sorted_wrt (\<lambda>x y. f x < (f y :: int)) xs" and ys: "ys = filter (\<lambda>x. c < f x) xs" and "take n ys \<noteq> []"
  shows "filter (\<lambda>x. f (last (take n ys)) < f x) xs = drop n ys"
proof -
  have "last (take n ys) \<in> set ys" using last_in_set [OF assms(3)] by (rule in_set_takeD)
  then have "c < f (last (take n ys))" using ys by simp
  then have "filter (\<lambda>x. f (last (take n ys)) < f x) xs = filter (\<lambda>x. f (last (take n ys)) < f x) ys"
    unfolding ys by (simp add: conj_commute) (rule filter_cong; auto)
  also have "\<dots> = drop n ys"
    by (rule filter_after_take) (use assms in \<open>simp_all add: sorted_wrt_filter\<close>)
  finally show ?thesis .
qed

section \<open>Records and checkpoints\<close>

context graph_storage
begin

abbreviation "cp g \<equiv> checkpoint_of (g_nodes g)"

lemma process_run:
  assumes inv: "g_inv g" and run: "ProcessRecord (NewProcessor L ops rd ns b) rec g = (r, g')"
  shows "g_inv g'" and "cp g' = cp g"
    and "has_maps (g_nodes g) (g_edges g) \<Longrightarrow> r \<noteq> Panic \<and> has_maps (g_nodes g') (g_edges g')"
proof -
  have "g_inv g' \<and> offset_at (g_nodes g') = offset_at (g_nodes g) \<and>
    (has_maps (g_nodes g) (g_edges g) \<longrightarrow> r \<noteq> Panic \<and> has_maps (g_nodes g') (g_edges g'))"
  proof (cases "ParseEnvelope (rec_value rec)")
    case (Inl e)
    with run inv show ?thesis by (auto simp: ProcessRecord_def go_raise_def)
  next
    case (Inr env)
    with run have route: "Route (NewRouter L ops) env (rec_source rec) g = (r, g')"
      by (simp add: ProcessRecord_def NewProcessor_def)
    from route_run [OF inv route] show ?thesis by blast
  qed
  then show "g_inv g'" "cp g' = cp g"
    "has_maps (g_nodes g) (g_edges g) \<Longrightarrow> r \<noteq> Panic \<and> has_maps (g_nodes g') (g_edges g')"
    by (blast intro: checkpoint_cong)+
qed

lemma poll_record_run:
  assumes inv: "g_inv g" and run: "poll_record (NewProcessor L ops rd ns b) rec g = (r, g')"
    and src: "so_topic (rec_source rec) = t" "so_partition (rec_source rec) = p"
  shows "g_inv g'"
    and "r = Ok () \<Longrightarrow> cp g' ns = (cp g ns)(t := (cp g ns t)(p := Inr (so_offset (rec_source rec))))"
    and "r \<noteq> Ok () \<Longrightarrow> cp g' = cp g"
    and "has_maps (g_nodes g) (g_edges g) \<Longrightarrow> r \<noteq> Panic \<and> has_maps (g_nodes g') (g_edges g')"
proof -
  obtain r0 h where pr: "ProcessRecord (NewProcessor L ops rd ns b) rec g = (r0, h)" by fastforce
  note first = process_run [OF inv pr]
  have "g_inv g' \<and> (r = Ok () \<longrightarrow> cp g' ns = (cp g ns)(t := (cp g ns t)(p := Inr (so_offset (rec_source rec))))) \<and>
    (r \<noteq> Ok () \<longrightarrow> cp g' = cp g) \<and>
    (has_maps (g_nodes g) (g_edges g) \<longrightarrow> r \<noteq> Panic \<and> has_maps (g_nodes g') (g_edges g'))"
  proof (cases "r0 = Panic")
    case True
    with run pr first show ?thesis by (auto simp: poll_record_def go_bind_def go_try_def)
  next
    case False
    with run pr src have commit: "Commit ops ns t p (so_offset (rec_source rec)) h = (r, g')"
      by (cases r0) (simp_all add: poll_record_def go_bind_def go_try_def NewProcessor_def Let_def)
    note second = commit_run [OF first(1) commit]
    have "cp g' ns = (cp h ns)(t := (cp h ns t)(p := Inr (so_offset (rec_source rec))))" if "r = Ok ()"
      using second(3) [OF that] by (auto simp: fun_eq_iff)
    with first second show ?thesis by (auto intro: checkpoint_cong)
  qed
  then show "g_inv g'"
    "r = Ok () \<Longrightarrow> cp g' ns = (cp g ns)(t := (cp g ns t)(p := Inr (so_offset (rec_source rec))))"
    "r \<noteq> Ok () \<Longrightarrow> cp g' = cp g"
    "has_maps (g_nodes g) (g_edges g) \<Longrightarrow> r \<noteq> Panic \<and> has_maps (g_nodes g') (g_edges g')"
    by blast+
qed

text \<open>The records of one partition move only its checkpoint, to the last of them.\<close>

lemma records_run:
  assumes "g_inv g" and "go_for rs (poll_record (NewProcessor L ops rd ns b)) g = (r, g')"
    and "\<forall>x \<in> set rs. so_topic (rec_source x) = t \<and> so_partition (rec_source x) = p"
  shows "g_inv g' \<and> (\<forall>t' p'. (t', p') \<noteq> (t, p) \<longrightarrow> cp g' ns t' p' = cp g ns t' p') \<and>
    (r = Ok () \<longrightarrow> cp g' ns t p = (if rs = [] then cp g ns t p else Inr (so_offset (rec_source (last rs))))) \<and>
    (has_maps (g_nodes g) (g_edges g) \<longrightarrow> r \<noteq> Panic \<and> has_maps (g_nodes g') (g_edges g'))"
  using assms
proof (induction rs arbitrary: g)
  case (Cons x rs)
  obtain q h where x: "poll_record (NewProcessor L ops rd ns b) x g = (q, h)" by fastforce
  have src: "so_topic (rec_source x) = t" "so_partition (rec_source x) = p" using Cons.prems(3) by simp_all
  note first = poll_record_run [OF Cons.prems(1) x src]
  show ?case
  proof (cases "q = Ok ()")
    case True
    with Cons.prems(2) x have rest: "go_for rs (poll_record (NewProcessor L ops rd ns b)) h = (r, g')"
      by (simp add: go_bind_def)
    from Cons.IH [OF first(1) rest] Cons.prems(3) first(2) [OF True] first(4) show ?thesis by auto
  next
    case False
    with Cons.prems(2) x have "r = q \<and> g' = h" by (cases q) (auto simp: go_bind_def)
    with first False show ?thesis by auto
  qed
qed (auto simp: go_ret_def)


text \<open>Nothing the processor does panics while every stored document has a property map.\<close>

abbreviation "tame g \<equiv> g_inv g \<and> has_maps (g_nodes g) (g_edges g)"

lemma poll_record_safe:
  assumes "tame g" and "poll_record (NewProcessor L ops rd ns b) rec g = (r, g')"
  shows "r \<noteq> Panic \<and> tame g'"
  using poll_record_run(1,4) [OF _ assms(2) refl refl] assms(1) by blast

lemma go_for_safe:
  assumes "\<And>x h r h'. P h \<Longrightarrow> body x h = (r, h') \<Longrightarrow> r \<noteq> Panic \<and> P h'"
  shows "P g \<Longrightarrow> go_for xs body g = (r, g') \<Longrightarrow> r \<noteq> Panic \<and> P g'"
proof (induction xs arbitrary: g)
  case (Cons x xs)
  obtain q h where x: "body x g = (q, h)" by fastforce
  note first = assms [OF Cons.prems(1) x]
  with Cons x show ?case by (cases q) (auto simp: go_bind_def)
qed (auto simp: go_ret_def)

lemma poll_partitions_safe:
  "tame g \<Longrightarrow> poll_partitions (NewProcessor L ops rd ns b) m ctx k tps g = (r, g') \<Longrightarrow> r \<noteq> Panic \<and> tame g'"
proof (induction tps arbitrary: g k)
  case (Cons tp tps)
  let ?P = "NewProcessor L ops rd ns b"
  have inv: "g_inv g" using Cons.prems(1) by simp
  have load: "go_try (Load (pr_storage ?P) (pr_namespace ?P) (tp_topic tp) (tp_partition tp)) g =
      (Ok (cp g ns (tp_topic tp) (tp_partition tp)), g)"
    by (simp add: NewProcessor_def go_try_def load_run [OF inv] split: sum.splits)
  show ?case
  proof (cases "ctx k")
    case None
    show ?thesis
    proof (cases "cp g ns (tp_topic tp) (tp_partition tp)")
      case (Inl e)
      with Cons load None show ?thesis by (simp add: go_bind_def)
    next
      case (Inr a)
      show ?thesis
      proof (cases "rd_read (pr_reader ?P) m (tp_topic tp) (tp_partition tp) a (pr_batch ?P)")
        case (Inl e)
        with Cons load None Inr show ?thesis by (simp add: go_bind_def)
      next
        case rs: (Inr rs)
        obtain q h where body: "go_for rs (poll_record ?P) g = (q, h)" by fastforce
        have "q \<noteq> Panic \<and> tame h"
          by (rule go_for_safe [where P = "\<lambda>g. tame g", OF poll_record_safe Cons.prems(1) body])
        with Cons load None Inr rs body show ?thesis by (cases q) (auto simp: go_bind_def)
      qed
    qed
  qed (use Cons.prems in \<open>auto simp: go_raise_def\<close>)
qed (auto simp: go_ret_def)

lemma run_safe:
  "tame g \<Longrightarrow> Run (NewProcessor L ops rd ns b) evs g = (r, g') \<Longrightarrow> r \<noteq> Panic \<and> tame g'"
proof (induction "NewProcessor L ops rd ns b" evs arbitrary: g rule: Run.induct)
  case (3 ctx m evs)
  let ?P = "NewProcessor L ops rd ns b"
  obtain q h where poll: "poll ?P ctx m g = (q, h)" by fastforce
  have "q \<noteq> Panic \<and> tame h"
  proof (cases "rd_list (pr_reader ?P) m")
    case (Inr tps)
    with poll have "poll_partitions ?P m ctx 0 tps g = (q, h)" by (simp add: poll_def)
    with 3(2) show ?thesis by (rule poll_partitions_safe)
  qed (use poll 3(2) in \<open>auto simp: poll_def go_raise_def\<close>)
  with 3 poll show ?case by (cases q) (auto simp: go_bind_def go_try_def)
qed (auto simp: go_ret_def)

end

section \<open>The contract of a reader\<close>

text \<open>
  A reader gives each partition a log in the order of its offsets, which are not negative. A
  read answers the first records after an offset, at least one where there is one; the list
  of partitions names those with a record, each once.
\<close>

locale segment_log =
  fixes reader :: "'m segment_reader"
    and log_ok :: "'m \<Rightarrow> bool"
    and log :: "'m \<Rightarrow> string \<Rightarrow> 32 word \<Rightarrow> log_record list"
  assumes log_order: "log_ok m \<Longrightarrow> sorted_wrt (\<lambda>r s. rec_offset r < rec_offset s) (log m t p)"
    and log_source: "log_ok m \<Longrightarrow> r \<in> set (log m t p) \<Longrightarrow>
      so_topic (rec_source r) = t \<and> so_partition (rec_source r) = p \<and> 0 \<le> rec_offset r"
    and reads: "log_ok m \<Longrightarrow> rd_read reader m t p after n =
      Inr (take (nat (max 1 n)) (filter (\<lambda>r. sint after < rec_offset r) (log m t p)))"
    and lists: "log_ok m \<Longrightarrow> \<exists>tps. rd_list reader m = Inr tps \<and> distinct tps \<and>
      set tps = {tp. log m (tp_topic tp) (tp_partition tp) \<noteq> []}"

locale ingest = graph_storage ops inv nodes edges + segment_log reader log_ok log
  for ops :: "'s storage_ops" and inv nodes edges
    and reader :: "'m segment_reader" and log_ok log

text \<open>
  What a processor has not seen of a partition: the records after its checkpoint. A
  partition whose checkpoint cannot be read is passed over.
\<close>

definition unread :: "(gerr + 64 word) \<Rightarrow> log_record list \<Rightarrow> log_record list" where
  "unread c rs = (case c of Inl _ \<Rightarrow> [] | Inr a \<Rightarrow> filter (\<lambda>r. sint a < rec_offset r) rs)"

context ingest
begin

abbreviation proc :: "ingest_lib \<Rightarrow> string \<Rightarrow> int \<Rightarrow> ('s, 'm) processor" where
  "proc L ns b \<equiv> NewProcessor L ops reader ns b"

text \<open>
  A poll is one pass over the unread batches of all partitions, as the checkpoints stand at
  its start; it stops at the first record whose checkpoint cannot be stored.
\<close>

definition left :: "string \<Rightarrow> 'm \<Rightarrow> 's graph \<Rightarrow> topic_partition \<Rightarrow> log_record list" where
  "left ns m g tp = unread (cp g ns (tp_topic tp) (tp_partition tp)) (log m (tp_topic tp) (tp_partition tp))"

abbreviation "size_of b \<equiv> nat (max 1 b)"

definition batches :: "string \<Rightarrow> int \<Rightarrow> 'm \<Rightarrow> 's graph \<Rightarrow> topic_partition list \<Rightarrow> log_record list" where
  "batches ns b m g tps = concat (map (\<lambda>tp. take (size_of b) (left ns m g tp)) tps)"

lemma left_source:
  assumes "log_ok m" and "x \<in> set (take n (left ns m g tp))"
  shows "so_topic (rec_source x) = tp_topic tp \<and> so_partition (rec_source x) = tp_partition tp"
  using assms log_source by (auto simp: left_def unread_def split: sum.splits dest!: in_set_takeD)

text \<open>One batch moves its own partition on and leaves the others where they are.\<close>

lemma batch_run:
  assumes ok: "log_ok m" and inv: "g_inv g"
    and run: "go_for (take (size_of b) (left ns m g tp)) (poll_record (proc L ns b)) g = (r, g')"
  shows "g_inv g'" and "\<And>tq. tq \<noteq> tp \<Longrightarrow> left ns m g' tq = left ns m g tq"
    and "r = Ok () \<Longrightarrow> left ns m g' tp = drop (size_of b) (left ns m g tp)"
    and "has_maps (g_nodes g) (g_edges g) \<Longrightarrow> r \<noteq> Panic \<and> has_maps (g_nodes g') (g_edges g')"
proof -
  let ?t = "tp_topic tp" and ?p = "tp_partition tp" and ?rs = "take (size_of b) (left ns m g tp)"
  have "\<forall>x \<in> set ?rs. so_topic (rec_source x) = ?t \<and> so_partition (rec_source x) = ?p"
    using left_source [OF ok] by blast
  note run = records_run [OF inv run this]
  show "g_inv g'" "has_maps (g_nodes g) (g_edges g) \<Longrightarrow> r \<noteq> Panic \<and> has_maps (g_nodes g') (g_edges g')"
    using run by blast+
  show "left ns m g' tq = left ns m g tq" if "tq \<noteq> tp" for tq
  proof -
    have "(tp_topic tq, tp_partition tq) \<noteq> (?t, ?p)" using that by (cases tq; cases tp) auto
    with run show ?thesis by (simp add: left_def)
  qed
  show "left ns m g' tp = drop (size_of b) (left ns m g tp)" if "r = Ok ()"
  proof (cases "?rs = []")
    case True
    with run that show ?thesis by (auto simp: left_def)
  next
    case False
    then obtain a where a: "cp g ns ?t ?p = Inr a" by (auto simp: left_def unread_def split: sum.splits)
    then have "left ns m g tp = filter (\<lambda>x. sint a < rec_offset x) (log m ?t ?p)"
      by (simp add: left_def unread_def)
    from filter_after_last [OF log_order [OF ok] this False] run that False show ?thesis
      by (simp add: left_def unread_def)
  qed
qed

lemma batches_Cons: "batches ns b m g (tp # tps) = take (size_of b) (left ns m g tp) @ batches ns b m g tps"
  by (simp add: batches_def)

lemma batches_cong: "(\<And>tp. tp \<in> set tps \<Longrightarrow> left ns m h tp = left ns m g tp) \<Longrightarrow>
    batches ns b m h tps = batches ns b m g tps"
  by (simp add: batches_def cong: map_cong)

lemma poll_partitions_run:
  assumes ok: "log_ok m"
  shows "g_inv g \<Longrightarrow> distinct tps \<Longrightarrow> poll_partitions (proc L ns b) m (\<lambda>_. None) k tps g =
    go_for (batches ns b m g tps) (poll_record (proc L ns b)) g"
proof (induction tps arbitrary: g k)
  case (Cons tp tps)
  let ?P = "proc L ns b" and ?t = "tp_topic tp" and ?p = "tp_partition tp"
  have load: "go_try (Load (pr_storage ?P) (pr_namespace ?P) ?t ?p) g = (Ok (cp g ns ?t ?p), g)"
    by (simp add: NewProcessor_def go_try_def load_run [OF Cons.prems(1)] split: sum.splits)
  show ?case
  proof (cases "cp g ns ?t ?p")
    case (Inl e)
    with Cons load show ?thesis by (simp add: go_bind_def batches_def left_def unread_def)
  next
    case (Inr a)
    let ?rs = "take (size_of b) (left ns m g tp)"
    have read: "rd_read (pr_reader ?P) m ?t ?p a (pr_batch ?P) = Inr ?rs"
      using reads [OF ok] Inr by (simp add: NewProcessor_def left_def unread_def)
    obtain r h where body: "go_for ?rs (poll_record ?P) g = (r, h)" by fastforce
    note batch = batch_run [OF ok Cons.prems(1) body]
    have "batches ns b m h tps = batches ns b m g tps"
      by (rule batches_cong, rule batch(2)) (use Cons.prems(2) in auto)
    with Cons.IH [OF batch(1)] Cons.prems(2) have rest: "poll_partitions ?P m (\<lambda>_. None) (Suc k) tps h =
        go_for (batches ns b m g tps) (poll_record ?P) h" by simp
    with load read body Inr show ?thesis
      by (cases r) (simp_all add: go_bind_def go_for_append batches_Cons)
  qed
qed (simp add: batches_def)

lemma batches_run:
  assumes ok: "log_ok m"
  shows "g_inv g \<Longrightarrow> distinct tps \<Longrightarrow> go_for (batches ns b m g tps) (poll_record (proc L ns b)) g = (r, g') \<Longrightarrow>
    g_inv g' \<and> (has_maps (g_nodes g) (g_edges g) \<longrightarrow> r \<noteq> Panic \<and> has_maps (g_nodes g') (g_edges g')) \<and>
    (\<forall>tp. tp \<notin> set tps \<longrightarrow> left ns m g' tp = left ns m g tp) \<and>
    (r = Ok () \<longrightarrow> (\<forall>tp \<in> set tps. left ns m g' tp = drop (size_of b) (left ns m g tp)))"
proof (induction tps arbitrary: g)
  case (Cons tp tps)
  let ?P = "proc L ns b" and ?rs = "take (size_of b) (left ns m g tp)"
  obtain q h where body: "go_for ?rs (poll_record ?P) g = (q, h)" by fastforce
  note batch = batch_run [OF ok Cons.prems(1) body]
  show ?case
  proof (cases "q = Ok ()")
    case True
    have "batches ns b m h tps = batches ns b m g tps"
      by (rule batches_cong, rule batch(2)) (use Cons.prems(2) in auto)
    with Cons.prems(3) body True have "go_for (batches ns b m h tps) (poll_record ?P) h = (r, g')"
      by (simp add: batches_Cons go_for_append go_bind_def)
    note rest = Cons.IH [OF batch(1) _ this]
    have "left ns m h tq = left ns m g tq" if "tq \<in> set tps" for tq
      using that Cons.prems(2) by (intro batch(2)) auto
    with rest Cons.prems(2) batch(2-4) True show ?thesis by auto
  next
    case False
    with Cons.prems(3) body have "r = q \<and> g' = h"
      by (cases q) (auto simp: batches_Cons go_for_append go_bind_def)
    with batch False show ?thesis by auto
  qed
qed (auto simp: batches_def go_ret_def)

text \<open>A partition that is not listed has no record, so a poll moves every partition by one batch.\<close>

lemma poll_run:
  assumes ok: "log_ok m" and inv: "g_inv g" and run: "poll (proc L ns b) (\<lambda>_. None) m g = (r, g')"
  shows "\<exists>tps. rd_list reader m = Inr tps \<and>
      poll (proc L ns b) (\<lambda>_. None) m g = go_for (batches ns b m g tps) (poll_record (proc L ns b)) g"
    and "g_inv g'"
    and "has_maps (g_nodes g) (g_edges g) \<Longrightarrow> r \<noteq> Panic \<and> has_maps (g_nodes g') (g_edges g')"
    and "r = Ok () \<Longrightarrow> left ns m g' tp = drop (size_of b) (left ns m g tp)"
proof -
  obtain tps where tps: "rd_list reader m = Inr tps" "distinct tps"
    "set tps = {tp. log m (tp_topic tp) (tp_partition tp) \<noteq> []}" using lists [OF ok] by blast
  have poll: "poll (proc L ns b) (\<lambda>_. None) m g = go_for (batches ns b m g tps) (poll_record (proc L ns b)) g"
    using tps(1) poll_partitions_run [OF ok inv tps(2)] by (simp add: poll_def NewProcessor_def)
  with tps(1) show "\<exists>tps. rd_list reader m = Inr tps \<and>
      poll (proc L ns b) (\<lambda>_. None) m g = go_for (batches ns b m g tps) (poll_record (proc L ns b)) g"
    by blast
  from run poll have "go_for (batches ns b m g tps) (poll_record (proc L ns b)) g = (r, g')" by simp
  note all = batches_run [OF ok inv tps(2) this]
  show "g_inv g'" "has_maps (g_nodes g) (g_edges g) \<Longrightarrow> r \<noteq> Panic \<and> has_maps (g_nodes g') (g_edges g')"
    using all by blast+
  show "left ns m g' tp = drop (size_of b) (left ns m g tp)" if "r = Ok ()"
  proof (cases "tp \<in> set tps")
    case False
    with tps(3) have "left ns m h tp = []" for h by (simp add: left_def unread_def split: sum.splits)
    then show ?thesis by simp
  qed (use all that in blast)
qed

end

end
