(* ===== verification/Memory_Log.thy ===== *)
theory Memory_Log
  imports Ingest_Processor
begin

text \<open>
  The in-memory reader: the keys of its map determine the partition, and with distinct
  offsets its reads are the first records after an offset in the order of the offsets.
\<close>

section \<open>Keys\<close>

lemma rev_digits_show: "0 < n \<Longrightarrow> rev (rev_digits n) = show_nat n"
proof (induction n rule: rev_digits.induct)
  case (1 n)
  show ?case
  proof (cases "n < 10")
    case True
    with 1(2) show ?thesis
      by (simp add: rev_digits.simps [of n] rev_digits.simps [of 0] show_nat.simps [of n])
  next
    case False
    with 1 have "rev (rev_digits (n div 10)) = show_nat (n div 10)" by simp
    with False show ?thesis by (simp add: rev_digits.simps [of n] show_nat.simps [of n])
  qed
qed

text \<open>Printing is exact except for the least int32, of which only the sign is printed.\<close>

lemma sint_neg: "sint n \<noteq> - (2 ^ 31) \<Longrightarrow> sint (- n) = - sint (n :: 32 word)"
  using sint_ge [of n] sint_lt [of n]
  by (simp add: sint_word_ariths signed_take_bit_int_eq_self)

lemma itoa_int: "itoa n = (if sint n = - (2 ^ 31) then ''-'' else show_int (sint n))"
proof -
  consider "sint n = - (2 ^ 31)" | "n = 0" | "0 < sint n"
    | "sint n < 0" "sint n \<noteq> - (2 ^ 31)"
    by (metis linorder_neqE_linordered_idom signed_word_eqI sint_0)
  then show ?thesis
  proof cases
    case 1
    then have "n = of_int (- (2 ^ 31))" by (intro signed_word_eqI) simp
    then have "sint (- n) = - (2 ^ 31)" by simp
    with 1 show ?thesis by (auto simp: itoa_def rev_digits.simps [of 0])
  next
    case 2
    then show ?thesis by (simp add: itoa_def show_int_def show_nat.simps [of 0] digit_char_def char_of_def bit_Suc_0_iff)
  next
    case 3
    then show ?thesis by (auto simp: itoa_def show_int_def rev_digits_show)
  next
    case 4
    then show ?thesis by (auto simp: itoa_def show_int_def rev_digits_show sint_neg)
  qed
qed

lemma colon_free_itoa [simp]: "colon_free (itoa n)"
  by (simp add: itoa_int show_int_def)

lemma itoa_inject [simp]: "itoa m = itoa n \<longleftrightarrow> m = n"
proof
  assume "itoa m = itoa n"
  moreover have "show_int i \<noteq> ''-''" for i
    by (auto simp: show_int_def sign_show_nat [of "[]", symmetric])
  ultimately have "sint m = sint n" by (auto simp: itoa_int show_int_inject split: if_splits)
  then show "m = n" by (rule signed_word_eqI)
qed simp

lemma tpKey_inject [simp]: "tpKey t p = tpKey t' p' \<longleftrightarrow> t = t' \<and> p = p'"
  using colon_key_eq [of "itoa p" "itoa p'" t t'] by (simp add: tpKey_def)

section \<open>Reading\<close>

lemma read_loop_take:
  "read_loop a n acc rs = acc @ take (nat (max 1 (n - int (length acc)))) (filter (\<lambda>r. a < rec_offset r) rs)"
proof (induction rs arbitrary: acc)
  case (Cons r rs)
  show ?case
  proof (cases "a < rec_offset r \<and> int (length acc) + 1 < n")
    case True
    then have "nat (max 1 (n - int (length acc))) = Suc (nat (max 1 (n - int (length (acc @ [r])))))"
      by (simp add: Suc_nat_eq_nat_zadd1)
    with Cons True show ?thesis by simp
  next
    case False
    then show ?thesis using Cons by auto
  qed
qed simp

text \<open>Records lie under the key of their partition, at distinct offsets from zero on.\<close>

definition source_key :: "log_record \<Rightarrow> string" where
  "source_key r = tpKey (so_topic (rec_source r)) (so_partition (rec_source r))"

definition records_ok :: "log_record list \<Rightarrow> string \<Rightarrow> bool" where
  "records_ok rs k \<longleftrightarrow> distinct (map rec_offset rs) \<and> (\<forall>r \<in> set rs. source_key r = k \<and> 0 \<le> rec_offset r)"

definition reader_ok :: "memory_reader \<Rightarrow> bool" where
  "reader_ok m \<longleftrightarrow> distinct (map fst m) \<and> (\<forall>k. records_ok (records_at m k) k)"

definition mem_log :: "memory_reader \<Rightarrow> string \<Rightarrow> 32 word \<Rightarrow> log_record list" where
  "mem_log m t p = sort_by (\<lambda>r s. rec_offset r < rec_offset s) (records_at m (tpKey t p))"

lemma reader_empty [simp]: "reader_ok []"
  by (simp add: reader_ok_def records_ok_def records_at_def)

lemma reader_AddRecord:
  assumes "reader_ok m" and "0 \<le> sint off"
    and "\<forall>r \<in> set (mem_log m t p). rec_offset r \<noteq> sint off"
  shows "reader_ok (AddRecord t p off val m)"
proof -
  let ?m = "AddRecord t p off val m"
  have at: "records_at ?m k = (if k = tpKey t p then records_at m k @
      [\<lparr>rec_source = \<lparr>so_topic = t, so_partition = p, so_offset = off\<rparr>, rec_value = val\<rparr>]
      else records_at m k)" for k
    by (simp add: AddRecord_def records_at_def Let_def)
  have "records_ok (records_at ?m k) k" for k
  proof -
    have "records_ok (records_at m k) k" using assms(1) by (simp add: reader_ok_def)
    with assms(2,3) show ?thesis
      by (auto simp: at records_ok_def source_key_def mem_log_def)
  qed
  then show ?thesis using assms(1) by (simp add: reader_ok_def AddRecord_def Let_def)
qed

lemma set_list_loop: "set (list_loop seen rs) =
    {tp. tpKey (tp_topic tp) (tp_partition tp) \<in> source_key ` set rs - set seen}"
proof (induction seen rs rule: list_loop.induct)
  case (2 seen r rs)
  have tp: "tpKey (tp_topic tp) (tp_partition tp) = source_key r \<longleftrightarrow>
      tp = \<lparr>tp_topic = so_topic (rec_source r), tp_partition = so_partition (rec_source r)\<rparr>" for tp
    by (cases tp) (auto simp: source_key_def)
  show ?case
  proof (cases "source_key r \<in> set seen")
    case True
    with 2 show ?thesis by (auto simp: source_key_def Let_def)
  next
    case False
    let ?S = "{tp. tpKey (tp_topic tp) (tp_partition tp) \<in> source_key ` set rs - set (source_key r # seen)}"
    from False 2(2) [OF refl refl] have "set (list_loop (source_key r # seen) rs) = ?S"
      by (simp add: source_key_def)
    with False have "set (list_loop seen (r # rs)) =
        insert \<lparr>tp_topic = so_topic (rec_source r), tp_partition = so_partition (rec_source r)\<rparr> ?S"
      by (simp add: source_key_def Let_def del: tpKey_inject)
    also have "\<dots> = {tp. tpKey (tp_topic tp) (tp_partition tp) = source_key r} \<union> ?S"
      unfolding tp by blast
    also have "\<dots> = {tp. tpKey (tp_topic tp) (tp_partition tp) \<in> source_key ` set (r # rs) - set seen}"
      using False by auto
    finally show ?thesis .
  qed
qed simp

lemma distinct_list_loop: "distinct (list_loop seen rs)"
  by (induction seen rs rule: list_loop.induct) (auto simp: set_list_loop Let_def)

lemma listed: 
  assumes "reader_ok m"
  shows "set (list_loop [] (concat (map snd m))) = {tp. mem_log m (tp_topic tp) (tp_partition tp) \<noteq> []}"
proof -
  have "k \<in> source_key ` set (concat (map snd m)) \<longleftrightarrow> records_at m k \<noteq> []" for k
  proof
    assume "k \<in> source_key ` set (concat (map snd m))"
    then obtain j rs r where r: "(j, rs) \<in> set m" "r \<in> set rs" "source_key r = k" by auto
    then have "records_at m j = rs" using assms by (simp add: reader_ok_def records_at_def)
    with r assms show "records_at m k \<noteq> []" by (auto simp: reader_ok_def records_ok_def)
  next
    assume "records_at m k \<noteq> []"
    then obtain rs where rs: "map_of m k = Some rs" "rs \<noteq> []"
      by (auto simp: records_at_def split: option.splits)
    then have "(k, rs) \<in> set m" "hd rs \<in> set rs" by (simp_all add: map_of_SomeD)
    moreover have "source_key (hd rs) = k"
      using assms rs by (auto simp: reader_ok_def records_ok_def records_at_def dest: spec [where x = k])
    ultimately show "k \<in> source_key ` set (concat (map snd m))" by force
  qed
  moreover have "mem_log m t p \<noteq> [] \<longleftrightarrow> records_at m (tpKey t p) \<noteq> []" for t p
    by (metis length_0_conv length_sort_by mem_log_def)
  ultimately show ?thesis by (simp add: set_list_loop)
qed

end
