(* ===== verification/Ingest_Progress.thy ===== *)
theory Ingest_Progress
  imports Ingest_Log Memory_Log Mem_Store
begin

text \<open>
  Progress of the processor: on storage that stores what can be encoded, repeated polls drain
  every log. The in-memory reader meets the contract of a reader, and the Badger backend that
  of the storage.
\<close>

section \<open>The clock\<close>

text \<open>The clock shows times that JSON can encode; no operation sets it.\<close>

definition clock_ok :: "'s graph \<Rightarrow> bool" where
  "clock_ok g \<longleftrightarrow> (\<forall>t. json_time_ok (g_clock g t))"

lemma clock_steps [keeps]: "go_keeps clock_ok (on_store m)" "go_keeps clock_ok time_now"
  "go_keeps clock_ok go_panic"
  by (auto intro!: go_keepsI simp: on_store_def time_now_def go_panic_def clock_ok_def split: prod.splits)

lemma clock_upserts [keeps]:
  "go_keeps clock_ok (UpsertNode ops i label ps)" "go_keeps clock_ok (UpsertEdge ops i label from to ps)"
  by (auto simp: UpsertNode_def UpsertEdge_def Let_def split: sum.splits option.splits intro!: keeps)

lemma clock_wrap_in [keeps]: "go_keeps clock_ok m \<Longrightarrow> go_keeps clock_ok (wrap_in c m)"
  by (cases c) (auto simp: wrap_in_def intro!: keeps)

lemma clock_run_upsert [keeps]: "go_keeps clock_ok (run_upsert ops u)"
  by (cases u) (auto intro!: keeps)

lemma clock_run_upserts [keeps]: "go_keeps clock_ok (run_upserts ops us)"
  by (auto simp: run_upserts_def intro!: keeps)

lemma clock_scripted: "scripted m \<Longrightarrow> go_keeps clock_ok (m ops)"
  by (auto simp: scripted_def run_script_def split: option.splits intro!: keeps)

lemma clock_Route: "go_keeps clock_ok (Route (NewRouter L ops) env src)"
proof (cases "env_type env = ''human_feedback''")
  case True
  then have "Route (NewRouter L ops) env src = HandleHumanFeedback L ops env src"
    by (simp add: Route_def NewRouter_def)
  moreover have "go_keeps clock_ok (HandleHumanFeedback L ops env src)"
    by (auto simp: HandleHumanFeedback_def with_payload_def applyScoreOverrides_def Neighbors_def Let_def
        split: sum.splits intro!: keeps)
  ultimately show ?thesis by simp
next
  case False
  from clock_scripted [OF Route_scripted [OF False]] show ?thesis .
qed

lemma clock_poll_record: "go_keeps clock_ok (poll_record (NewProcessor L ops reader ns b) r)"
  by (auto simp: poll_record_def ProcessRecord_def NewProcessor_def Commit_def Let_def
      split: sum.splits intro!: keeps clock_Route)

section \<open>Storage that does not fail\<close>

locale reliable_storage = graph_storage +
  assumes put_node_total: "inv s \<Longrightarrow> node_ok n \<Longrightarrow> node_json n \<noteq> None \<Longrightarrow> fst (st_put_node ops n s) = Ok ()"
    and put_edge_total: "inv s \<Longrightarrow> edge_ok e \<Longrightarrow> edge_json e \<noteq> None \<Longrightarrow> fst (st_put_edge ops e s) = Ok ()"

lemma merge_encodable:
  assumes "props_json old = Some old" and "old \<noteq> None" and "json_norm_fields (prop_list ps) \<noteq> None"
  obtains p where "merge_props old ps = Some p" "props_json p \<noteq> None"
proof -
  obtain m P where m: "old = Some m" "json_norm_fields m = Some m" "json_norm_fields (prop_list ps) = Some P"
    using assms by (auto simp: props_json_def)
  then have "json_norm_fields (copy_into (prop_list ps) m) = Some (copy_into P m)"
    by (simp add: json_norm_copy_into)
  with m show thesis by (intro that) (auto simp: merge_props_def props_json_def)
qed

text \<open>An upsert whose values can be encoded succeeds, and so does a sequence of them.\<close>

fun encodable :: "upsert \<Rightarrow> bool" where
  "encodable (NodeUp c i label ps) \<longleftrightarrow> json_norm_fields ps \<noteq> None"
| "encodable (EdgeUp c label from to ps) \<longleftrightarrow> json_norm_fields (prop_list ps) \<noteq> None"

context reliable_storage
begin

abbreviation "fit g \<equiv> g_inv g \<and> clock_ok g \<and> has_maps (g_nodes g) (g_edges g)"

lemma upsert_node_succeeds:
  assumes fit: "fit g" and lbl: "colon_free label" and ps: "props_ok (Some ps)"
    and json: "json_norm_fields ps \<noteq> None"
  shows "\<exists>n. fst (UpsertNode ops i label (Some ps) g) = Ok n"
proof -
  have inv: "g_inv g" using fit by simp
  obtain n where n: "upsert_node_doc g i label (Some ps) (g_nodes g i) = Some n" "node_json n \<noteq> None"
  proof (cases "g_nodes g i")
    case None
    with json fit show thesis
      by (intro that) (auto simp: upsert_node_doc_def node_json_def props_json_def clock_ok_def)
  next
    case (Some o')
    have json_old: "node_json o' = Some o'" using keyed_node [OF inv Some] by (simp add: stored_node_def)
    have "n_props o' \<noteq> None" using has_mapsD(1) [of "g_nodes g"] Some fit by blast
    then obtain p where p: "merge_props (n_props o') (Some ps) = Some p" "props_json p \<noteq> None"
      by (rule merge_encodable [OF node_json_fields(4) [OF json_old], where ps = "Some ps"]) (use json in auto)
    have "json_time_ok (n_created o')" using json_old by (simp add: node_json_def split: if_splits)
    with Some p show thesis
      by (intro that [of "o'\<lparr>n_props := p\<rparr>"]) (auto simp: upsert_node_doc_def node_json_def)
  qed
  have "case g_nodes g i of None \<Rightarrow> colon_free label \<and> props_ok (Some ps)
      | Some o' \<Rightarrow> n_id o' = i \<and> node_ok o'"
    using lbl ps keyed_node [OF inv, of i] by (auto simp: stored_node_def split: option.splits)
  from put_node_total [OF inv upsert_node_doc_ok(1) [OF n(1) this] n(2)] n(1) show ?thesis
    by (cases "st_put_node ops n (g_store g)") (auto simp: UpsertNode_run [OF inv] Let_def)
qed

lemma upsert_edge_succeeds:
  assumes fit: "fit g" and k: "colons i = 2" and ps: "props_ok ps"
    and json: "json_norm_fields (prop_list ps) \<noteq> None"
  shows "\<exists>e. fst (UpsertEdge ops i label from to ps g) = Ok e"
proof -
  have inv: "g_inv g" using fit by simp
  obtain e where e: "upsert_edge_doc g i label from to ps (g_edges g i) = Some e" "edge_json e \<noteq> None"
  proof (cases "g_edges g i")
    case None
    with json fit show thesis
      by (intro that) (auto simp: upsert_edge_doc_def edge_json_def props_json_def clock_ok_def)
  next
    case (Some o')
    have json_old: "edge_json o' = Some o'" using keyed_edge [OF inv Some] by (simp add: stored_edge_def)
    have "e_props o' \<noteq> None" using has_mapsD(2) [of _ "g_edges g"] Some fit by blast
    then obtain p where p: "merge_props (e_props o') ps = Some p" "props_json p \<noteq> None"
      by (rule merge_encodable [OF edge_json_fields(6) [OF json_old] _ json])
    have "json_time_ok (e_created o')" using json_old by (simp add: edge_json_def split: if_splits)
    with Some p show thesis
      by (intro that [of "o'\<lparr>e_props := p\<rparr>"]) (auto simp: upsert_edge_doc_def edge_json_def)
  qed
  have "case g_edges g i of None \<Rightarrow> colons i = 2 \<and> props_ok ps | Some o' \<Rightarrow> e_id o' = i \<and> edge_ok o'"
    using k ps keyed_edge [OF inv, of i] by (auto simp: stored_edge_def split: option.splits)
  from put_edge_total [OF inv upsert_edge_doc_ok(1) [OF e(1) this] e(2)] e(1) show ?thesis
    by (cases "st_put_edge ops e (g_store g)") (auto simp: UpsertEdge_run [OF inv] Let_def)
qed

lemma up_succeeds:
  assumes "fit g" and "up_ok u" and "encodable u" and run: "run_upsert ops u g = (r, g')"
  shows "r = Ok () \<and> fit g'"
proof -
  have "r = Ok ()"
  proof (cases u)
    case (NodeUp c i label ps)
    have "\<exists>n. fst (UpsertNode ops i label (Some ps) g) = Ok n"
      by (rule upsert_node_succeeds [OF assms(1)]) (use assms(2,3) NodeUp in \<open>simp_all add: props_ok_def\<close>)
    with run NodeUp show ?thesis by (auto elim!: wrap_in_result)
  next
    case (EdgeUp c label f t ps)
    have "\<exists>e. fst (UpsertEdge ops (DeterministicEdgeID label f t) label f t ps g) = Ok e"
      by (rule upsert_edge_succeeds [OF assms(1)]) (use assms(2,3) EdgeUp in \<open>simp_all add: edge_id_colons\<close>)
    with run EdgeUp show ?thesis by (auto elim!: wrap_in_result)
  qed
  moreover have "clock_ok g'" using go_keepsD [OF clock_run_upsert, of g ops u] assms(1) run by simp
  ultimately show ?thesis using up_inv up_maps assms by blast
qed

lemma ups_succeed:
  "fit g \<Longrightarrow> list_all up_ok us \<Longrightarrow> list_all encodable us \<Longrightarrow> run_upserts ops us g = (r, g') \<Longrightarrow>
    r = Ok () \<and> fit g'"
proof (induction us arbitrary: g)
  case (Cons u us)
  from Cons.prems(4) show ?case
  proof (cases rule: ups_Cons)
    case (ok h)
    from up_succeeds [OF Cons.prems(1) _ _ ok(1)] Cons.prems(2,3) have "fit h" by simp
    with Cons ok(2) show ?thesis by simp
  next
    case fail
    with up_succeeds [OF Cons.prems(1) _ _ fail(1)] Cons.prems(2,3) show ?thesis by simp
  qed
qed simp

lemma commit_succeeds:
  assumes "g_inv g" and "clock_ok g" and "has_maps (g_nodes g) (g_edges g)"
  shows "fst (Commit ops ns t p off g) = Ok ()"
proof -
  let ?ps = "[(''topic'', VStr t), (''partition'', VInt (scast p)),
    (''offset'', VStr (show_int (sint off))), (''namespace'', VStr ns)]"
  obtain n where "fst (UpsertNode ops (checkpoint_id ns t p) ''_checkpoint'' (Some ?ps) g) = Ok n"
    using upsert_node_succeeds [of g "''_checkpoint''" ?ps] assms by auto
  then show ?thesis by (auto simp: Commit_def go_bind_def go_ret_def split: prod.splits)
qed

end

section \<open>Draining the logs\<close>

locale reliable_ingest = ingest ops inv nodes edges reader log_ok log +
    reliable_storage ops inv nodes edges
  for ops :: "'s storage_ops" and inv nodes edges
    and reader :: "'m segment_reader" and log_ok log

context reliable_ingest
begin

lemma poll_record_total:
  assumes "fit g" and run: "poll_record (proc L ns b) rec g = (r, g')"
  shows "r = Ok () \<and> fit g'"
proof -
  have inv: "g_inv g" and clock: "clock_ok g" and maps: "has_maps (g_nodes g) (g_edges g)"
    using assms by simp_all
  obtain r0 h where pr: "ProcessRecord (proc L ns b) rec g = (r0, h)" by fastforce
  note first = process_run [OF inv pr]
  have "go_keeps clock_ok (ProcessRecord (proc L ns b) rec)"
    by (auto simp: ProcessRecord_def NewProcessor_def split: sum.splits intro!: keeps clock_Route)
  from go_keepsD [OF this clock] pr have "clock_ok h" by simp
  then have commit: "fst (Commit ops ns t p off h) = Ok ()" for t p off
    using commit_succeeds [OF first(1)] first(3) [OF maps] by blast
  have "r0 \<noteq> Panic" using first(3) [OF maps] by blast
  with run pr have "r = fst (Commit ops ns (so_topic (rec_source rec)) (so_partition (rec_source rec))
      (so_offset (rec_source rec)) h)"
    by (cases r0) (simp_all add: poll_record_def go_bind_def go_try_def NewProcessor_def Let_def)
  with commit have "r = Ok ()" by simp
  moreover have "clock_ok g'" using go_keepsD [OF clock_poll_record clock] run by (metis snd_conv)
  ultimately show ?thesis using poll_record_run(1,4) [OF inv run refl refl] maps by blast
qed

lemma go_for_total: "fit g \<Longrightarrow> go_for rs (poll_record (proc L ns b)) g = (r, g') \<Longrightarrow> r = Ok () \<and> fit g'"
proof (induction rs arbitrary: g)
  case (Cons x rs)
  obtain q h where x: "poll_record (proc L ns b) x g = (q, h)" by fastforce
  from poll_record_total [OF Cons.prems(1) x] have "q = Ok ()" "fit h" by simp_all
  with Cons x show ?case by (simp add: go_bind_def)
qed (auto simp: go_ret_def)

lemma poll_total:
  assumes ok: "log_ok m" and "fit g" and run: "poll (proc L ns b) (\<lambda>_. None) m g = (r, g')"
  shows "r = Ok () \<and> fit g'"
proof -
  from assms(2) have inv: "g_inv g" by simp
  obtain tps where "poll (proc L ns b) (\<lambda>_. None) m g = go_for (batches ns b m g tps) (poll_record (proc L ns b)) g"
    using poll_run(1) [OF ok inv run] by blast
  with run go_for_total [OF assms(2)] show ?thesis by metis
qed

lemma run_ticks:
  assumes ok: "log_ok m"
  shows "fit g \<Longrightarrow> Run (proc L ns b) (replicate k (Tick (\<lambda>_. None) m) @ evs) g = (r, g') \<Longrightarrow>
    \<exists>h. Run (proc L ns b) evs h = (r, g') \<and> fit h \<and>
      (\<forall>tp. left ns m h tp = drop (k * size_of b) (left ns m g tp))"
proof (induction k arbitrary: g)
  case (Suc k)
  obtain q h where poll: "poll (proc L ns b) (\<lambda>_. None) m g = (q, h)" by fastforce
  from poll_total [OF ok Suc.prems(1) this] have q: "q = Ok ()" "fit h" by simp_all
  have inv: "g_inv g" using Suc.prems(1) by simp
  have step: "left ns m h tp = drop (size_of b) (left ns m g tp)" for tp
    by (rule poll_run(4) [OF ok inv poll q(1)])
  from Suc.prems(2) poll q(1) have "Run (proc L ns b) (replicate k (Tick (\<lambda>_. None) m) @ evs) h = (r, g')"
    by (simp add: go_bind_def go_try_def)
  from Suc.IH [OF q(2) this] step show ?case by (auto simp: drop_drop add.commute)
qed auto

end

section \<open>The in-memory reader\<close>

interpretation mem_reader: segment_log MemoryReader reader_ok mem_log
proof unfold_locales
  fix m t p assume ok: "reader_ok m"
  let ?rs = "records_at m (tpKey t p)"
  have rs: "distinct (map rec_offset ?rs)" "\<forall>r \<in> set ?rs. source_key r = tpKey t p \<and> 0 \<le> rec_offset r"
    using ok by (simp_all add: reader_ok_def records_ok_def)
  have "sorted (map rec_offset (mem_log m t p))"
    using sorted_sort_by [OF strict_weak_key [of rec_offset], of ?rs]
    by (simp add: mem_log_def not_less sorted_map)
  moreover have "distinct (map rec_offset (mem_log m t p))"
    using rs(1) by (simp add: mem_log_def distinct_map_sort_by)
  ultimately have "sorted_wrt (<) (map rec_offset (mem_log m t p))" by (simp add: strict_sorted_iff)
  then show "sorted_wrt (\<lambda>r s. rec_offset r < rec_offset s) (mem_log m t p)" by (simp add: sorted_wrt_map)
  show "so_topic (rec_source r) = t \<and> so_partition (rec_source r) = p \<and> 0 \<le> rec_offset r"
    if "r \<in> set (mem_log m t p)" for r
    using that rs(2) by (auto simp: mem_log_def source_key_def)
  show "rd_read MemoryReader m t p after n =
      Inr (take (nat (max 1 n)) (filter (\<lambda>r. sint after < rec_offset r) (mem_log m t p)))" for after n
    by (simp add: MemoryReader_def ReadRecords_def read_loop_take mem_log_def)
  show "\<exists>tps. rd_list MemoryReader m = Inr tps \<and> distinct tps \<and>
      set tps = {tp. mem_log m (tp_topic tp) (tp_partition tp) \<noteq> []}"
    using listed [OF ok] distinct_list_loop by (simp add: MemoryReader_def ListTopicPartitions_def)
qed

interpretation badger_ingest: ingest "badger_storage kv" "badger_inv kv" "badger_nodes kv" "badger_edges kv"
    MemoryReader reader_ok mem_log for kv :: "'s kvops"
  by unfold_locales

section \<open>A backend that does not fail\<close>

text \<open>No write and no commit of the key-value store is refused.\<close>

definition kv_total :: "'s kvops \<Rightarrow> bool" where
  "kv_total kv \<longleftrightarrow> (\<forall>k e s. \<exists>t. kv_set kv k e s = Inr t) \<and> (\<forall>k s. \<exists>t. kv_delete kv k s = Inr t) \<and>
     (\<forall>s. \<exists>t. kv_commit kv s = Inr t)"

lemma mem_kv_total [simp]: "kv_total mem_kv"
  by (simp add: kv_total_def mem_kv_def)

lemma bind_succeeds:
  "\<exists>t. m s = (Ok x, t) \<Longrightarrow> (\<And>s. \<exists>t. f x s = (Ok y, t)) \<Longrightarrow> \<exists>t. go_bind m f s = (Ok y, t)"
  by (auto simp: go_simps)

text \<open>
  A write of either kind drops the index entries of the old document, stores the new one and
  indexes it.
\<close>

lemma write_succeeds:
  assumes kv: "kv_total kv" and get: "\<And>s. \<exists>r. get s = (r, s) \<and> r \<noteq> Panic"
    and drop: "\<And>x s. \<exists>t. drop_old x s = (Ok (), t)" and index: "\<And>s. \<exists>t. index s = (Ok (), t)"
    and store: "\<And>s. \<exists>t. store s = (Ok (), t)"
  shows "fst (db_update kv (go_bind (go_bind (go_try get) (\<lambda>old. case old of
      Inr o' \<Rightarrow> drop_old o' | Inl _ \<Rightarrow> go_ret ())) (\<lambda>_. go_bind store (\<lambda>_. index))) s) = Ok ()"
proof -
  let ?drop = "go_bind (go_try get) (\<lambda>old. case old of Inr o' \<Rightarrow> drop_old o' | Inl _ \<Rightarrow> go_ret ())"
  obtain old where "get s = (old, s)" "old \<noteq> Panic" using get by blast
  then have "\<exists>t. ?drop s = (Ok (), t)"
    using drop by (cases old) (auto simp: go_bind_def go_try_def go_ret_def)
  then have "\<exists>t. go_bind ?drop (\<lambda>_. go_bind store (\<lambda>_. index)) s = (Ok (), t)"
    by (intro bind_succeeds [where x = "()"] store index)
  then obtain t where "go_bind ?drop (\<lambda>_. go_bind store (\<lambda>_. index)) s = (Ok (), t)" by blast
  moreover obtain t' where "kv_commit kv t = Inr t'" using kv unfolding kv_total_def by blast
  ultimately show ?thesis by (simp add: db_update_def)
qed

lemma txn_succeeds:
  assumes "kv_total kv"
  shows "\<exists>t. txn_set kv k e s = (Ok (), t)" and "\<exists>t. txn_delete kv k s = (Ok (), t)"
  by (metis assms kv_total_def lift_kv_def sum.simps(6) txn_set_def)
    (metis assms kv_total_def lift_kv_def sum.simps(6) txn_delete_def)

lemma read_succeeds:
  "\<exists>r. getNodeInTxn kv i s = (r, s) \<and> r \<noteq> Panic" "\<exists>r. getEdgeInTxn kv i s = (r, s) \<and> r \<noteq> Panic"
  by (auto simp: getNodeInTxn_def getEdgeInTxn_def txn_get_def go_bind_def go_ret_def go_raise_def
      go_sum_def split: sum.splits)

lemma put_succeeds:
  assumes kv: "kv_total kv"
  shows "node_json n \<noteq> None \<Longrightarrow> fst (PutNode kv n s) = Ok ()"
    and "edge_json e \<noteq> None \<Longrightarrow> fst (PutEdge kv e s) = Ok ()"
proof -
  note txn = txn_succeeds [OF kv]
  have index: "\<exists>t. IndexEdge kv e s = (Ok (), t)" and drop: "\<exists>t. DeindexEdge kv x s = (Ok (), t)" for x s
    unfolding IndexEdge_def DeindexEdge_def by (intro bind_succeeds [where x = "()"] txn)+
  show "fst (PutNode kv n s) = Ok ()" if "node_json n \<noteq> None"
    using that write_succeeds [OF kv read_succeeds(1)] txn
    by (auto simp: PutNode_def DeindexNode_def IndexNode_def)
  show "fst (PutEdge kv e s) = Ok ()" if "edge_json e \<noteq> None"
    using that write_succeeds [OF kv read_succeeds(2)] txn index drop by (auto simp: PutEdge_def)
qed

text \<open>The contract also holds with a condition on the backend added to its invariant.\<close>

context graph_storage
begin

lemma conditional: "graph_storage ops (\<lambda>s. inv s \<and> C) nodes edges"
  apply (rule graph_storage.intro; elim conjE)
  subgoal by (rule keyed_node)
  subgoal by (rule keyed_edge)
  subgoal by (rule get_node)
  subgoal by (rule get_edge)
  subgoal for s n r t using put_node [of s n r t] by blast
  subgoal for s e r t using put_edge [of s e r t] by blast
  subgoal for s i r t using delete_node [of s i r t] by blast
  subgoal for s k r t using delete_edge [of s k r t] by blast
  subgoal by (rule nodes_by_label)
  subgoal by (rule edges_by_node)
  done

end

interpretation badger_reliable: reliable_storage "badger_storage kv" "\<lambda>s. badger_inv kv s \<and> kv_total kv"
    "badger_nodes kv" "badger_edges kv" for kv :: "'s kvops"
proof (rule reliable_storage.intro)
  show "graph_storage (badger_storage kv) (\<lambda>s. badger_inv kv s \<and> kv_total kv) (badger_nodes kv) (badger_edges kv)"
    by (rule badger.conditional)
  show "reliable_storage_axioms (badger_storage kv) (\<lambda>s. badger_inv kv s \<and> kv_total kv)"
    by unfold_locales (simp_all add: badger_storage_def put_succeeds)
qed

interpretation badger_progress: reliable_ingest "badger_storage kv" "\<lambda>s. badger_inv kv s \<and> kv_total kv"
    "badger_nodes kv" "badger_edges kv" MemoryReader reader_ok mem_log for kv :: "'s kvops"
  by unfold_locales

end
