(* ===== verification/Ingest_Payloads.thy ===== *)
theory Ingest_Payloads
  imports Ingest_Handlers
begin

text \<open>
  Payloads that are written and read again: a skill response is marshalled into a response,
  and the response handler decodes the same texts from it.
\<close>

section \<open>Decoded text is valid UTF-8\<close>

fun json_ok :: "json \<Rightarrow> bool" where
  "json_ok (JStr s) \<longleftrightarrow> utf8 s"
| "json_ok (JArr vs) \<longleftrightarrow> (\<forall>v \<in> set vs. json_ok v)"
| "json_ok (JObj ms) \<longleftrightarrow> (\<forall>m \<in> set ms. json_ok (snd (snd m)))"
| "json_ok _ \<longleftrightarrow> True"

lemma json_literal_ok: "json_literal s = Some (v, r) \<Longrightarrow> json_ok v"
  by (auto simp: json_literal_def split: if_splits)

lemma json_value_ok:
  "(\<forall>d v r. json_value d s = Some (v, r) \<longrightarrow> json_ok v) \<and>
   (\<forall>d vs r. json_elements d s = Some (vs, r) \<longrightarrow> (\<forall>v \<in> set vs. json_ok v)) \<and>
   (\<forall>d ms r. json_members d s = Some (ms, r) \<longrightarrow> (\<forall>m \<in> set ms. json_ok (snd (snd m))))"
proof (induction s rule: measure_induct_rule [of length])
  case (less s)
  have IH: "json_value d t = Some (v, r) \<Longrightarrow> json_ok v"
    "json_elements d t = Some (vs, r) \<Longrightarrow> \<forall>v \<in> set vs. json_ok v"
    "json_members d t = Some (ms, r) \<Longrightarrow> \<forall>m \<in> set ms. json_ok (snd (snd m))"
    if "length t < length s" for t d v vs ms r
    using less [OF that] by blast+
  have value_ok: "json_ok v" if run: "json_value d s = Some (v, r)" for d v r
  proof (cases "skip_space s")
    case (Cons c cs)
    from skip_space_less [OF this] have cs: "length cs < length s" .
    have xs: "length xs < length s" if "skip_space cs = x # xs" for x xs
      using skip_space_less [OF that] cs by simp
    from run Cons show ?thesis
      by (auto simp: json_value.simps [of d s] split: list.splits if_splits
          dest: IH(2) [OF cs] IH(3) [OF xs] json_literal_ok)
  qed (use run in \<open>simp add: json_value.simps [of d s]\<close>)
  moreover have "\<forall>v \<in> set vs. json_ok v" if run: "json_elements d s = Some (vs, r)" for d vs r
  proof (cases "json_value d s")
    case (Some p)
    obtain v t where p: "p = (v, t)" by fastforce
    have t: "length t < length s" using json_shrinks(1) [of d s] Some p by simp
    have cs: "length cs < length s" if "skip_space t = c # cs" for c cs
      using skip_space_less [OF that] t by simp
    from run Some p value_ok [OF Some [unfolded p]] show ?thesis
      by (auto simp: json_elements.simps [of d s] split: list.splits if_splits dest: bspec [OF IH(2) [OF cs]])
  qed (use run in \<open>simp add: json_elements.simps [of d s]\<close>)
  moreover have "\<forall>m \<in> set ms. json_ok (snd (snd m))" if run: "json_members d s = Some (ms, r)" for d ms r
  proof (cases "string_body s")
    case (Some p)
    obtain k t where p: "p = (k, t)" by fastforce
    have t: "length t < length s" using string_body_length Some p by blast
    have member: "json_ok v" and next_members: "skip_space w = e # es \<Longrightarrow> skip_space es = q # qs \<Longrightarrow>
        json_members d qs = Some (ns, r) \<Longrightarrow> m \<in> set ns \<Longrightarrow> json_ok (snd (snd m))"
      if colon: "skip_space t = c # u" and v: "json_value d u = Some (v, w)" for c u v w e es q qs ns r m
    proof -
      have u: "length u < length s" using skip_space_less [OF colon] t by simp
      then show "json_ok v" by (rule IH(1) [OF _ v])
      assume w: "skip_space w = e # es" "skip_space es = q # qs" "json_members d qs = Some (ns, r)" "m \<in> set ns"
      have "length qs < length s"
        using skip_space_less [OF w(1)] skip_space_less [OF w(2)] u json_shrinks(1) [of d u] v by simp
      from bspec [OF IH(3) [OF this w(3)] w(4)] show "json_ok (snd (snd m))" .
    qed
    from run Some p show ?thesis
      by (auto simp: json_members.simps [of d s] Let_def split: list.splits if_splits option.splits)
        (use member next_members in \<open>force+\<close>)
  qed (use run in \<open>simp add: json_members.simps [of d s]\<close>)
  ultimately show ?case by blast
qed

lemma struct_members_ok:
  assumes "struct_members names doc = Some ms" and "(n, raw, JStr s) \<in> set ms"
  shows "utf8 s"
proof -
  obtain v where v: "json_value 0 doc = Some v" using assms by (auto simp: struct_members_def json_document_def split: option.splits)
  then have "json_ok (fst v)" using json_value_ok [of doc] by (cases v) auto
  with assms v show ?thesis
    by (fastforce simp: struct_members_def json_document_def split: prod.splits if_splits json.splits option.splits)
qed

text \<open>A text field holds valid UTF-8 once it has been filled.\<close>

lemma field_string_ok:
  assumes "\<And>n raw s. (n, raw, JStr s) \<in> set ms \<Longrightarrow> utf8 s"
  shows "utf8 z \<Longrightarrow> field set_string z name ms = Some x \<Longrightarrow> utf8 x"
  using assms
proof (induction ms arbitrary: z)
  case (Cons m ms)
  obtain n raw v where m: "m = (n, raw, v)" by (cases m)
  have none: "foldl (\<lambda>acc (n, raw, v). if n = name then Option.bind acc (\<lambda>x. set_string x raw v) else acc) None ms = None"
    for ms :: members by (induction ms) auto
  show ?case
  proof (cases "n = name")
    case True
    with Cons.prems(2) none obtain y where y: "set_string z raw v = Some y" "field set_string y name ms = Some x"
      by (cases "set_string z raw v") (auto simp: field_def m)
    have "utf8 y" using y(1) Cons.prems(1) Cons.prems(3) [of n raw] by (auto simp: set_string_def m split: json.splits)
    then show ?thesis by (rule Cons.IH [OF _ y(2)]) (use Cons.prems(3) in auto)
  next
    case False
    with Cons.prems(2) have "field set_string z name ms = Some x" by (simp add: field_def m)
    with Cons.prems(1) show ?thesis by (rule Cons.IH) (use Cons.prems(3) in auto)
  qed
qed (simp add: field_def)

lemma skill_response_utf8:
  assumes "decode_skill_response text = Inr p"
  shows "utf8 (ss_result p)" and "utf8 (ss_in_reply_to p)"
proof -
  let ?names = "[''SkillName'', ''Result'', ''InReplyTo'']"
  obtain ms where ms: "struct_members ?names text = Some ms"
    "field set_string [] ''Result'' ms = Some (ss_result p)"
    "field set_string [] ''InReplyTo'' ms = Some (ss_in_reply_to p)"
    using assms by (auto simp: decode_skill_response_def unmarshal_def bind_eq_Some_conv split: option.splits)
  show "utf8 (ss_result p)" by (rule field_string_ok [OF struct_members_ok [OF ms(1)] utf8_Nil ms(2)])
  show "utf8 (ss_in_reply_to p)" by (rule field_string_ok [OF struct_members_ok [OF ms(1)] utf8_Nil ms(3)])
qed

section \<open>Marshalling a response\<close>

lemma skip_space_quote: "skip_space (json_quote a @ t) = json_quote a @ t"
  by (simp add: json_quote_def skip_space_def json_space_def)

lemma json_members_quote:
  assumes "utf8 a" and key: "\<And>t. string_body (k @ CHR 0x22 # t) = Some (k, t)" "json_text k = k"
  shows "json_members d (k @ ''\":'' @ json_quote a @ '',\"'' @ t) =
      map_option (apfst (\<lambda>ms. (k, json_quote a, JStr a) # ms)) (json_members d t)"
    and "json_members d (k @ ''\":'' @ json_quote a @ CHR ''}'' # t) = Some ([(k, json_quote a, JStr a)], t)"
proof -
  have skip: "skip_space (CHR '':'' # s) = CHR '':'' # s" "skip_space (CHR '','' # s) = CHR '','' # s"
    "skip_space (CHR ''}'' # s) = CHR ''}'' # s" "skip_space (CHR 0x22 # s) = CHR 0x22 # s" for s
    by (simp_all add: skip_space_def json_space_def)
  note run = json_value_quote [OF assms(1)] skip skip_space_quote key
  show "json_members d (k @ ''\":'' @ json_quote a @ '',\"'' @ t) =
      map_option (apfst (\<lambda>ms. (k, json_quote a, JStr a) # ms)) (json_members d t)"
    by (subst json_members.simps) (simp add: run)
  show "json_members d (k @ ''\":'' @ json_quote a @ CHR ''}'' # t) = Some ([(k, json_quote a, JStr a)], t)"
    by (subst json_members.simps) (simp add: run)
qed

lemma response_document:
  assumes "utf8 a" and "utf8 b" and "utf8 c"
  shows "struct_members [''TaskID'', ''ResponseText'', ''InReplyTo'']
     (marshal_task_response \<lparr>rp_task_id = a, rp_text = b, rp_in_reply_to = c\<rparr>) =
   Some [(''TaskID'', json_quote a, JStr a), (''ResponseText'', json_quote b, JStr b), (''InReplyTo'', json_quote c, JStr c)]"
proof -
  have key: "string_body (k @ CHR 0x22 # t) = Some (k, t)" "json_text k = k"
    if "k \<in> {''TaskID'', ''ResponseText'', ''InReplyTo''}" for k t
    using that by (auto simp: json_run char_of_def bit_Suc_0_iff)
  have m: "json_members d (''TaskID\":'' @ json_quote a @ '',\"ResponseText\":'' @ json_quote b @
      '',\"InReplyTo\":'' @ json_quote c @ ''}'') =
    Some ([(''TaskID'', json_quote a, JStr a), (''ResponseText'', json_quote b, JStr b), (''InReplyTo'', json_quote c, JStr c)], [])" for d
    using json_members_quote(1) [OF assms(1) key, of "''TaskID''"] json_members_quote(1) [OF assms(2) key, of "''ResponseText''"]
      json_members_quote(2) [OF assms(3) key, of "''InReplyTo''"]
    by simp
  then show ?thesis
    by (simp add: struct_members_def json_document_def marshal_task_response_def json_value.simps [of 0]
      skip_space_def json_space_def max_depth_def field_of_def)
qed

lemma response_roundtrip:
  assumes "utf8 (rp_task_id p)" and "utf8 (rp_text p)" and "utf8 (rp_in_reply_to p)"
  shows "decode_task_response (marshal_task_response p) = Inr p"
  using response_document [OF assms] assms
  by (cases p) (simp add: decode_task_response_def unmarshal_def field_def set_string_def)

end
