(* ===== verification/Ingest_Properties.thy ===== *)
theory Ingest_Properties
  imports Ingest_Progress Ingest_Payloads
begin

text \<open>
  What ingesting promises: a record delivered twice changes nothing the second time, no record
  panics or moves a checkpoint, a stored checkpoint is the one loaded, and polling reads every
  log in order to its end.
\<close>

section \<open>Samples\<close>

definition sample_lib :: ingest_lib where
  "sample_lib = \<lparr>in_parse_float = (\<lambda>_. None), in_quote = (\<lambda>s. s)\<rparr>"


definition hello_src :: source_offset where
  "hello_src = \<lparr>so_topic = ''group'', so_partition = 0, so_offset = 7\<rparr>"

lemma fresh_state [simp]: "g_store fresh_graph = []" "badger_nodes mem_kv [] = Map.empty"
  "badger_edges mem_kv [] = Map.empty"
  by (simp_all add: fresh_graph_def badger_nodes_def badger_edges_def node_at_def edge_at_def fun_eq_iff)

lemma fresh_tame [simp]: "has_maps Map.empty Map.empty" "no_dangling Map.empty Map.empty"
  by (simp_all add: has_maps_def no_dangling_def)

text \<open>An empty graph whose clock stands still.\<close>

definition still_graph :: "mem graph" where
  "still_graph = fresh_graph\<lparr>g_clock := (\<lambda>_. 1767225600 * 10 ^ 9)\<rparr>"

lemma still_state [simp]: "g_store still_graph = []" "clock_ok still_graph"
  by (simp_all add: still_graph_def clock_ok_def json_time_ok_def)

lemma mem_inv_still: "badger_inv mem_kv (g_store still_graph)"
  by simp

text \<open>A log of two records, added out of order.\<close>

definition two_records :: memory_reader where
  "two_records = AddRecord ''group'' 0 3 ''{}'' (AddRecord ''group'' 0 7 ''{}'' [])"

lemma tp_key_group: "tpKey ''group'' 0 = ''group:0''"
  by (simp add: tpKey_def itoa_def)

lemma two_records_at: "records_at two_records k = (if k = ''group:0'' then
    [\<lparr>rec_source = \<lparr>so_topic = ''group'', so_partition = 0, so_offset = 7\<rparr>, rec_value = ''{}''\<rparr>,
     \<lparr>rec_source = \<lparr>so_topic = ''group'', so_partition = 0, so_offset = 3\<rparr>, rec_value = ''{}''\<rparr>] else [])"
  by (simp add: two_records_def AddRecord_def records_at_def tp_key_group Let_def)

lemma two_records_ok [simp]: "reader_ok two_records"
  unfolding two_records_def
  by (intro reader_AddRecord) (simp_all add: mem_log_def AddRecord_def records_at_def Let_def)

lemma still_load [simp]: "fst (Load mem_ops ns t p still_graph) = Ok (- 1)"
  using badger.load_run [OF mem_inv_still] by (simp add: checkpoint_of_def offset_at_def)


lemma still_fit: "(badger_inv mem_kv (g_store still_graph) \<and> kv_total mem_kv) \<and> clock_ok still_graph \<and>
    has_maps (badger_nodes mem_kv (g_store still_graph)) (badger_edges mem_kv (g_store still_graph))"
  by simp


section \<open>Records\<close>





text \<open>
  C23. The processor never panics while every stored document has a property map, and it
  keeps that so, whatever the reader answers, whenever polls are cancelled.
\<close>

theorem ingest_never_panics:
  assumes "badger_inv kv (g_store g)"
    and "has_maps (badger_nodes kv (g_store g)) (badger_edges kv (g_store g))"
    and "Run (NewProcessor L (badger_storage kv) rd ns b) evs g = (r, g')"
  shows "r \<noteq> Panic \<and> badger_inv kv (g_store g') \<and>
    has_maps (badger_nodes kv (g_store g')) (badger_edges kv (g_store g'))"
  by (rule badger.run_safe [OF _ assms(3)]) (use assms(1,2) in simp)

theorem ingest_never_panics_witness:
  "fst (Run (NewProcessor sample_lib mem_ops MemoryReader ''k'' 1)
     [Tick (\<lambda>_. None) (AddRecord ''group'' 0 7 ''{}'' []), Done (Msg ''context canceled'')] still_graph) \<noteq> Panic"
  using ingest_never_panics [OF mem_inv_still, of sample_lib MemoryReader "''k''" 1
    "[Tick (\<lambda>_. None) (AddRecord ''group'' 0 7 ''{}'' []), Done (Msg ''context canceled'')]"]
  by (simp add: prod_eq_iff)

section \<open>Checkpoints\<close>

text \<open>
  C24. After a commit, loading the checkpoint of that partition yields the committed offset,
  every int64 included; every other partition of the namespace has the checkpoint it had.
\<close>

theorem checkpoint_roundtrip:
  assumes "badger_inv kv (g_store g)"
    and "Commit (badger_storage kv) ns t p off g = (Ok (), g')"
  shows "Load (badger_storage kv) ns t' p' g' =
    (if t' = t \<and> p' = p then Ok off else fst (Load (badger_storage kv) ns t' p' g), g')"
proof -
  note commit = badger.commit_run [OF assms]
  from commit(1,3) assms(1) show ?thesis by (simp add: badger.load_run)
qed

theorem checkpoint_roundtrip_witness:
  "\<exists>g. Commit mem_ops ''k'' ''group'' 3 (- 9) still_graph = (Ok (), g) \<and>
     Load mem_ops ''k'' ''group'' 3 g = (Ok (- 9), g)"
proof -
  have "fst (Commit mem_ops ''k'' ''group'' 3 (- 9) still_graph) = Ok ()"
    by (rule badger_reliable.commit_succeeds [of mem_kv]) simp_all
  then obtain g where g: "Commit mem_ops ''k'' ''group'' 3 (- 9) still_graph = (Ok (), g)"
    by (cases "Commit mem_ops ''k'' ''group'' 3 (- 9) still_graph") simp
  with checkpoint_roundtrip [OF mem_inv_still g, of "''group''" 3] show ?thesis by auto
qed

section \<open>Polling\<close>

text \<open>The records of a partition that lie behind its checkpoint, in the order of their offsets.\<close>

definition pending :: "'s storage_ops \<Rightarrow> string \<Rightarrow> memory_reader \<Rightarrow> 's graph \<Rightarrow> string \<Rightarrow> 32 word \<Rightarrow> log_record list" where
  "pending ops ns m g t p = (case fst (Load ops ns t p g) of
       Ok after \<Rightarrow> filter (\<lambda>r. sint after < rec_offset r)
         (sort_by (\<lambda>r s. rec_offset r < rec_offset s) (records_at m (tpKey t p)))
     | _ \<Rightarrow> [])"

lemma pending_left:
  assumes "badger_inv kv (g_store g)"
  shows "pending (badger_storage kv) ns m g t p = badger_ingest.left kv ns m g \<lparr>tp_topic = t, tp_partition = p\<rparr>"
  using badger.load_run [OF assms]
  by (simp add: pending_def badger_ingest.left_def unread_def mem_log_def split: sum.splits)

lemma pending_batches:
  assumes "badger_inv kv (g_store g)"
  shows "badger_ingest.batches kv ns b m g tps = concat (map (\<lambda>tp.
    take (nat (max 1 b)) (pending (badger_storage kv) ns m g (tp_topic tp) (tp_partition tp))) tps)"
  by (simp add: badger_ingest.batches_def pending_left [OF assms] badger_ingest.left_def)

text \<open>
  C25. A poll of the in-memory reader handles the next batch of every partition, in order and
  each record once: it is one loop over these batches, each record committed after it was
  handled, and when it succeeds every partition has exactly the rest left.
\<close>

theorem poll_consumes:
  assumes "badger_inv kv (g_store g)" and "reader_ok m"
    and "P = NewProcessor L (badger_storage kv) MemoryReader ns b"
    and "poll P (\<lambda>_. None) m g = (r, g')"
  shows "(\<exists>tps. ListTopicPartitions m = Inr tps \<and>
      poll P (\<lambda>_. None) m g = go_for (concat (map (\<lambda>tp. take (nat (max 1 b))
        (pending (badger_storage kv) ns m g (tp_topic tp) (tp_partition tp))) tps)) (poll_record P) g) \<and>
    (r = Ok () \<longrightarrow> (\<forall>t p. pending (badger_storage kv) ns m g' t p =
       drop (nat (max 1 b)) (pending (badger_storage kv) ns m g t p)))"
proof -
  note run = badger_ingest.poll_run [OF assms(2,1) assms(4) [unfolded assms(3)]]
  have "\<exists>tps. ListTopicPartitions m = Inr tps \<and>
      poll P (\<lambda>_. None) m g = go_for (concat (map (\<lambda>tp. take (nat (max 1 b))
        (pending (badger_storage kv) ns m g (tp_topic tp) (tp_partition tp))) tps)) (poll_record P) g"
    using run(1) by (simp add: assms(3) pending_batches [OF assms(1)] MemoryReader_def)
  moreover have "pending (badger_storage kv) ns m g' t p =
      drop (nat (max 1 b)) (pending (badger_storage kv) ns m g t p)" if "r = Ok ()" for t p
    using run(4) [OF that] by (simp add: pending_left [OF run(2)] pending_left [OF assms(1)])
  ultimately show ?thesis by blast
qed

theorem poll_consumes_witness:
  "map rec_offset (pending mem_ops ''k'' two_records still_graph ''group'' 0) = [3, 7] \<and>
   (\<exists>tps. ListTopicPartitions two_records = Inr tps \<and>
     poll (NewProcessor sample_lib mem_ops MemoryReader ''k'' 1) (\<lambda>_. None) two_records still_graph =
       go_for (concat (map (\<lambda>tp. take 1 (pending mem_ops ''k'' two_records still_graph
         (tp_topic tp) (tp_partition tp))) tps))
         (poll_record (NewProcessor sample_lib mem_ops MemoryReader ''k'' 1)) still_graph)"
proof
  show "map rec_offset (pending mem_ops ''k'' two_records still_graph ''group'' 0) = [3, 7]"
    by (simp add: pending_def two_records_at tp_key_group)
  obtain r g' where "poll (NewProcessor sample_lib mem_ops MemoryReader ''k'' 1) (\<lambda>_. None) two_records still_graph = (r, g')"
    by fastforce
  from poll_consumes [OF mem_inv_still two_records_ok refl this]
  show "\<exists>tps. ListTopicPartitions two_records = Inr tps \<and>
     poll (NewProcessor sample_lib mem_ops MemoryReader ''k'' 1) (\<lambda>_. None) two_records still_graph =
       go_for (concat (map (\<lambda>tp. take 1 (pending mem_ops ''k'' two_records still_graph
         (tp_topic tp) (tp_partition tp))) tps))
         (poll_record (NewProcessor sample_lib mem_ops MemoryReader ''k'' 1)) still_graph"
    by simp
qed

text \<open>
  C26. On a store that refuses no write, enough polls drain every log: with at most \<open>k\<close>
  batches pending in each partition, \<open>k\<close> ticks leave nothing pending, and the processor then
  returns the error of its cancelled context.
\<close>

theorem polls_drain:
  assumes "badger_inv kv (g_store g)" and "kv_total kv" and "clock_ok g" and "reader_ok m"
    and "has_maps (badger_nodes kv (g_store g)) (badger_edges kv (g_store g))"
    and "\<And>t p. length (pending (badger_storage kv) ns m g t p) \<le> k * nat (max 1 b)"
  shows "\<exists>g'. Run (NewProcessor L (badger_storage kv) MemoryReader ns b)
      (replicate k (Tick (\<lambda>_. None) m) @ [Done e]) g = (Ok (Some e), g') \<and>
    (\<forall>t p. pending (badger_storage kv) ns m g' t p = [])"
proof -
  let ?P = "NewProcessor L (badger_storage kv) MemoryReader ns b"
  obtain r g' where run: "Run ?P (replicate k (Tick (\<lambda>_. None) m) @ [Done e]) g = (r, g')" by fastforce
  from badger_progress.run_ticks [OF assms(4) _ run] assms(1,2,3,5) obtain h where
    h: "Run ?P [Done e] h = (r, g')" "badger_inv kv (g_store h)"
    "\<And>tp. badger_ingest.left kv ns m h tp = drop (k * nat (max 1 b)) (badger_ingest.left kv ns m g tp)"
    by blast
  then have "pending (badger_storage kv) ns m h t p = []" for t p
    using assms(6) [of t p] by (simp add: pending_left [OF assms(1)] pending_left [OF h(2)])
  with run h(1) show ?thesis by (simp add: go_ret_def)
qed

theorem polls_drain_witness:
  "\<exists>g'. Run (NewProcessor sample_lib mem_ops MemoryReader ''k'' 1)
      [Tick (\<lambda>_. None) two_records, Tick (\<lambda>_. None) two_records, Done (Msg ''context canceled'')] still_graph =
      (Ok (Some (Msg ''context canceled'')), g') \<and>
    pending mem_ops ''k'' two_records g' ''group'' 0 = []"
proof -
  have "length (pending mem_ops ''k'' two_records still_graph t p) \<le> 2 * nat (max 1 1)" for t p
    by (simp add: pending_def two_records_at)
  from polls_drain [where L = sample_lib and e = "Msg ''context canceled''",
      OF mem_inv_still mem_kv_total _ two_records_ok _ this]
  show ?thesis by (auto simp: numeral_2_eq_2)
qed

section \<open>Handlers\<close>

text \<open>
  C27. A skill response has the graph shape of a response: whatever the payload, handling it
  decodes it, and what the response handler reads back from the marshalled text is the
  result and the message it replies to, with no task.
\<close>

theorem skill_response_as_response:
  "HandleSkillResponse ops env src =
     with_payload ''handle skill_response'' (decode_skill_response (env_payload env)) (\<lambda>p.
     let h = ''handle response'' in
     run_upserts ops
       [sender_node h env, conversation_node h env,
        message_node h src [(''text'', VStr (ss_result p)), (''taskID'', VStr []),
          (''inReplyTo'', VStr (ss_in_reply_to p)), (''senderID'', VStr (env_sender env))],
        authored_edge h env src, belongs_edge h env src])"
proof (cases "decode_skill_response (env_payload env)")
  case (Inr p)
  have "decode_task_response (marshal_task_response \<lparr>rp_task_id = [], rp_text = ss_result p,
      rp_in_reply_to = ss_in_reply_to p\<rparr>) =
    Inr \<lparr>rp_task_id = [], rp_text = ss_result p, rp_in_reply_to = ss_in_reply_to p\<rparr>"
    by (rule response_roundtrip) (simp_all add: skill_response_utf8 [OF Inr])
  with Inr show ?thesis
    by (simp add: HandleSkillResponse_def HandleResponse_def with_payload_def Let_def sender_node_def
        conversation_node_def authored_edge_def belongs_edge_def)
qed (simp add: HandleSkillResponse_def with_payload_def)

text \<open>
  The identifier of an edge does not determine its ends: the skill \<open>t\<close> of an agent whose
  name ends in \<open>:n:Skill:s\<close> and the skill named \<open>s:n:Skill:t\<close> of the agent without that ending
  share one. Where the one edge is stored, upserting the other writes into it; it gets no edge
  of its own.
\<close>

theorem edge_id_collision:
  assumes "badger_inv kv (g_store g)" and "props_ok ps"
    and "badger_edges kv (g_store g) (DeterministicEdgeID ''HAS_SKILL'' (AgentNodeID a)
      (SkillNodeID (s @ '':n:Skill:'' @ t))) = Some e"
    and "run_upsert (badger_storage kv) (EdgeUp c ''HAS_SKILL'' (AgentNodeID (a @ '':n:Skill:'' @ s))
      (SkillNodeID t) ps) g = (r, g')"
  shows "dom (badger_edges kv (g_store g')) = dom (badger_edges kv (g_store g)) \<and>
    (\<exists>f. badger_edges kv (g_store g') (DeterministicEdgeID ''HAS_SKILL'' (AgentNodeID (a @ '':n:Skill:'' @ s))
        (SkillNodeID t)) = Some f \<and> e_from f = e_from e \<and> e_to f = e_to e)"
proof -
  let ?k = "DeterministicEdgeID ''HAS_SKILL'' (AgentNodeID (a @ '':n:Skill:'' @ s)) (SkillNodeID t)"
  have same: "DeterministicEdgeID ''HAS_SKILL'' (AgentNodeID a) (SkillNodeID (s @ '':n:Skill:'' @ t)) = ?k"
    by (simp add: DeterministicEdgeID_def AgentNodeID_def SkillNodeID_def)
  have "up_ok (EdgeUp c ''HAS_SKILL'' (AgentNodeID (a @ '':n:Skill:'' @ s)) (SkillNodeID t) ps)"
    using assms(2) by simp
  note up = badger.edge_up_run [OF assms(1) this assms(4)]
  show ?thesis
  proof (cases "r = Ok ()")
    case True
    from up(5) [OF True, unfolded assms(3) [unfolded same] option.case]
    obtain f where f: "badger_edges kv (g_store g') = (badger_edges kv (g_store g))(?k \<mapsto> f)"
      "f = e\<lparr>e_props := e_props f\<rparr>" by blast
    have "e_from f = e_from e" "e_to f = e_to e"
      using arg_cong [OF f(2), of e_from] arg_cong [OF f(2), of e_to] by simp_all
    with f(1) assms(3) [unfolded same] show ?thesis by auto
  qed (use up(4) assms(3) same in simp)
qed

theorem edge_id_collision_witness:
  "\<exists>g e r g'. badger_edges mem_kv (g_store g) (DeterministicEdgeID ''HAS_SKILL'' (AgentNodeID ''a'')
      (SkillNodeID ''s:n:Skill:t'')) = Some e \<and>
    run_upsert mem_ops (EdgeUp None ''HAS_SKILL'' (AgentNodeID ''a:n:Skill:s'') (SkillNodeID ''t'') None) g = (r, g') \<and>
    dom (badger_edges mem_kv (g_store g')) = dom (badger_edges mem_kv (g_store g))"
proof -
  let ?u = "EdgeUp None ''HAS_SKILL'' (AgentNodeID ''a'') (SkillNodeID ''s:n:Skill:t'') None"
  let ?v = "EdgeUp None ''HAS_SKILL'' (AgentNodeID ''a:n:Skill:s'') (SkillNodeID ''t'') None"
  obtain q g where u: "run_upsert mem_ops ?u still_graph = (q, g)" by fastforce
  have ok: "up_ok ?u" "encodable ?u" by simp_all
  have q: "q = Ok ()" and inv: "badger_inv mem_kv (g_store g)"
    using badger_reliable.up_succeeds [OF still_fit ok u] by simp_all
  obtain e where e: "badger_edges mem_kv (g_store g) (DeterministicEdgeID ''HAS_SKILL'' (AgentNodeID ''a'')
      (SkillNodeID ''s:n:Skill:t'')) = Some e"
    using badger.edge_up_run(5) [OF mem_inv_still ok(1) u q] by (elim exE conjE) simp
  obtain r g' where v: "run_upsert mem_ops ?v g = (r, g')" by fastforce
  have "dom (badger_edges mem_kv (g_store g')) = dom (badger_edges mem_kv (g_store g))"
    using edge_id_collision [OF inv, of None "''a''" "''s''" "''t''"] e v by simp
  with e v show ?thesis by blast
qed

lemma absorbs_entry:
  assumes "absorbs q (Some ps)" and "distinct (map fst ps)" and "(k, VStr x) \<in> set ps"
  shows "absorbs q (Some [(k, VStr x)])"
proof -
  obtain P where P: "json_norm_fields ps = Some P"
    and c: "case q of None \<Rightarrow> ps = [] | Some m \<Rightarrow> map_of P \<subseteq>\<^sub>m map_of m"
    using assms(1) unfolding absorbs_def option.case by blast
  have "map_of ps k = Some (VStr x)" using assms(2,3) by simp
  then have "map_of P k = Some (VStr x)" by (simp add: norm_map_of [OF P])
  with c assms(3) show ?thesis by (auto simp: absorbs_def map_le_def dom_def split: option.splits)
qed

text \<open>
  Removing a skill marks its edge with the time of the roster. Declaring the skill again
  leaves the mark: the edge still says that the skill was removed, and when.
\<close>

theorem roster_keeps_removed:
  assumes "badger_inv kv (g_store g)"
    and "decode_roster (env_payload env1) = Inr p1" and "ro_action p1 = ''remove''" and "skill \<in> set (ro_skills p1)"
    and "agent = (if ro_agent_id p1 = [] then env_sender env1 else ro_agent_id p1)"
    and "decode_roster (env_payload env2) = Inr p2" and "ro_action p2 \<noteq> ''remove''"
    and "HandleRoster (badger_storage kv) env1 src1 g = (Ok (), g1)"
    and "HandleRoster (badger_storage kv) env2 src2 g1 = (Ok (), g2)"
  shows "\<exists>e. badger_edges kv (g_store g2) (DeterministicEdgeID ''HAS_SKILL'' (AgentNodeID agent) (SkillNodeID skill)) = Some e \<and>
    map_of (prop_list (e_props e)) ''removedAt'' = Some (VStr (stamp_text (env_timestamp env1)))"
proof -
  let ?at = "stamp_text (env_timestamp env1)"
  define mark where "mark = EdgeUp None ''HAS_SKILL'' (AgentNodeID agent) (SkillNodeID skill) (Some [(''removedAt'', VStr ?at)])"
  define us where "us p env = (let agent = (if ro_agent_id p = [] then env_sender env else ro_agent_id p) in
    NodeUp (Some ''handle roster: upsert agent'') (AgentNodeID agent) ''Agent'' [(''senderID'', VStr agent)] #
    concat (map (roster_skill p (stamp_text (env_timestamp env)) agent) (ro_skills p)))" for p and env :: envelope
  have run: "run_upserts (badger_storage kv) (us p1 env1) g = (Ok (), g1)"
    "run_upserts (badger_storage kv) (us p2 env2) g1 = (Ok (), g2)"
    using assms(2,6,8,9) by (simp_all add: HandleRoster_def with_payload_def Let_def us_def)
  have ok: "list_all up_ok (us p env)" "\<forall>u \<in> set (us p env). \<forall>v \<in> set (us p env). up_agree u v" for p env
    by (auto simp: us_def Let_def script_parts ids agree_self list_all_iff roster_props_distinct)
  have "absorbed mark (badger_nodes kv (g_store g1)) (badger_edges kv (g_store g1))"
  proof -
    have "EdgeUp (Some ''handle roster: upsert has_skill edge (remove)'') ''HAS_SKILL'' (AgentNodeID agent)
        (SkillNodeID skill) (Some (roster_props p1 ?at)) \<in> set (us p1 env1)"
      using assms(3-5) by (auto simp: us_def Let_def roster_skill_def)
    with badger.ups_absorbed [OF run(1) assms(1) ok(1) refl ok(2)] obtain e where
      "badger_edges kv (g_store g1) (DeterministicEdgeID ''HAS_SKILL'' (AgentNodeID agent) (SkillNodeID skill)) = Some e"
      "absorbs (e_props e) (Some (roster_props p1 ?at))" by fastforce
    moreover have "(''removedAt'', VStr ?at) \<in> set (roster_props p1 ?at)" using assms(3) by (simp add: roster_props_def)
    ultimately show ?thesis
      using absorbs_entry roster_props_distinct(1) by (auto simp: mark_def)
  qed
  moreover have "\<forall>v \<in> set (us p2 env2). up_agree mark v"
    using assms(7) by (auto simp: us_def Let_def script_parts mark_def agree_def roster_props_def)
  ultimately have "absorbed mark (badger_nodes kv (g_store g2)) (badger_edges kv (g_store g2))"
    using badger.ups_absorbed [OF run(2) badger.ups_inv [OF run(1) assms(1) ok(1)] ok(1) refl ok(2)] by blast
  then show ?thesis
    by (auto simp: mark_def absorbs_def map_le_def split: option.splits)
qed

definition go_roster :: "string \<Rightarrow> envelope" where
  "go_roster action = \<lparr>env_type = ''roster'', env_correlation = [], env_sender = ''ann'',
     env_timestamp = zero_stamp, env_payload = ''{\"Skills\":[\"go\"],\"Action\":'' @ json_quote action @ ''}''\<rparr>"

lemma go_roster_payload:
  assumes "action = ''add'' \<or> action = ''remove''"
  shows "decode_roster (env_payload (go_roster action)) =
    Inr \<lparr>ro_agent_id = [], ro_skills = [''go''], ro_version = 0, ro_action = action\<rparr>"
  using assms
  by (elim disjE) (simp_all add: go_roster_def decode_roster_def unmarshal_def struct_members_def json_run
      field_def field_of_def set_strings_def set_string_def json_quote_def json_body_def json_escape_def
      runes_def char_of_def bit_Suc_0_iff)

lemma go_roster_run:
  assumes "action = ''add'' \<or> action = ''remove''"
    and "(badger_inv mem_kv (g_store g) \<and> kv_total mem_kv) \<and> clock_ok g \<and>
      has_maps (badger_nodes mem_kv (g_store g)) (badger_edges mem_kv (g_store g))"
  obtains h where "HandleRoster mem_ops (go_roster action) src g = (Ok (), h)"
    and "(badger_inv mem_kv (g_store h) \<and> kv_total mem_kv) \<and> clock_ok h \<and>
      has_maps (badger_nodes mem_kv (g_store h)) (badger_edges mem_kv (g_store h))"
proof -
  obtain us where us: "HandleRoster mem_ops (go_roster action) src = run_upserts mem_ops us"
    "list_all up_ok us" "list_all encodable us"
    using go_roster_payload [OF assms(1)]
    by (auto simp: HandleRoster_def with_payload_def Let_def script_parts roster_props_def)
  obtain r h where r: "run_upserts mem_ops us g = (r, h)" by fastforce
  from badger_reliable.ups_succeed [OF assms(2) us(2,3) r] r show thesis by (intro that) (auto simp: us(1))
qed

theorem roster_keeps_removed_witness:
  "\<exists>g1 g2 e. HandleRoster mem_ops (go_roster ''remove'') hello_src still_graph = (Ok (), g1) \<and>
     HandleRoster mem_ops (go_roster ''add'') hello_src g1 = (Ok (), g2) \<and>
     badger_edges mem_kv (g_store g2) (DeterministicEdgeID ''HAS_SKILL'' (AgentNodeID ''ann'') (SkillNodeID ''go'')) = Some e \<and>
     map_of (prop_list (e_props e)) ''removedAt'' = Some (VStr ''0001-01-01T00:00:00Z'')"
proof -
  obtain g1 where g1: "HandleRoster mem_ops (go_roster ''remove'') hello_src still_graph = (Ok (), g1)"
    and fit: "(badger_inv mem_kv (g_store g1) \<and> kv_total mem_kv) \<and> clock_ok g1 \<and>
      has_maps (badger_nodes mem_kv (g_store g1)) (badger_edges mem_kv (g_store g1))"
    by (rule go_roster_run [OF _ still_fit, of "''remove''" hello_src]) simp_all
  obtain g2 where g2: "HandleRoster mem_ops (go_roster ''add'') hello_src g1 = (Ok (), g2)"
    by (rule go_roster_run [OF _ fit, of "''add''" hello_src]) simp_all
  have "stamp_text (env_timestamp (go_roster ''remove'')) = ''0001-01-01T00:00:00Z''"
    by (simp only: go_roster_def envelope.simps) code_simp
  with roster_keeps_removed [OF mem_inv_still go_roster_payload _ _ refl go_roster_payload _ g1 g2, of "''go''"] g1 g2
  show ?thesis by (simp add: go_roster_def)
qed

end
