(* ===== verification/Compliance_Rules.thy ===== *)
theory Compliance_Rules
  imports Complex_Main Graph_Engine Cypher_Executor Go_Clock Go_Json
begin

text \<open>
  internal/compliance: types.go, hardcoded.go, yaml_rule.go, and the rules of dataflow.go. A rule
  reads the graph through the interface \<open>GraphQuerier\<close> and answers results, each about a node.
  Frameworks, severities and statuses are the strings the code declares them as.
\<close>

section \<open>Rules, results and the querier\<close>

record node_item =
  ni_id :: string
  ni_label :: string
  ni_props :: "props option"

record edge_item =
  ei_id :: string
  ei_label :: string
  ei_from :: string
  ei_to :: string

record 's querier =
  q_nodes_by_label :: "string \<Rightarrow> ('s graph, node_item list) go"
  q_neighbors :: "string \<Rightarrow> ('s graph, edge_item list) go"

record rule_result =
  rr_rule :: string
  rr_status :: string
  rr_node :: string
  rr_details :: string
  rr_severity :: string

abbreviation EvalPass :: string where "EvalPass \<equiv> ''pass''"
abbreviation EvalFail :: string where "EvalFail \<equiv> ''fail''"
abbreviation EvalWarning :: string where "EvalWarning \<equiv> ''warning''"
abbreviation EvalNA :: string where "EvalNA \<equiv> ''na''"

type_synonym 's evaluation = "'s querier \<Rightarrow> ('s graph, rule_result list) go"

record 's compliance_rule =
  cr_id :: string
  cr_framework :: string
  cr_module :: string
  cr_article :: string
  cr_title :: string
  cr_severity :: string
  cr_eval :: "'s evaluation"

definition Weight :: "string \<Rightarrow> rat" where
  "Weight s = (if s = ''critical'' then 3 else if s = ''high'' then 2 else if s = ''medium'' then 1
     else if s = ''low'' then 1 / 2 else 1)"

text \<open>The adapter over the engine (engine.go).\<close>

definition node_item_of :: "node \<Rightarrow> node_item" where
  "node_item_of n = \<lparr>ni_id = n_id n, ni_label = n_label n, ni_props = n_props n\<rparr>"

definition edge_item_of :: "edge \<Rightarrow> edge_item" where
  "edge_item_of e = \<lparr>ei_id = e_id e, ei_label = e_label e, ei_from = e_from e, ei_to = e_to e\<rparr>"

definition graphAdapter :: "'s storage_ops \<Rightarrow> 's querier" where
  "graphAdapter ops = \<lparr>
     q_nodes_by_label = (\<lambda>l. go_bind (graph_NodesByLabel ops l) (\<lambda>ns. go_ret (map node_item_of ns))),
     q_neighbors = (\<lambda>i. go_bind (Neighbors ops i) (\<lambda>es. go_ret (map edge_item_of es)))\<rparr>"

section \<open>Helpers\<close>

text \<open>\<open>x, _ := call\<close>: on an error the slice is nil.\<close>

definition or_none :: "('x, 'a list) go \<Rightarrow> ('x, 'a list) go" where
  "or_none m = go_bind (go_try m) (\<lambda>r. go_ret (case r of Inl _ \<Rightarrow> [] | Inr xs \<Rightarrow> xs))"

text \<open>\<open>v, _ := props[key].(string)\<close>.\<close>

definition propStr :: "props option \<Rightarrow> string \<Rightarrow> string" where
  "propStr ps key = (case map_of (prop_list ps) key of Some (VStr s) \<Rightarrow> s | _ \<Rightarrow> [])"

definition hasEdgeLabel :: "edge_item list \<Rightarrow> string \<Rightarrow> bool" where
  "hasEdgeLabel es label \<longleftrightarrow> list_ex (\<lambda>e. ei_label e = label) es"

definition EqualFold :: "string \<Rightarrow> string \<Rightarrow> bool" where
  "EqualFold s t \<longleftrightarrow> map fold_rune (runes s) = map fold_rune (runes t)"

text \<open>\<open>strings.Contains(strings.ToLower(s), "consent")\<close>: no other rune lowers to these letters.\<close>

definition mentions_consent :: "string \<Rightarrow> bool" where
  "mentions_consent s \<longleftrightarrow> str_contains (map lower_char s) ''consent''"

definition em_dash :: string where
  "em_dash = [CHR 0xE2, CHR 0x80, CHR 0x94]"

text \<open>\<open>time.Parse\<close> with RFC 3339, and with a date only if that fails.\<close>

definition parse_deadline :: "string \<Rightarrow> stamp option" where
  "parse_deadline s = (case parse_stamp s of Some t \<Rightarrow> Some t | None \<Rightarrow> parse_day s)"

definition res :: "string \<Rightarrow> string \<Rightarrow> string \<Rightarrow> string \<Rightarrow> string \<Rightarrow> rule_result" where
  "res rule sev st nid details = \<lparr>rr_rule = rule, rr_status = st, rr_node = nid,
     rr_details = details, rr_severity = sev\<rparr>"

definition checkPropertyNotEmpty :: "string \<Rightarrow> string \<Rightarrow> string \<Rightarrow> string \<Rightarrow> 's evaluation" where
  "checkPropertyNotEmpty rule sev label prop q =
     go_bind (q_nodes_by_label q label) (\<lambda>ns. go_ret (map (\<lambda>n.
       if propStr (ni_props n) prop = []
       then res rule sev EvalFail (ni_id n) (label @ '' missing '' @ prop)
       else res rule sev EvalPass (ni_id n) (label @ '' has '' @ prop)) ns))"

definition checkHasEdge :: "string \<Rightarrow> string \<Rightarrow> string \<Rightarrow> string \<Rightarrow> 's evaluation" where
  "checkHasEdge rule sev label edgeLabel q =
     go_bind (q_nodes_by_label q label) (\<lambda>ns. go_collect ns (\<lambda>n.
     go_bind (or_none (q_neighbors q (ni_id n))) (\<lambda>es. go_ret
       [if hasEdgeLabel es edgeLabel
        then res rule sev EvalPass (ni_id n) (label @ '' has '' @ edgeLabel @ '' edge'')
        else res rule sev EvalFail (ni_id n) (label @ '' missing '' @ edgeLabel @ '' edge'')])))"

text \<open>
  The ends of the edges with a label at each of some nodes: \<open>covered[e.To] = true\<close> in a loop over
  the nodes.
\<close>

definition targets_of :: "'s querier \<Rightarrow> string \<Rightarrow> node_item list \<Rightarrow> ('s graph, string list) go" where
  "targets_of q label ns = go_collect ns (\<lambda>n.
     go_bind (or_none (q_neighbors q (ni_id n))) (\<lambda>es.
     go_ret (map ei_to (filter (\<lambda>e. ei_label e = label) es))))"

section \<open>The GDPR rules\<close>

definition gdprSetup001 :: "'s compliance_rule" where
  "gdprSetup001 = (let rr = res ''GDPR-SETUP-001'' ''critical'' in
     \<lparr>cr_id = ''GDPR-SETUP-001'', cr_framework = ''gdpr'', cr_module = ''setup'',
      cr_article = ''Art. 37'', cr_title = ''DPO designation required'', cr_severity = ''critical'',
      cr_eval = (\<lambda>q. go_bind (q_nodes_by_label q ''OrgSetup'') (\<lambda>ns. go_ret (
        if ns = [] then [rr EvalFail [] (''No OrgSetup node found '' @ em_dash @ '' DPO must be designated'')]
        else case find (\<lambda>n. propStr (ni_props n) ''dpoName'' = [] \<or> propStr (ni_props n) ''dpoEmail'' = []) ns of
          Some n \<Rightarrow> [rr EvalFail (ni_id n) ''OrgSetup missing dpoName or dpoEmail'']
        | None \<Rightarrow> [rr EvalPass [] ''DPO is designated with name and email''])))\<rparr>)"

definition gdprRopa001 :: "'s compliance_rule" where
  "gdprRopa001 = \<lparr>cr_id = ''GDPR-ROPA-001'', cr_framework = ''gdpr'', cr_module = ''ropa'',
     cr_article = ''Art. 6'', cr_title = ''Legal basis required for all processing activities'',
     cr_severity = ''critical'',
     cr_eval = checkPropertyNotEmpty ''GDPR-ROPA-001'' ''critical'' ''ProcessingActivity'' ''legalBasis''\<rparr>"

definition gdprRopa002 :: "'s compliance_rule" where
  "gdprRopa002 = \<lparr>cr_id = ''GDPR-ROPA-002'', cr_framework = ''gdpr'', cr_module = ''ropa'',
     cr_article = ''Art. 30'', cr_title = ''Retention period required for processing activities'',
     cr_severity = ''high'',
     cr_eval = checkPropertyNotEmpty ''GDPR-ROPA-002'' ''high'' ''ProcessingActivity'' ''retentionPeriod''\<rparr>"

definition gdprRopa003 :: "'s compliance_rule" where
  "gdprRopa003 = \<lparr>cr_id = ''GDPR-ROPA-003'', cr_framework = ''gdpr'', cr_module = ''ropa'',
     cr_article = ''Art. 30'', cr_title = ''Data categories must be documented per activity'',
     cr_severity = ''medium'',
     cr_eval = checkHasEdge ''GDPR-ROPA-003'' ''medium'' ''ProcessingActivity'' ''PROCESSES_CATEGORY''\<rparr>"

definition gdprRopa004 :: "'s compliance_rule" where
  "gdprRopa004 = \<lparr>cr_id = ''GDPR-ROPA-004'', cr_framework = ''gdpr'', cr_module = ''ropa'',
     cr_article = ''Art. 32'', cr_title = ''Technical/organizational measures required'',
     cr_severity = ''high'',
     cr_eval = checkHasEdge ''GDPR-ROPA-004'' ''high'' ''ProcessingActivity'' ''PROTECTED_BY''\<rparr>"

text \<open>One request: done, without a deadline, with an unreadable one (skipped), overdue or in time.\<close>

definition dsr_result :: "(string \<Rightarrow> string \<Rightarrow> string \<Rightarrow> rule_result) \<Rightarrow> int \<Rightarrow> node_item \<Rightarrow> rule_result list" where
  "dsr_result rr now n =
     (let status = propStr (ni_props n) ''status'' in
      if status = ''completed'' \<or> status = ''closed'' then [rr EvalPass (ni_id n) ''DSR completed'']
      else let deadlineStr = propStr (ni_props n) ''deadline'' in
        if deadlineStr = [] then [rr EvalWarning (ni_id n) ''DSR has no deadline set'']
        else case parse_deadline deadlineStr of
          None \<Rightarrow> []
        | Some deadline \<Rightarrow>
            if now > instant deadline
            then [rr EvalFail (ni_id n) (''DSR overdue (deadline: '' @ deadlineStr @ '')'')]
            else [rr EvalPass (ni_id n) ''DSR within deadline''])"

definition gdprDSR001 :: "'s compliance_rule" where
  "gdprDSR001 = \<lparr>cr_id = ''GDPR-DSR-001'', cr_framework = ''gdpr'', cr_module = ''dsr'',
     cr_article = ''Art. 12'', cr_title = ''No DSR requests overdue'', cr_severity = ''critical'',
     cr_eval = (\<lambda>q. go_bind (q_nodes_by_label q ''DataSubjectRequest'') (\<lambda>ns.
       if ns = [] then go_ret []
       else go_bind time_now (\<lambda>now.
         go_ret (concat (map (dsr_result (res ''GDPR-DSR-001'' ''critical'') now) ns)))))\<rparr>"

definition gdprDSR002 :: "'s compliance_rule" where
  "gdprDSR002 = (let rr = res ''GDPR-DSR-002'' ''high'' in
     \<lparr>cr_id = ''GDPR-DSR-002'', cr_framework = ''gdpr'', cr_module = ''dsr'',
      cr_article = ''Art. 15-22'', cr_title = ''Completed DSRs must have response details'',
      cr_severity = ''high'',
      cr_eval = (\<lambda>q. go_bind (q_nodes_by_label q ''DataSubjectRequest'') (\<lambda>ns. go_ret (concat (map (\<lambda>n.
        if propStr (ni_props n) ''status'' \<noteq> ''completed'' then []
        else if propStr (ni_props n) ''responseDetails'' = []
        then [rr EvalFail (ni_id n) ''Completed DSR missing responseDetails'']
        else [rr EvalPass (ni_id n) ''DSR has response details'']) ns))))\<rparr>)"

text \<open>One breach: severe ones have to be notified within 72 hours.\<close>

definition breach_result :: "(string \<Rightarrow> string \<Rightarrow> string \<Rightarrow> rule_result) \<Rightarrow> node_item \<Rightarrow> rule_result" where
  "breach_result rr n =
     (let sev = propStr (ni_props n) ''severity'' in
      if sev \<noteq> ''high'' \<and> sev \<noteq> ''critical''
      then rr EvalPass (ni_id n) (''Low/medium breach '' @ em_dash @ '' 72h rule not mandatory'')
      else let discoveredStr = propStr (ni_props n) ''discoveredAt'';
               notifiedStr = propStr (ni_props n) ''authorityNotifiedAt'' in
        if notifiedStr = [] then rr EvalFail (ni_id n) ''High/critical breach not yet notified to authority''
        else case (parse_stamp discoveredStr, parse_stamp notifiedStr) of
          (Some discovered, Some notified) \<Rightarrow>
            let took = time_sub (instant notified) (instant discovered) in
            if took > 72 * 3600 * 10 ^ 9
            then rr EvalFail (ni_id n) (''Notification took '' @ duration_text took @ '' (> 72h)'')
            else rr EvalPass (ni_id n) ''Authority notified within 72h''
        | _ \<Rightarrow> rr EvalWarning (ni_id n) ''Cannot parse breach timestamps'')"

definition gdprBreach001 :: "'s compliance_rule" where
  "gdprBreach001 = \<lparr>cr_id = ''GDPR-BREACH-001'', cr_framework = ''gdpr'', cr_module = ''breach'',
     cr_article = ''Art. 33'', cr_title = ''Authority notification within 72 hours'',
     cr_severity = ''critical'',
     cr_eval = (\<lambda>q. go_bind (q_nodes_by_label q ''DataBreach'') (\<lambda>ns.
       go_ret (map (breach_result (res ''GDPR-BREACH-001'' ''critical'')) ns)))\<rparr>"

definition gdprBreach002 :: "'s compliance_rule" where
  "gdprBreach002 = (let rr = res ''GDPR-BREACH-002'' ''critical'' in
     \<lparr>cr_id = ''GDPR-BREACH-002'', cr_framework = ''gdpr'', cr_module = ''breach'',
      cr_article = ''Art. 34'', cr_title = ''Data subjects notified for special category breaches'',
      cr_severity = ''critical'',
      cr_eval = (\<lambda>q. go_bind (q_nodes_by_label q ''DataBreach'') (\<lambda>ns. go_collect ns (\<lambda>n.
        go_bind (or_none (q_neighbors q (ni_id n))) (\<lambda>es. go_ret
          [if \<not> hasEdgeLabel es ''BREACH_INVOLVES''
           then rr EvalPass (ni_id n) ''Breach does not involve special categories''
           else if propStr (ni_props n) ''subjectsNotifiedAt'' = []
           then rr EvalFail (ni_id n) ''Breach involves special categories but subjects not notified''
           else rr EvalPass (ni_id n) ''Data subjects notified'']))))\<rparr>)"

definition gdprDPIA001 :: "'s compliance_rule" where
  "gdprDPIA001 = (let rr = res ''GDPR-DPIA-001'' ''critical'' in
     \<lparr>cr_id = ''GDPR-DPIA-001'', cr_framework = ''gdpr'', cr_module = ''dpia'',
      cr_article = ''Art. 35'', cr_title = ''DPIA required for high-risk processing'',
      cr_severity = ''critical'',
      cr_eval = (\<lambda>q.
        go_bind (q_nodes_by_label q ''ProcessingActivity'') (\<lambda>activities.
        go_bind (or_none (q_nodes_by_label q ''DPIA'')) (\<lambda>dpias.
        go_bind (targets_of q ''DPIA_FOR'' dpias) (\<lambda>covered.
        go_ret (concat (map (\<lambda>a.
          if \<not> EqualFold (propStr (ni_props a) ''riskLevel'') ''high'' then []
          else if ni_id a \<in> set covered then [rr EvalPass (ni_id a) ''High-risk activity has DPIA'']
          else [rr EvalFail (ni_id a) ''High-risk activity missing DPIA'']) activities))))))\<rparr>)"

definition gdprDPIA002 :: "'s compliance_rule" where
  "gdprDPIA002 = (let rr = res ''GDPR-DPIA-002'' ''high'' in
     \<lparr>cr_id = ''GDPR-DPIA-002'', cr_framework = ''gdpr'', cr_module = ''dpia'',
      cr_article = ''Art. 35'', cr_title = ''Every DPIA must identify risks'', cr_severity = ''high'',
      cr_eval = (\<lambda>q. go_bind (q_nodes_by_label q ''DPIA'') (\<lambda>ds. go_collect ds (\<lambda>d.
        go_bind (or_none (q_neighbors q (ni_id d))) (\<lambda>es. go_ret
          [if hasEdgeLabel es ''HAS_RISK'' then rr EvalPass (ni_id d) ''DPIA has identified risks''
           else rr EvalFail (ni_id d) ''DPIA has no identified risks'']))))\<rparr>)"

definition gdprProc001 :: "'s compliance_rule" where
  "gdprProc001 = (let rr = res ''GDPR-PROC-001'' ''high'' in
     \<lparr>cr_id = ''GDPR-PROC-001'', cr_framework = ''gdpr'', cr_module = ''processor'',
      cr_article = ''Art. 28'', cr_title = ''Active processors must have signed contracts'',
      cr_severity = ''high'',
      cr_eval = (\<lambda>q. go_bind (q_nodes_by_label q ''DataProcessor'') (\<lambda>ns. go_ret (map (\<lambda>n.
        let status = propStr (ni_props n) ''contractStatus'' in
        if EqualFold status ''signed'' \<or> EqualFold status ''active''
        then rr EvalPass (ni_id n) ''Processor has signed contract''
        else rr EvalFail (ni_id n) (''Processor contract status: '' @ status)) ns)))\<rparr>)"

definition gdprEvidence001 :: "'s compliance_rule" where
  "gdprEvidence001 = (let rr = res ''GDPR-EVIDENCE-001'' ''medium'' in
     \<lparr>cr_id = ''GDPR-EVIDENCE-001'', cr_framework = ''gdpr'', cr_module = ''evidence'',
      cr_article = ''Art. 5(2)'', cr_title = ''Compliant checklist items must have evidence'',
      cr_severity = ''medium'',
      cr_eval = (\<lambda>q. go_bind (q_nodes_by_label q ''ChecklistItem'') (\<lambda>ns. go_collect ns (\<lambda>n.
        if propStr (ni_props n) ''status'' \<noteq> ''compliant'' then go_ret []
        else go_bind (or_none (q_neighbors q (ni_id n))) (\<lambda>es. go_ret
          [if hasEdgeLabel es ''EVIDENCED_BY'' then rr EvalPass (ni_id n) ''Checklist item has evidence''
           else rr EvalFail (ni_id n) ''Compliant checklist item has no evidence attached'']))))\<rparr>)"

definition gdpr_rules :: "'s compliance_rule list" where
  "gdpr_rules = [gdprSetup001, gdprRopa001, gdprRopa002, gdprRopa003, gdprRopa004, gdprDSR001,
     gdprDSR002, gdprBreach001, gdprBreach002, gdprDPIA001, gdprDPIA002, gdprProc001,
     gdprEvidence001]"

section \<open>The data flow and inspection rules\<close>

definition gdprFlow001 :: "'s compliance_rule" where
  "gdprFlow001 = \<lparr>cr_id = ''GDPR-FLOW-001'', cr_framework = ''gdpr'', cr_module = ''dataflow'',
     cr_article = ''Art. 30'', cr_title = ''Data categories must be documented per data flow'',
     cr_severity = ''high'',
     cr_eval = checkHasEdge ''GDPR-FLOW-001'' ''high'' ''DataFlow'' ''CARRIES''\<rparr>"

definition gdprFlow002 :: "'s compliance_rule" where
  "gdprFlow002 = \<lparr>cr_id = ''GDPR-FLOW-002'', cr_framework = ''gdpr'', cr_module = ''dataflow'',
     cr_article = ''Art. 6'', cr_title = ''Legal basis required for every data flow'',
     cr_severity = ''critical'',
     cr_eval = checkHasEdge ''GDPR-FLOW-002'' ''critical'' ''DataFlow'' ''GOVERNED_BY''\<rparr>"

definition gdprFlow003 :: "'s compliance_rule" where
  "gdprFlow003 = (let rr = res ''GDPR-FLOW-003'' ''critical'' in
     \<lparr>cr_id = ''GDPR-FLOW-003'', cr_framework = ''gdpr'', cr_module = ''dataflow'',
      cr_article = ''Art. 44-49'', cr_title = ''International transfers require adequate safeguards'',
      cr_severity = ''critical'',
      cr_eval = (\<lambda>q. go_bind (q_nodes_by_label q ''DataFlow'') (\<lambda>fs. go_ret (concat (map (\<lambda>f.
        if \<not> EqualFold (propStr (ni_props f) ''transferType'') ''international'' then []
        else let safeguard = propStr (ni_props f) ''safeguard'' in
          if safeguard \<noteq> [] then [rr EvalPass (ni_id f) (''Safeguard: '' @ safeguard)]
          else [rr EvalFail (ni_id f) ''International transfer without safeguard'']) fs))))\<rparr>)"

text \<open>
  Whether a flow carries a special category cannot be seen through the querier; every branch of
  the loop goes on without a result.
\<close>

definition gdprFlow004 :: "'s compliance_rule" where
  "gdprFlow004 =
     \<lparr>cr_id = ''GDPR-FLOW-004'', cr_framework = ''gdpr'', cr_module = ''dataflow'',
      cr_article = ''Art. 9'', cr_title = ''Special category data flows require explicit consent'',
      cr_severity = ''critical'',
      cr_eval = (\<lambda>q. go_bind (q_nodes_by_label q ''DataFlow'') (\<lambda>fs. go_collect fs (\<lambda>f.
        go_bind (or_none (q_neighbors q (ni_id f))) (\<lambda>es.
        if \<not> hasEdgeLabel es ''CARRIES'' then go_ret []
        else let lb = propStr (ni_props f) ''legalBasis'' in
          if mentions_consent lb \<or> lb = [] then go_ret [] else go_ret []))))\<rparr>"

definition gdprFlow005 :: "'s compliance_rule" where
  "gdprFlow005 = (let rr = res ''GDPR-FLOW-005'' ''medium'' in
     \<lparr>cr_id = ''GDPR-FLOW-005'', cr_framework = ''gdpr'', cr_module = ''dataflow'',
      cr_article = ''Art. 30'', cr_title = ''Active processing activities should have data flows defined'',
      cr_severity = ''medium'',
      cr_eval = (\<lambda>q.
        go_bind (q_nodes_by_label q ''DataFlow'') (\<lambda>fs.
        go_bind (targets_of q ''FROM_ACTIVITY'' fs) (\<lambda>covered.
        go_bind (q_nodes_by_label q ''ProcessingActivity'') (\<lambda>activities.
        go_ret (concat (map (\<lambda>a.
          let status = propStr (ni_props a) ''status'' in
          if status \<noteq> [] \<and> status \<noteq> ''active'' then []
          else if ni_id a \<in> set covered then [rr EvalPass (ni_id a) ''Has data flow defined'']
          else [rr EvalWarning (ni_id a) ''No data flow defined for active activity'']) activities))))))\<rparr>)"

definition finding_result :: "(string \<Rightarrow> string \<Rightarrow> string \<Rightarrow> rule_result) \<Rightarrow> int \<Rightarrow> node_item \<Rightarrow> rule_result list" where
  "finding_result rr now f =
     (if propStr (ni_props f) ''status'' \<noteq> ''open'' then []
      else let targetStr = propStr (ni_props f) ''targetDate'' in
        if targetStr = [] then [rr EvalWarning (ni_id f) ''Open finding with no target date'']
        else case parse_deadline targetStr of
          None \<Rightarrow> []
        | Some target \<Rightarrow>
            if now > instant target
            then [rr EvalFail (ni_id f) (''Finding overdue since '' @ targetStr)]
            else [rr EvalPass (ni_id f) ''Finding within target date''])"

definition gdprInsp001 :: "'s compliance_rule" where
  "gdprInsp001 = \<lparr>cr_id = ''GDPR-INSP-001'', cr_framework = ''gdpr'', cr_module = ''inspection'',
     cr_article = ''Art. 5(2)'', cr_title = ''No inspection findings overdue'', cr_severity = ''high'',
     cr_eval = (\<lambda>q. go_bind (q_nodes_by_label q ''InspectionFinding'') (\<lambda>fs.
       go_bind time_now (\<lambda>now.
       go_ret (concat (map (finding_result (res ''GDPR-INSP-001'' ''high'') now) fs)))))\<rparr>"

definition gdprInsp002 :: "'s compliance_rule" where
  "gdprInsp002 = (let rr = res ''GDPR-INSP-002'' ''medium'' in
     \<lparr>cr_id = ''GDPR-INSP-002'', cr_framework = ''gdpr'', cr_module = ''inspection'',
      cr_article = ''Art. 5(2)'', cr_title = ''Completed remediations must be verified'',
      cr_severity = ''medium'',
      cr_eval = (\<lambda>q. go_bind (q_nodes_by_label q ''RemediationAction'') (\<lambda>as. go_ret (concat (map (\<lambda>a.
        if propStr (ni_props a) ''status'' \<noteq> ''completed'' then []
        else let verifiedBy = propStr (ni_props a) ''verifiedBy'' in
          if verifiedBy \<noteq> [] then [rr EvalPass (ni_id a) (''Remediation verified by '' @ verifiedBy)]
          else [rr EvalFail (ni_id a) ''Completed remediation not verified'']) as))))\<rparr>)"

definition dataflow_rules :: "'s compliance_rule list" where
  "dataflow_rules = [gdprFlow001, gdprFlow002, gdprFlow003, gdprFlow004, gdprFlow005, gdprInsp001,
     gdprInsp002]"

section \<open>Rules defined in YAML\<close>

text \<open>\<open>YAMLRuleDef\<close>, its nested \<open>Check\<close> flattened, and the quoting of \<open>%q\<close> as a parameter.\<close>

record yaml_rule_def =
  yd_id :: string
  yd_framework :: string
  yd_module :: string
  yd_article :: string
  yd_title :: string
  yd_severity :: string
  yd_node_label :: string
  yd_required :: "string list"
  yd_condition :: string
  yd_edge_label :: string

definition yaml_severity :: "yaml_rule_def \<Rightarrow> string" where
  "yaml_severity d = (if yd_severity d \<in> {''critical'', ''high'', ''medium'', ''low''}
     then yd_severity d else ''medium'')"

definition evaluatePropertyNotEmpty :: "yaml_rule_def \<Rightarrow> 's evaluation" where
  "evaluatePropertyNotEmpty d q =
     go_bind (q_nodes_by_label q (yd_node_label d)) (\<lambda>ns. go_ret (map (\<lambda>n.
       case find (\<lambda>p. propStr (ni_props n) p = []) (yd_required d) of
         None \<Rightarrow> res (yd_id d) (yaml_severity d) EvalPass (ni_id n) ''All required properties present''
       | Some missing \<Rightarrow>
           res (yd_id d) (yaml_severity d) EvalFail (ni_id n) (''Missing property: '' @ missing)) ns))"

definition evaluateHasEdge :: "yaml_rule_def \<Rightarrow> 's evaluation" where
  "evaluateHasEdge d = checkHasEdge (yd_id d) (yaml_severity d) (yd_node_label d) (yd_edge_label d)"

definition yaml_evaluate :: "(string \<Rightarrow> string) \<Rightarrow> yaml_rule_def \<Rightarrow> 's evaluation" where
  "yaml_evaluate quote d q =
     (if yd_node_label d = [] then go_raise (Msg (''yaml rule '' @ yd_id d @ '': nodeLabel is required''))
      else if yd_condition d = ''property_not_empty'' \<or> yd_condition d = [] then evaluatePropertyNotEmpty d q
      else if yd_condition d = ''has_edge'' then evaluateHasEdge d q
      else go_raise (Msg (''yaml rule '' @ yd_id d @ '': unknown condition '' @ quote (yd_condition d))))"

definition ToRule :: "(string \<Rightarrow> string) \<Rightarrow> yaml_rule_def \<Rightarrow> 's compliance_rule" where
  "ToRule quote d = \<lparr>cr_id = yd_id d, cr_framework = yd_framework d, cr_module = yd_module d,
     cr_article = yd_article d, cr_title = yd_title d, cr_severity = yaml_severity d,
     cr_eval = yaml_evaluate quote d\<rparr>"

end
