(* ===== verification/Go_Float.thy ===== *)
theory Go_Float
  imports Go_Value Complex_Main
begin

text \<open>
  float64 arithmetic on values that are not negative: a float is its value, a rational, and
  each operation rounds its exact result to 53 significant bits, ties to even. Results stay
  far from the bounds of the exponent here, so the range is not cut off.
\<close>

section \<open>Rounding\<close>

definition ilog2 :: "rat \<Rightarrow> int" where
  "ilog2 x = (case quotient_of x of (n, d) \<Rightarrow>
     let k = int (bit_len (nat n)) - int (bit_len (nat d)) in
     if 2 powi k \<le> x then k else k - 1)"

definition round_even :: "rat \<Rightarrow> int" where
  "round_even x = (let f = \<lfloor>x\<rfloor>; r = x - of_int f in
     if r < 1 / 2 then f else if r > 1 / 2 then f + 1 else if even f then f else f + 1)"

definition f64_round :: "rat \<Rightarrow> rat" where
  "f64_round x = (if x \<le> 0 then 0
     else let e = ilog2 x - 52 in of_int (round_even (x / 2 powi e)) * 2 powi e)"

text \<open>The bits of a rounded value.\<close>

definition f64_bits :: "rat \<Rightarrow> 64 word" where
  "f64_bits x = (if x \<le> 0 then 0
     else let e = ilog2 x - 52 in word_of_int ((e + 1075) * 2 ^ 52 + (\<lfloor>x / 2 powi e\<rfloor> - 2 ^ 52)))"

text \<open>Operations whose exact result is not negative.\<close>

definition f64_add :: "rat \<Rightarrow> rat \<Rightarrow> rat" where "f64_add x y = f64_round (x + y)"
definition f64_mul :: "rat \<Rightarrow> rat \<Rightarrow> rat" where "f64_mul x y = f64_round (x * y)"
definition f64_div :: "rat \<Rightarrow> rat \<Rightarrow> rat" where "f64_div x y = f64_round (x / y)"

section \<open>Laws of rounding\<close>

lemma bit_len_lower: "0 < n \<Longrightarrow> 2 ^ (bit_len n - 1) \<le> n"
proof (induction n rule: bit_len.induct)
  case (1 n)
  show ?case
  proof (cases "n div 2 = 0")
    case True
    with 1(2) show ?thesis by (simp add: bit_len_pos bit_len.simps [of 0])
  next
    case False
    with 1 have "2 ^ (bit_len (n div 2) - 1) \<le> n div 2" by simp
    moreover have "bit_len (n div 2) = Suc (bit_len (n div 2) - 1)" using False by (simp add: bit_len_pos)
    ultimately have "2 ^ bit_len (n div 2) \<le> 2 * (n div 2)" by (metis power_Suc mult_le_mono2)
    also have "\<dots> \<le> n" by simp
    finally show ?thesis using 1(2) by (simp add: bit_len_pos)
  qed
qed

lemma powi_two_mono: "i \<le> j \<Longrightarrow> 2 powi i \<le> (2 powi j :: rat)"
  by (simp add: power_int_increasing)

lemma powi_two_less: "2 powi i < (2 powi j :: rat) \<Longrightarrow> i < j"
  by (metis linorder_not_le powi_two_mono)

lemma ilog2_bounds:
  assumes "0 < x"
  shows "2 powi ilog2 x \<le> x" and "x < 2 powi (ilog2 x + 1)"
proof -
  obtain n d where q: "quotient_of x = (n, d)" by fastforce
  have d: "0 < d" using quotient_of_denom_pos [OF q] .
  have x: "x = of_int n / of_int d" using quotient_of_div [OF q] .
  with assms d have n: "0 < n" by (simp add: zero_less_divide_iff)
  define a b where "a = bit_len (nat n)" and "b = bit_len (nat d)"
  have ab: "0 < a" "0 < b" using n d by (simp_all add: a_def b_def bit_len_pos)
  have int: "2 ^ (bit_len (nat i) - 1) \<le> i \<and> i < 2 ^ bit_len (nat i)" if "0 < i" for i
  proof -
    have "int (2 ^ (bit_len (nat i) - 1)) \<le> int (nat i)" "int (nat i) < int (2 ^ bit_len (nat i))"
      using that by (simp_all only: of_nat_le_iff of_nat_less_iff bit_len_lower less_two_pow_bit_len zero_less_nat_eq)
    with that show ?thesis by simp
  qed
  have nb: "2 ^ (a - 1) \<le> n" "n < 2 ^ a" "2 ^ (b - 1) \<le> d" "d < 2 ^ b"
    using int [OF n] int [OF d] by (simp_all add: a_def b_def)
  have rb: "2 ^ (a - 1) \<le> (of_int n :: rat)" "(of_int n :: rat) < 2 ^ a"
    "2 ^ (b - 1) \<le> (of_int d :: rat)" "(of_int d :: rat) < 2 ^ b"
    using nb by (metis of_int_le_iff of_int_numeral of_int_power,
      metis of_int_less_iff of_int_numeral of_int_power,
      metis of_int_le_iff of_int_numeral of_int_power,
      metis of_int_less_iff of_int_numeral of_int_power)
  have p: "(2 :: rat) powi (int a - int b) = 2 ^ a / 2 ^ b"
    by (simp add: power_int_diff)
  have "x < 2 ^ a / 2 ^ (b - 1)" unfolding x
    using rb n d by (intro frac_less) auto
  also have "(2 :: rat) ^ a / 2 ^ (b - 1) = 2 powi (int a - int b + 1)"
    using ab by (cases b) (simp_all add: power_int_diff power_int_add)
  finally have upper: "x < 2 powi (int a - int b + 1)" .
  have "(2 :: rat) ^ (a - 1) / 2 ^ b < x" unfolding x
    using rb n d by (intro frac_less2) auto
  moreover have "(2 :: rat) ^ (a - 1) / 2 ^ b = 2 powi (int a - int b - 1)"
    using ab by (cases a) (simp_all add: power_int_diff power_int_add)
  ultimately have lower: "2 powi (int a - int b - 1) \<le> x" by simp
  have log: "ilog2 x = (if 2 powi (int a - int b) \<le> x then int a - int b else int a - int b - 1)"
    by (simp add: ilog2_def q a_def b_def)
  show "2 powi ilog2 x \<le> x" "x < 2 powi (ilog2 x + 1)"
    using log lower upper by (auto split: if_splits)
qed

lemma ilog2_unique:
  assumes "2 powi k \<le> x" and "x < 2 powi (k + 1)"
  shows "ilog2 x = k"
proof -
  have "0 < x" using assms(1) by (meson less_le_trans zero_less_numeral zero_less_power_int)
  note b = ilog2_bounds [OF this]
  have "2 powi k < (2 powi (ilog2 x + 1) :: rat)" "2 powi ilog2 x < (2 powi (k + 1) :: rat)"
    using assms b by linarith+
  then show ?thesis by (auto dest!: powi_two_less)
qed

lemma round_even_int [simp]: "round_even (of_int i) = i"
  by (simp add: round_even_def)

lemma round_even_floor: "\<lfloor>x\<rfloor> \<le> round_even x \<and> round_even x \<le> \<lfloor>x\<rfloor> + 1"
  by (simp add: round_even_def Let_def)

lemma round_even_mono:
  assumes "x \<le> y"
  shows "round_even x \<le> round_even y"
proof (cases "\<lfloor>x\<rfloor> = \<lfloor>y\<rfloor>")
  case True
  with assms show ?thesis by (auto simp: round_even_def Let_def)
next
  case False
  with floor_mono [OF assms] have "\<lfloor>x\<rfloor> + 1 \<le> \<lfloor>y\<rfloor>" by simp
  with round_even_floor [of x] round_even_floor [of y] show ?thesis by linarith
qed

lemma f64_round_eq:
  assumes "0 < x"
  shows "f64_round x = of_int (round_even (x / 2 powi (ilog2 x - 52))) * 2 powi (ilog2 x - 52)"
  using assms by (simp add: f64_round_def Let_def)

text \<open>A value of at most 53 bits is not changed.\<close>

lemma f64_exact:
  assumes "0 < m" and "m < 2 ^ 53"
  shows "f64_round (of_int m * 2 powi j) = of_int m * 2 powi j"
proof -
  let ?x = "of_int m * 2 powi j :: rat"
  have pos: "0 < ?x" using assms(1) by simp
  have "(of_int m :: rat) < 2 ^ 53" using assms(2) by (metis of_int_less_iff of_int_numeral of_int_power)
  then have "?x < 2 ^ 53 * 2 powi j" by simp
  also have "(2 :: rat) ^ 53 * 2 powi j = 2 powi (53 + j)" by (simp add: power_int_add)
  finally have "2 powi ilog2 ?x < (2 powi (53 + j) :: rat)" using ilog2_bounds(1) [OF pos] by linarith
  then have "ilog2 ?x - 52 \<le> j" by (auto dest!: powi_two_less)
  then obtain k where k: "j = ilog2 ?x - 52 + int k" by (metis zle_iff_zadd)
  define e where "e = ilog2 ?x - 52"
  have split: "?x = of_int (m * 2 ^ k) * 2 powi e"
    unfolding k [folded e_def] by (simp add: power_int_add)
  have "f64_round ?x = of_int (round_even (?x / 2 powi e)) * 2 powi e"
    by (simp only: f64_round_eq [OF pos] e_def)
  also have "?x / 2 powi e = of_int (m * 2 ^ k)" unfolding split by simp
  finally show ?thesis by (simp only: round_even_int split)
qed

lemma f64_round_nonneg: "0 \<le> f64_round x"
proof (cases "0 < x")
  case True
  have "0 \<le> round_even (x / 2 powi (ilog2 x - 52))"
    using round_even_mono [of 0 "x / 2 powi (ilog2 x - 52)"] round_even_int [of 0] True by simp
  then show ?thesis by (simp add: f64_round_eq [OF True])
qed (simp add: f64_round_def)

text \<open>A binade: the values from \<open>2 ^ k\<close> up to the next power of two stay between these.\<close>

lemma f64_round_binade:
  assumes "0 < x"
  shows "2 powi ilog2 x \<le> f64_round x" and "f64_round x \<le> 2 powi (ilog2 x + 1)"
proof -
  let ?e = "ilog2 x - 52"
  have split: "(2 :: rat) powi (ilog2 x) = of_int (2 ^ 52) * 2 powi ?e"
    "(2 :: rat) powi (ilog2 x + 1) = of_int (2 ^ 53) * 2 powi ?e"
    by (simp_all add: power_int_diff power_int_add)
  have "of_int (2 ^ 52) \<le> x / 2 powi ?e" "x / 2 powi ?e \<le> of_int (2 ^ 53)"
    using ilog2_bounds [OF assms] unfolding split by (simp_all add: field_simps)
  then have "2 ^ 52 \<le> round_even (x / 2 powi ?e)" "round_even (x / 2 powi ?e) \<le> 2 ^ 53"
    using round_even_mono round_even_int by metis+
  then show "2 powi ilog2 x \<le> f64_round x" "f64_round x \<le> 2 powi (ilog2 x + 1)"
    unfolding f64_round_eq [OF assms] split by (intro mult_right_mono; simp only: of_int_le_iff; simp)+
qed

lemma f64_round_mono:
  assumes "x \<le> y"
  shows "f64_round x \<le> f64_round y"
proof (cases "0 < x")
  case True
  then have y: "0 < y" using assms by simp
  have "2 powi ilog2 x < (2 powi (ilog2 y + 1) :: rat)"
    using ilog2_bounds(1) [OF True] ilog2_bounds(2) [OF y] assms by linarith
  from powi_two_less [OF this] consider "ilog2 x = ilog2 y" | "ilog2 x + 1 \<le> ilog2 y" by linarith
  then show ?thesis
  proof cases
    case 1
    have "round_even (x / 2 powi (ilog2 x - 52)) \<le> round_even (y / 2 powi (ilog2 x - 52))"
      using assms by (intro round_even_mono divide_right_mono) simp_all
    then show ?thesis unfolding f64_round_eq [OF True] f64_round_eq [OF y] 1 by (intro mult_right_mono) simp_all
  next
    case 2
    have "f64_round x \<le> 2 powi (ilog2 x + 1)" by (rule f64_round_binade(2) [OF True])
    also have "\<dots> \<le> 2 powi ilog2 y" by (rule powi_two_mono [OF 2])
    also have "\<dots> \<le> f64_round y" by (rule f64_round_binade(1) [OF y])
    finally show ?thesis .
  qed
next
  case False
  then have "f64_round x = 0" by (simp add: f64_round_def)
  with f64_round_nonneg [of y] show ?thesis by simp
qed

end
