(* ===== verification/Compliance_Engine.thy ===== *)
theory Compliance_Engine
  imports Compliance_Rules Go_Float
begin

text \<open>
  internal/compliance: engine.go (registering rules, scans and what they store), scoring.go,
  yaml_loader.go and scheduler.go. The engine's mutex guards its list of rules and its counter;
  each critical section is one step.
\<close>

section \<open>Scores\<close>

text \<open>The loop of \<open>CalculateScore\<close>: the weight passed and the total weight so far.\<close>

definition score_step :: "rat \<times> rat \<Rightarrow> rule_result \<Rightarrow> rat \<times> rat" where
  "score_step pt r = (case pt of (weightedPass, totalWeight) \<Rightarrow>
     if rr_status r = EvalNA then (weightedPass, totalWeight)
     else let w = Weight (rr_severity r) in
       (if rr_status r = EvalPass then f64_add weightedPass w else weightedPass,
        f64_add totalWeight w))"

definition CalculateScore :: "rule_result list \<Rightarrow> rat" where
  "CalculateScore results = (if results = [] then 100
     else case foldl score_step (0, 0) results of (weightedPass, totalWeight) \<Rightarrow>
       if totalWeight = 0 then 100
       else let score = f64_mul (f64_div weightedPass totalWeight) 100 in
         f64_div (of_int \<lfloor>f64_mul score 10\<rfloor>) 10)"

definition rule_module :: "'s compliance_rule list \<Rightarrow> string \<Rightarrow> string" where
  "rule_module rules rid =
     (case map_of (foldl (\<lambda>m r. AList.update (cr_id r) (cr_module r) m) [] rules) rid of
        None \<Rightarrow> ''unknown'' | Some m \<Rightarrow> if m = [] then ''unknown'' else m)"

definition ScoreByModule :: "rule_result list \<Rightarrow> 's compliance_rule list \<Rightarrow> (string \<times> rat) list" where
  "ScoreByModule results rules =
     (let modules = first_seen [] (map (\<lambda>r. rule_module rules (rr_rule r)) results) in
      map (\<lambda>m. (m, CalculateScore (filter (\<lambda>r. rule_module rules (rr_rule r) = m) results))) modules)"

section \<open>The engine\<close>

record 's compliance_engine =
  en_graph :: "'s graph"
  en_rules :: "'s compliance_rule list"
  en_seq :: int

definition NewEngine :: "'s graph \<Rightarrow> 's compliance_engine" where
  "NewEngine g = \<lparr>en_graph = g, en_rules = [], en_seq = 0\<rparr>"

definition on_graph :: "('s graph, 'a) go \<Rightarrow> ('s compliance_engine, 'a) go" where
  "on_graph m = (\<lambda>e. case m (en_graph e) of (r, g) \<Rightarrow> (r, e\<lparr>en_graph := g\<rparr>))"

definition RegisterRule :: "'s compliance_rule \<Rightarrow> ('s compliance_engine, unit) go" where
  "RegisterRule r = (\<lambda>e. (Ok (), e\<lparr>en_rules := en_rules e @ [r]\<rparr>))"

definition RegisterGDPRRules :: "('s compliance_engine, unit) go" where
  "RegisterGDPRRules = go_for gdpr_rules RegisterRule"

definition RegisterDataFlowRules :: "('s compliance_engine, unit) go" where
  "RegisterDataFlowRules = go_for dataflow_rules RegisterRule"

definition Rules :: "('s compliance_engine, 's compliance_rule list) go" where
  "Rules = (\<lambda>e. (Ok (en_rules e), e))"

definition RulesByFramework :: "string \<Rightarrow> ('s compliance_engine, 's compliance_rule list) go" where
  "RulesByFramework fw = (\<lambda>e. (Ok (filter (\<lambda>r. cr_framework r = fw) (en_rules e)), e))"

section \<open>Scans\<close>

record scan_request =
  sr_framework :: string
  sr_module :: string

record scan_result =
  sc_id :: string
  sc_framework :: string
  sc_triggered :: string
  sc_started :: int
  sc_completed :: int
  sc_pass :: nat
  sc_fail :: nat
  sc_warning :: nat
  sc_na :: nat
  sc_score :: rat
  sc_evaluations :: "rule_result list"

definition next_scan :: "('s compliance_engine, string) go" where
  "next_scan = (\<lambda>e. let n = next_ctr (en_seq e) in (Ok (''scan-'' @ show_int n), e\<lparr>en_seq := n\<rparr>))"

definition selected :: "scan_request \<Rightarrow> 's compliance_rule list \<Rightarrow> 's compliance_rule list" where
  "selected req = filter (\<lambda>r. (sr_framework req = [] \<or> cr_framework r = sr_framework req) \<and>
     (sr_module req = [] \<or> cr_module r = sr_module req))"

text \<open>What one rule adds to the results of a scan.\<close>

definition rule_outcome :: "'s compliance_rule \<Rightarrow> gerr + rule_result list \<Rightarrow> rule_result list" where
  "rule_outcome r x = (case x of
       Inl e \<Rightarrow> [res (cr_id r) (cr_severity r) EvalWarning [] (''evaluation error: '' @ error_text e)]
     | Inr [] \<Rightarrow> [res (cr_id r) (cr_severity r) EvalNA [] ''no applicable data'']
     | Inr rs \<Rightarrow> rs)"

text \<open>\<open>ctx k\<close> is \<open>ctx.Err()\<close> before the \<open>k\<close>-th selected rule.\<close>

fun evaluate_rules :: "'s querier \<Rightarrow> (nat \<Rightarrow> gerr option) \<Rightarrow> nat \<Rightarrow> 's compliance_rule list \<Rightarrow>
    ('s graph, rule_result list) go" where
  "evaluate_rules q ctx k [] = go_ret []"
| "evaluate_rules q ctx k (r # rs) = (case ctx k of
       Some e \<Rightarrow> go_raise e
     | None \<Rightarrow>
         go_bind (go_try (cr_eval r q)) (\<lambda>x.
         go_bind (evaluate_rules q ctx (Suc k) rs) (\<lambda>ys. go_ret (rule_outcome r x @ ys))))"

definition count_status :: "string \<Rightarrow> rule_result list \<Rightarrow> nat" where
  "count_status st rs = length (filter (\<lambda>r. rr_status r = st) rs)"

definition scan_result_of :: "string \<Rightarrow> string \<Rightarrow> int \<Rightarrow> int \<Rightarrow> rule_result list \<Rightarrow> scan_result" where
  "scan_result_of sid fw started completed rs =
     \<lparr>sc_id = sid, sc_framework = fw, sc_triggered = ''api'', sc_started = started,
      sc_completed = completed, sc_pass = count_status EvalPass rs, sc_fail = count_status EvalFail rs,
      sc_warning = count_status EvalWarning rs, sc_na = count_status EvalNA rs,
      sc_score = CalculateScore rs, sc_evaluations = rs\<rparr>"

text \<open>
  \<open>for _, n := range nodes\<close> with a label: the first whose property \<open>key\<close> is the string \<open>val\<close> is
  linked, errors are ignored.
\<close>

definition prop_is :: "props option \<Rightarrow> string \<Rightarrow> string \<Rightarrow> bool" where
  "prop_is ps key val \<longleftrightarrow> map_of (prop_list ps) key = Some (VStr val)"

definition link_first :: "'s storage_ops \<Rightarrow> string \<Rightarrow> string \<Rightarrow> string \<Rightarrow> (string \<Rightarrow> ('s graph, edge) go) \<Rightarrow>
    ('s graph, unit) go" where
  "link_first ops label key val link =
     go_bind (or_none (graph_NodesByLabel ops label)) (\<lambda>ns.
     case find (\<lambda>n. prop_is (n_props n) key val) ns of
       None \<Rightarrow> go_ret () | Some n \<Rightarrow> go_ignore (link (n_id n)))"

definition go_int :: "nat \<Rightarrow> gval" where
  "go_int n = VInt (word_of_nat n)"

definition scan_props :: "scan_result \<Rightarrow> props" where
  "scan_props r = [(''scanId'', VStr (sc_id r)), (''framework'', VStr (sc_framework r)),
     (''triggeredBy'', VStr (sc_triggered r)), (''startedAt'', VStr (rfc3339 (sc_started r))),
     (''completedAt'', VStr (rfc3339 (sc_completed r))), (''passCount'', go_int (sc_pass r)),
     (''failCount'', go_int (sc_fail r)), (''warningCount'', go_int (sc_warning r)),
     (''score'', VFloat (f64_bits (sc_score r)))]"

definition evaluation_props :: "scan_result \<Rightarrow> rule_result \<Rightarrow> props" where
  "evaluation_props r ev = [(''ruleId'', VStr (rr_rule ev)), (''status'', VStr (rr_status ev)),
     (''evaluatedAt'', VStr (rfc3339 (sc_completed r))), (''details'', VStr (rr_details ev)),
     (''severity'', VStr (rr_severity ev)), (''nodeId'', VStr (rr_node ev))]"

definition store_evaluation :: "'s storage_ops \<Rightarrow> scan_result \<Rightarrow> string \<Rightarrow> rule_result \<Rightarrow> ('s graph, unit) go" where
  "store_evaluation ops r scan ev =
     go_bind (go_try (CreateNode ops ''ComplianceEvaluation'' (Some (evaluation_props r ev)))) (\<lambda>x.
     case x of
       Inl _ \<Rightarrow> go_ret ()
     | Inr n \<Rightarrow>
         go_bind (go_ignore (CreateEdge ops ''PART_OF_SCAN'' (n_id n) scan None)) (\<lambda>_.
         link_first ops ''ComplianceRule'' ''ruleId'' (rr_rule ev)
           (\<lambda>rn. CreateEdge ops ''EVALUATED_BY'' rn (n_id n) None)))"

definition storeScanResults :: "'s storage_ops \<Rightarrow> scan_result \<Rightarrow> ('s graph, unit) go" where
  "storeScanResults ops r =
     go_bind (go_wrap ''create scan node'' (CreateNode ops ''ComplianceScan'' (Some (scan_props r)))) (\<lambda>scan.
     go_bind (link_first ops ''ComplianceFramework'' ''name'' (sc_framework r)
       (\<lambda>fn. CreateEdge ops ''SCOPED_TO'' (n_id scan) fn None)) (\<lambda>_.
     go_for (sc_evaluations r) (store_evaluation ops r (n_id scan))))"

text \<open>Two results, as in the code: a scan that cannot be stored is returned with the error.\<close>

definition RunScan :: "'s storage_ops \<Rightarrow> (nat \<Rightarrow> gerr option) \<Rightarrow> scan_request \<Rightarrow>
    ('s compliance_engine, scan_result option \<times> gerr option) go" where
  "RunScan ops ctx req =
     go_bind next_scan (\<lambda>sid.
     go_bind (on_graph time_now) (\<lambda>start.
     go_bind Rules (\<lambda>rules.
     go_bind (go_try (on_graph (evaluate_rules (graphAdapter ops) ctx 0 (selected req rules)))) (\<lambda>x.
     case x of
       Inl e \<Rightarrow> go_ret (None, Some e)
     | Inr rs \<Rightarrow>
         go_bind (on_graph time_now) (\<lambda>completed.
         let result = scan_result_of sid (sr_framework req) start completed rs in
         go_bind (go_try (on_graph (storeScanResults ops result))) (\<lambda>y.
         go_ret (Some result, case y of Inl e \<Rightarrow> Some (Wrap ''store scan results'' e) | Inr _ \<Rightarrow> None)))))))"

section \<open>Framework and rule nodes\<close>

definition ensure_framework :: "'s storage_ops \<Rightarrow> string \<Rightarrow> ('s graph, unit) go" where
  "ensure_framework ops fw =
     go_bind (or_none (graph_NodesByLabel ops ''ComplianceFramework'')) (\<lambda>existing.
     if list_ex (\<lambda>n. prop_is (n_props n) ''name'' fw) existing then go_ret ()
     else go_bind (go_wrap (''create framework node '' @ fw) (CreateNode ops ''ComplianceFramework''
       (Some [(''name'', VStr fw), (''version'', VStr ''1.0''), (''status'', VStr ''active'')])))
       (\<lambda>_. go_ret ()))"

definition rule_props :: "'s compliance_rule \<Rightarrow> props" where
  "rule_props r = [(''ruleId'', VStr (cr_id r)), (''framework'', VStr (cr_framework r)),
     (''module'', VStr (cr_module r)), (''article'', VStr (cr_article r)), (''title'', VStr (cr_title r)),
     (''severity'', VStr (cr_severity r))]"

definition ensure_rule :: "'s storage_ops \<Rightarrow> node list \<Rightarrow> 's compliance_rule \<Rightarrow> ('s graph, unit) go" where
  "ensure_rule ops existing r =
     (if list_ex (\<lambda>n. prop_is (n_props n) ''ruleId'' (cr_id r)) existing then go_ret ()
      else go_bind (go_try (CreateNode ops ''ComplianceRule'' (Some (rule_props r)))) (\<lambda>x. case x of
          Inl _ \<Rightarrow> go_ret ()
        | Inr n \<Rightarrow> link_first ops ''ComplianceFramework'' ''name'' (cr_framework r)
            (\<lambda>fn. CreateEdge ops ''DEFINES_RULE'' fn (n_id n) None)))"

definition EnsureFrameworkNodes :: "'s storage_ops \<Rightarrow> ('s compliance_engine, unit) go" where
  "EnsureFrameworkNodes ops =
     go_bind Rules (\<lambda>rules. on_graph (
       go_bind (go_for (first_seen [] (map cr_framework rules)) (ensure_framework ops)) (\<lambda>_.
       go_bind (or_none (graph_NodesByLabel ops ''ComplianceRule'')) (\<lambda>existing.
       go_for rules (ensure_rule ops existing)))))"

section \<open>Rules read from files\<close>

text \<open>The file system as the loader sees it, and \<open>yaml.Unmarshal\<close> into a definition.\<close>

datatype stat_result = NotExist | StatError gerr | PlainFile | Directory

record walk_entry =
  we_path :: string
  we_err :: "gerr option"
  we_dir :: bool

record loader_lib =
  ll_stat :: "string \<Rightarrow> stat_result"
  ll_walk :: "string \<Rightarrow> walk_entry list"
  ll_read :: "string \<Rightarrow> gerr + string"
  ll_yaml :: "string \<Rightarrow> gerr + yaml_rule_def"
  ll_quote :: "string \<Rightarrow> string"

text \<open>\<open>filepath.Ext\<close>.\<close>

definition path_ext :: "string \<Rightarrow> string" where
  "path_ext p = (let name = takeWhile (\<lambda>c. c \<noteq> CHR ''/'') (rev p) in
     if CHR ''.'' \<in> set name then CHR ''.'' # rev (takeWhile (\<lambda>c. c \<noteq> CHR ''.'') name) else [])"

definition loadYAMLFile :: "loader_lib \<Rightarrow> string \<Rightarrow> ('s compliance_engine, unit) go" where
  "loadYAMLFile F path = (case ll_read F path of
       Inl e \<Rightarrow> go_raise (Wrap (''read '' @ path) e)
     | Inr data \<Rightarrow> (case ll_yaml F data of
           Inl e \<Rightarrow> go_raise (Wrap (''parse '' @ path) e)
         | Inr d \<Rightarrow> if yd_id d = [] then go_raise (Msg (''rule in '' @ path @ '' has no id''))
             else RegisterRule (ToRule (ll_quote F) d)))"

definition load_entry :: "loader_lib \<Rightarrow> walk_entry \<Rightarrow> ('s compliance_engine, unit) go" where
  "load_entry F w = (case we_err w of
       Some e \<Rightarrow> go_raise e
     | None \<Rightarrow> if we_dir w \<or> path_ext (we_path w) \<notin> {''.yaml'', ''.yml''} then go_ret ()
         else loadYAMLFile F (we_path w))"

definition LoadYAMLRules :: "loader_lib \<Rightarrow> string \<Rightarrow> ('s compliance_engine, unit) go" where
  "LoadYAMLRules F dir = (if dir = [] then go_ret ()
     else case ll_stat F dir of
       NotExist \<Rightarrow> go_ret ()
     | StatError e \<Rightarrow> go_raise (Wrap ''stat rules dir'' e)
     | PlainFile \<Rightarrow> go_raise (Msg (dir @ '' is not a directory''))
     | Directory \<Rightarrow> go_for (ll_walk F dir) (load_entry F))"

definition ParseYAMLRule :: "loader_lib \<Rightarrow> string \<Rightarrow> gerr + yaml_rule_def" where
  "ParseYAMLRule F data = (case ll_yaml F data of
       Inl e \<Rightarrow> Inl e
     | Inr d \<Rightarrow> if yd_id d = [] then Inl (Msg ''rule has no id'') else Inr d)"

section \<open>The scheduler\<close>

text \<open>
  Ticks scan every framework once; \<open>ctx fw k\<close> is \<open>ctx.Err()\<close> in the scan of \<open>fw\<close>. A list of
  events that ends without \<open>Stop\<close> leaves the loop waiting.
\<close>

record scheduler =
  sd_interval :: int
  sd_auto :: bool

datatype sched_event = SchedTick "string \<Rightarrow> nat \<Rightarrow> gerr option" | Stop gerr

definition runAllFrameworks :: "'s storage_ops \<Rightarrow> (string \<Rightarrow> nat \<Rightarrow> gerr option) \<Rightarrow>
    ('s compliance_engine, unit) go" where
  "runAllFrameworks ops ctx =
     go_bind Rules (\<lambda>rules. go_for (first_seen [] (map cr_framework rules)) (\<lambda>fw.
       go_bind (RunScan ops (ctx fw) \<lparr>sr_framework = fw, sr_module = []\<rparr>) (\<lambda>_. go_ret ())))"

fun sched_loop :: "'s storage_ops \<Rightarrow> bool \<Rightarrow> sched_event list \<Rightarrow> ('s compliance_engine, gerr option) go" where
  "sched_loop ops active [] = go_ret None"
| "sched_loop ops active (Stop e # evs) = go_ret (Some e)"
| "sched_loop ops active (SchedTick ctx # evs) =
     go_bind (if active then runAllFrameworks ops ctx else go_ret ()) (\<lambda>_. sched_loop ops active evs)"

definition Scheduler_Run :: "'s storage_ops \<Rightarrow> scheduler \<Rightarrow> sched_event list \<Rightarrow>
    ('s compliance_engine, gerr option) go" where
  "Scheduler_Run ops s evs = sched_loop ops (sd_auto s \<and> 0 < sd_interval s) evs"

end
