(* ===== verification/Compliance_Inspection.thy ===== *)
theory Compliance_Inspection
  imports Compliance_Engine
begin

text \<open>
  internal/compliance: inspection.go (inspections, findings, remediations, sign-off and the audit
  log) and the validation of data flows in dataflow.go.
\<close>

section \<open>The audit log\<close>

definition event_props :: "string \<Rightarrow> int \<Rightarrow> string \<Rightarrow> string \<Rightarrow> string \<Rightarrow> props" where
  "event_props eventType now actor details related =
     [(''eventType'', VStr eventType), (''timestamp'', VStr (rfc3339 now)), (''actor'', VStr actor),
      (''details'', VStr details)] @
     (if related \<noteq> [] then [(''relatedNodeId'', VStr related)] else [])"

definition LogEvent :: "'s storage_ops \<Rightarrow> string \<Rightarrow> string \<Rightarrow> string \<Rightarrow> string \<Rightarrow> ('s graph, unit) go" where
  "LogEvent ops eventType actor details related =
     go_bind time_now (\<lambda>now.
     go_bind (go_try (CreateNode ops ''ComplianceEvent''
       (Some (event_props eventType now actor details related)))) (\<lambda>x. case x of
         Inl _ \<Rightarrow> go_ret ()
       | Inr n \<Rightarrow> if related = [] then go_ret ()
           else go_ignore (CreateEdge ops ''RELATES_TO'' (n_id n) related None)))"

section \<open>Inspections\<close>

text \<open>
  \<open>props["status"] == nil\<close> is a missing entry or a nil value; the caller's map is written to, so a
  nil map panics.
\<close>

definition stamped :: "string \<Rightarrow> int \<Rightarrow> props \<Rightarrow> props" where
  "stamped status now ps = AList.update ''createdAt'' (VStr (rfc3339 now))
     (if map_of ps ''status'' \<in> {None, Some VNil} then AList.update ''status'' (VStr status) ps else ps)"

definition with_stamp :: "string \<Rightarrow> props option \<Rightarrow> (props \<Rightarrow> ('s graph, 'a) go) \<Rightarrow> ('s graph, 'a) go" where
  "with_stamp status props f = (case props of
       None \<Rightarrow> go_panic
     | Some ps \<Rightarrow> go_bind time_now (\<lambda>now. f (stamped status now ps)))"

definition CreateInspection :: "'s storage_ops \<Rightarrow> props option \<Rightarrow> string list \<Rightarrow> string \<Rightarrow>
    ('s graph, node) go" where
  "CreateInspection ops props scope scanID =
     with_stamp ''draft'' props (\<lambda>ps.
     go_bind (go_wrap ''create inspection node'' (CreateNode ops ''Inspection'' (Some ps))) (\<lambda>n.
     go_bind (go_for scope (\<lambda>i. go_ignore (CreateEdge ops ''INSPECTS'' (n_id n) i None))) (\<lambda>_.
     go_bind (if scanID = [] then go_ret ()
       else link_first ops ''ComplianceScan'' ''scanId'' scanID
         (\<lambda>s. CreateEdge ops ''BASED_ON'' (n_id n) s None)) (\<lambda>_.
     go_bind (LogEvent ops ''inspection_created'' (propStr (Some ps) ''inspectorId'')
       (''Inspection '' @ n_id n @ '' created'') (n_id n)) (\<lambda>_.
     go_ret n)))))"

text \<open>The loop over the edges of an inspection, left at the first open finding.\<close>

fun check_findings :: "'s storage_ops \<Rightarrow> edge list \<Rightarrow> ('s graph, unit) go" where
  "check_findings ops [] = go_ret ()"
| "check_findings ops (e # es) =
     (if e_label e \<noteq> ''HAS_FINDING'' then check_findings ops es
      else go_bind (go_try (graph_GetNode ops (e_to e))) (\<lambda>x. case x of
          Inl _ \<Rightarrow> check_findings ops es
        | Inr finding \<Rightarrow>
            if propStr (n_props finding) ''status'' = ''open''
            then go_raise (Msg (''cannot sign off: finding '' @ n_id finding @ '' is still open''))
            else check_findings ops es))"

definition SignOffInspection :: "'s storage_ops \<Rightarrow> string \<Rightarrow> string \<Rightarrow> ('s graph, unit) go" where
  "SignOffInspection ops inspectionID approverID =
     go_bind (go_wrap ''get inspection'' (graph_GetNode ops inspectionID)) (\<lambda>n.
     go_bind (or_none (Neighbors ops inspectionID)) (\<lambda>es.
     go_bind (check_findings ops es) (\<lambda>_.
     go_bind time_now (\<lambda>now.
     go_bind (go_wrap ''update inspection status'' (UpsertNode ops inspectionID (n_label n)
       (Some [(''status'', VStr ''signed_off''), (''approverId'', VStr approverID),
              (''signedOffAt'', VStr (rfc3339 now))]))) (\<lambda>_.
     go_bind (link_first ops ''Agent'' ''agentId'' approverID
       (\<lambda>a. CreateEdge ops ''APPROVED_BY'' inspectionID a None)) (\<lambda>_.
     LogEvent ops ''inspection_signed_off'' approverID
       (''Inspection '' @ inspectionID @ '' signed off'') inspectionID))))))"

definition CreateFinding :: "'s storage_ops \<Rightarrow> string \<Rightarrow> props option \<Rightarrow> string list \<Rightarrow>
    ('s graph, node) go" where
  "CreateFinding ops inspectionID props affected =
     with_stamp ''open'' props (\<lambda>ps.
     go_bind (go_wrap ''create finding'' (CreateNode ops ''InspectionFinding'' (Some ps))) (\<lambda>n.
     go_bind (go_ignore (CreateEdge ops ''HAS_FINDING'' inspectionID (n_id n) None)) (\<lambda>_.
     go_bind (go_for affected (\<lambda>i. go_ignore (CreateEdge ops ''AFFECTS'' (n_id n) i None))) (\<lambda>_.
     go_bind (LogEvent ops ''finding_opened'' []
       (''Finding '' @ n_id n @ '' opened for inspection '' @ inspectionID) (n_id n)) (\<lambda>_.
     go_ret n)))))"

definition CreateRemediation :: "'s storage_ops \<Rightarrow> string \<Rightarrow> props option \<Rightarrow> ('s graph, node) go" where
  "CreateRemediation ops findingID props =
     with_stamp ''pending'' props (\<lambda>ps.
     go_bind (go_wrap ''create remediation'' (CreateNode ops ''RemediationAction'' (Some ps))) (\<lambda>n.
     go_bind (go_ignore (CreateEdge ops ''REMEDIATED_BY'' findingID (n_id n) None)) (\<lambda>_.
     go_bind (LogEvent ops ''remediation_created'' []
       (''Remediation '' @ n_id n @ '' created for finding '' @ findingID) (n_id n)) (\<lambda>_.
     go_ret n))))"

section \<open>Validating data flows\<close>

record validation_check =
  vc_rule :: string
  vc_status :: string
  vc_details :: string

record flow_validation =
  fv_id :: string
  fv_name :: string
  fv_overall :: string
  fv_checks :: "validation_check list"

definition vcheck :: "string \<Rightarrow> string \<Rightarrow> string \<Rightarrow> validation_check" where
  "vcheck rule st details = \<lparr>vc_rule = rule, vc_status = st, vc_details = details\<rparr>"

text \<open>Whether some category the flow carries is marked special.\<close>

fun carries_special :: "'s storage_ops \<Rightarrow> edge_item list \<Rightarrow> ('s graph, bool) go" where
  "carries_special ops [] = go_ret False"
| "carries_special ops (e # es) =
     (if ei_label e \<noteq> ''CARRIES'' then carries_special ops es
      else go_bind (go_try (graph_GetNode ops (ei_to e))) (\<lambda>x. case x of
          Inl _ \<Rightarrow> carries_special ops es
        | Inr n \<Rightarrow> if map_of (prop_list (n_props n)) ''isSpecial'' = Some (VBool True) then go_ret True
            else carries_special ops es))"

definition flow_checks :: "node_item \<Rightarrow> edge_item list \<Rightarrow> bool \<Rightarrow> validation_check list" where
  "flow_checks f es special =
     [if hasEdgeLabel es ''CARRIES'' then vcheck ''GDPR-FLOW-001'' EvalPass ''Data categories documented''
      else vcheck ''GDPR-FLOW-001'' EvalFail
        (''No CARRIES edge '' @ em_dash @ '' data categories not documented''),
      if hasEdgeLabel es ''GOVERNED_BY'' then vcheck ''GDPR-FLOW-002'' EvalPass ''Legal basis documented''
      else vcheck ''GDPR-FLOW-002'' EvalFail (''No GOVERNED_BY edge '' @ em_dash @ '' legal basis missing''),
      if EqualFold (propStr (ni_props f) ''transferType'') ''international''
      then let safeguard = propStr (ni_props f) ''safeguard'' in
        if safeguard \<noteq> []
        then vcheck ''GDPR-FLOW-003'' EvalPass (''International transfer safeguard: '' @ safeguard)
        else vcheck ''GDPR-FLOW-003'' EvalFail ''International transfer without SCC or adequacy decision''
      else vcheck ''GDPR-FLOW-003'' EvalNA ''Not an international transfer'',
      if special
      then if mentions_consent (propStr (ni_props f) ''legalBasis'')
        then vcheck ''GDPR-FLOW-004'' EvalPass ''Special category data with explicit consent''
        else vcheck ''GDPR-FLOW-004'' EvalFail ''Special category data without explicit consent basis''
      else vcheck ''GDPR-FLOW-004'' EvalNA ''No special category data'']"

text \<open>The loop that computes the overall status, left at the first failed check.\<close>

fun overall_status :: "string \<Rightarrow> validation_check list \<Rightarrow> string" where
  "overall_status acc [] = acc"
| "overall_status acc (c # cs) =
     (if vc_status c = EvalFail then EvalFail
      else if vc_status c = EvalWarning \<and> acc \<noteq> EvalFail then overall_status EvalWarning cs
      else overall_status acc cs)"

definition SummaryText :: "validation_check list \<Rightarrow> string" where
  "SummaryText cs = show_nat (length (filter (\<lambda>c. vc_status c = EvalPass) cs)) @ '' pass, '' @
     show_nat (length (filter (\<lambda>c. vc_status c = EvalFail) cs)) @ '' fail''"

definition validate_flow :: "'s storage_ops \<Rightarrow> int \<Rightarrow> string \<Rightarrow> node_item \<Rightarrow> ('s graph, flow_validation list) go" where
  "validate_flow ops now inspectionID f =
     go_bind (or_none (q_neighbors (graphAdapter ops) (ni_id f))) (\<lambda>es.
     go_bind (carries_special ops es) (\<lambda>special.
     let checks = flow_checks f es special;
         v = \<lparr>fv_id = ni_id f, fv_name = propStr (ni_props f) ''name'',
              fv_overall = overall_status EvalPass checks, fv_checks = checks\<rparr> in
     go_bind (go_try (CreateNode ops ''DataFlowValidation'' (Some
       [(''flowId'', VStr (ni_id f)), (''status'', VStr (fv_overall v)),
        (''details'', VStr (SummaryText checks)), (''validatedAt'', VStr (rfc3339 now))]))) (\<lambda>x.
     go_bind (case x of
         Inl _ \<Rightarrow> go_ret ()
       | Inr n \<Rightarrow> go_bind (go_ignore (CreateEdge ops ''VALIDATES'' (n_id n) (ni_id f) None)) (\<lambda>_.
           if inspectionID = [] then go_ret ()
           else go_ignore (CreateEdge ops ''PART_OF_INSPECTION'' (n_id n) inspectionID None))) (\<lambda>_.
     go_ret [v]))))"

text \<open>Active activities that no flow starts from; \<open>quote\<close> is \<open>%q\<close>.\<close>

definition activity_gap :: "(string \<Rightarrow> string) \<Rightarrow> string list \<Rightarrow> node_item \<Rightarrow> flow_validation list" where
  "activity_gap quote covered a =
     (let status = propStr (ni_props a) ''status''; name = propStr (ni_props a) ''name'' in
      if status \<noteq> [] \<and> status \<noteq> ''active'' \<or> ni_id a \<in> set covered then []
      else [\<lparr>fv_id = ni_id a, fv_name = name, fv_overall = EvalWarning,
             fv_checks = [vcheck ''GDPR-FLOW-005'' EvalWarning
               (''ProcessingActivity '' @ quote name @ '' has no DataFlow defined'')]\<rparr>])"

definition ValidateDataFlows :: "(string \<Rightarrow> string) \<Rightarrow> 's storage_ops \<Rightarrow> string \<Rightarrow>
    ('s graph, flow_validation list) go" where
  "ValidateDataFlows quote ops inspectionID =
     (let q = graphAdapter ops in
      go_bind (go_wrap ''query data flows'' (q_nodes_by_label q ''DataFlow'')) (\<lambda>flows.
      go_bind time_now (\<lambda>now.
      go_bind (go_collect flows (validate_flow ops now inspectionID)) (\<lambda>results.
      go_bind (or_none (q_nodes_by_label q ''ProcessingActivity'')) (\<lambda>activities.
      go_bind (targets_of q ''FROM_ACTIVITY'' flows) (\<lambda>covered.
      let gaps = concat (map (activity_gap quote covered) activities) in
      go_bind (LogEvent ops ''dataflow_validation'' []
        (''Validated '' @ show_nat (length flows) @ '' data flows'') inspectionID) (\<lambda>_.
      go_ret (results @ gaps))))))))"

end
