(* ===== verification/Compliance_Laws.thy ===== *)
theory Compliance_Laws
  imports Compliance_Inspection Cypher_Semantics
begin

text \<open>
  What compliance operations do to any graph storage: every effect is a step of the engine's
  public interface, and none panics except writing into a nil map. The contract of the querier that
  rules read through is a locale; the adapter over the graph meets it.
\<close>

section \<open>The contract of the querier\<close>

locale rule_querier =
  fixes q :: "'s querier"
    and okay :: "'s graph \<Rightarrow> bool"
    and items :: "'s graph \<Rightarrow> string \<Rightarrow> node_item list"
    and links :: "'s graph \<Rightarrow> string \<Rightarrow> edge_item list"
  assumes q_nodes: "okay g \<Longrightarrow> colon_free l \<Longrightarrow> q_nodes_by_label q l g = (Ok (items g l), g)"
    and q_edges: "okay g \<Longrightarrow> q_neighbors q i g = (Ok (links g i), g)"
    and q_tick: "okay g \<Longrightarrow> okay (g\<lparr>g_tick := t\<rparr>) \<and> items (g\<lparr>g_tick := t\<rparr>) = items g \<and>
      links (g\<lparr>g_tick := t\<rparr>) = links g"
begin

lemma q_bind: "okay g \<Longrightarrow> colon_free l \<Longrightarrow> go_bind (q_nodes_by_label q l) f g = f (items g l) g"
  by (simp add: go_bind_def q_nodes)

lemma or_none_edges: "okay g \<Longrightarrow> or_none (q_neighbors q i) g = (Ok (links g i), g)"
  by (simp add: or_none_def q_edges go_bind_def go_try_def go_ret_def)

lemma or_none_nodes: "okay g \<Longrightarrow> colon_free l \<Longrightarrow> or_none (q_nodes_by_label q l) g = (Ok (items g l), g)"
  by (simp add: or_none_def q_nodes go_bind_def go_try_def go_ret_def)

lemma collect_edges:
  assumes "okay g"
  shows "go_collect ns (\<lambda>n. go_bind (or_none (q_neighbors q (ni_id n))) (\<lambda>es. go_ret (f n es))) g =
    (Ok (concat (map (\<lambda>n. f n (links g (ni_id n))) ns)), g)"
  by (induction ns) (simp_all add: go_bind_def or_none_edges [OF assms] go_ret_def)

lemma targets_run:
  "okay g \<Longrightarrow> targets_of q label ns g =
    (Ok (concat (map (\<lambda>n. map ei_to (filter (\<lambda>e. ei_label e = label) (links g (ni_id n)))) ns)), g)"
  unfolding targets_of_def by (rule collect_edges)

lemma checkPropertyNotEmpty_run:
  "okay g \<Longrightarrow> colon_free label \<Longrightarrow> checkPropertyNotEmpty rule sev label prop q g =
    (Ok (map (\<lambda>n. if propStr (ni_props n) prop = []
       then res rule sev EvalFail (ni_id n) (label @ '' missing '' @ prop)
       else res rule sev EvalPass (ni_id n) (label @ '' has '' @ prop)) (items g label)), g)"
  by (simp add: checkPropertyNotEmpty_def go_bind_def q_nodes go_ret_def)

lemma checkHasEdge_run:
  assumes "okay g" and "colon_free label"
  shows "checkHasEdge rule sev label el q g =
    (Ok (map (\<lambda>n. if hasEdgeLabel (links g (ni_id n)) el
       then res rule sev EvalPass (ni_id n) (label @ '' has '' @ el @ '' edge'')
       else res rule sev EvalFail (ni_id n) (label @ '' missing '' @ el @ '' edge'')) (items g label)), g)"
proof -
  have sing: "concat (map (\<lambda>n. [h n]) ns) = map h ns" for h :: "node_item \<Rightarrow> rule_result" and ns
    by (induction ns) simp_all
  show ?thesis
    unfolding checkHasEdge_def by (simp add: q_bind [OF assms] collect_edges [OF assms(1)] sing)
qed

end

section \<open>Operations as steps\<close>

lemma safe_ignore [safes]: "go_safe P m \<Longrightarrow> go_safe P (go_ignore m)"
  unfolding go_ignore_def by (intro safes)

lemma safe_or_none [safes]: "go_safe P m \<Longrightarrow> go_safe P (or_none m)"
  unfolding or_none_def by (intro safes)

lemma safe_on_graph:
  assumes "go_safe P m"
  shows "go_safe (\<lambda>e. P (en_graph e)) (on_graph m)"
proof (rule go_safeI)
  fix e :: "'a compliance_engine" assume "P (en_graph e)"
  with go_safeD [OF assms this] show "P (en_graph (snd (on_graph m e))) \<and> fst (on_graph m e) \<noteq> Panic"
    by (simp add: on_graph_def split: prod.split) (metis fst_conv snd_conv)
qed

lemma safe_if: "(c \<Longrightarrow> go_safe P a) \<Longrightarrow> (\<not> c \<Longrightarrow> go_safe P b) \<Longrightarrow> go_safe P (if c then a else b)"
  by simp

text \<open>The rules that are registered: the code's own, and those of YAML files.\<close>

definition known_rule :: "(string \<Rightarrow> string) \<Rightarrow> 's compliance_rule \<Rightarrow> bool" where
  "known_rule quote r \<longleftrightarrow> r \<in> set gdpr_rules \<or> r \<in> set dataflow_rules \<or>
     (\<exists>d. colon_free (yd_node_label d) \<and> r = ToRule quote d)"

lemmas rule_defs = gdprSetup001_def gdprRopa001_def gdprRopa002_def gdprRopa003_def gdprRopa004_def
  gdprDSR001_def gdprDSR002_def gdprBreach001_def gdprBreach002_def gdprDPIA001_def gdprDPIA002_def
  gdprProc001_def gdprEvidence001_def gdprFlow001_def gdprFlow002_def gdprFlow003_def gdprFlow004_def
  gdprFlow005_def gdprInsp001_def gdprInsp002_def

lemma event_props_ok: "props_ok (Some (event_props a b c d e))"
  by (simp add: props_ok_def event_props_def)

lemma stamped_ok: "props_ok (Some ps) \<Longrightarrow> props_ok (Some (stamped st now ps))"
  by (simp add: props_ok_def stamped_def)

lemma small_props_ok:
  "props_ok None" "props_ok (Some (scan_props r))" "props_ok (Some (evaluation_props r ev))"
  "props_ok (Some (rule_props cr))"
  by (simp_all add: props_ok_def scan_props_def evaluation_props_def rule_props_def)

text \<open>
  Grades of soundness: a consistent graph, which also has no dangling edge, and whose nodes also
  all have a property map.
\<close>

datatype grade = Consistent | Linked | Mapped

definition node_maps :: "(string \<Rightarrow> node option) \<Rightarrow> bool" where
  "node_maps N \<longleftrightarrow> (\<forall>i n. N i = Some n \<longrightarrow> n_props n \<noteq> None)"

lemma node_maps_upd: "node_maps N \<Longrightarrow> n_props n \<noteq> None \<Longrightarrow> node_maps (N(i \<mapsto> n))"
  by (simp add: node_maps_def)

lemma node_json_map: "node_json n = Some m \<Longrightarrow> n_props n = Some ps \<Longrightarrow> n_props m \<noteq> None"
  using node_json_fields(4) [of n m] by (auto simp: props_json_Some)

lemma merged_map: "merge_props old ps = Some p \<Longrightarrow> old \<noteq> None \<Longrightarrow> p \<noteq> None"
  by (auto simp: merge_props_def)

context graph_storage
begin

definition sound :: "grade \<Rightarrow> 's graph \<Rightarrow> bool" where
  "sound M g \<longleftrightarrow> g_inv g \<and> (M \<noteq> Consistent \<longrightarrow> no_dangling (g_nodes g) (g_edges g)) \<and>
     (M = Mapped \<longrightarrow> node_maps (g_nodes g))"

lemma sound_cong:
  "g_inv g' \<Longrightarrow> g_nodes g' = g_nodes g \<Longrightarrow> g_edges g' = g_edges g \<Longrightarrow> sound M g \<Longrightarrow> sound M g'"
  by (simp add: sound_def)

lemma sound_time_now [safes]: "go_safe (sound M) time_now"
  by (rule go_safeI) (simp add: time_now_def sound_def)

lemma sound_reads:
  assumes "\<And>s. inv s \<Longrightarrow> snd (m s) = s \<and> fst (m s) \<noteq> Panic"
  shows "go_safe (sound M) (on_store m)"
proof (rule go_safeI)
  fix g assume g: "sound M g"
  obtain r s where rs: "m (g_store g) = (r, s)" by fastforce
  with assms [of "g_store g"] g have "s = g_store g" "r \<noteq> Panic" by (simp_all add: sound_def)
  with g rs show "sound M (snd (on_store m g)) \<and> fst (on_store m g) \<noteq> Panic"
    by (simp add: on_store_def sound_def)
qed

lemma sound_get_node [safes]: "go_safe (sound M) (graph_GetNode ops i)"
  unfolding graph_GetNode_def by (rule sound_reads) (simp add: get_node split: option.split)

lemma sound_nodes [safes]: "colon_free l \<Longrightarrow> go_safe (sound M) (graph_NodesByLabel ops l)"
  unfolding graph_NodesByLabel_def by (rule sound_reads) (metis nodes_by_label fst_conv snd_conv outcome.distinct(3))

lemma sound_neighbors [safes]: "go_safe (sound M) (Neighbors ops i)"
  unfolding Neighbors_def by (rule sound_reads) (metis edges_by_node fst_conv snd_conv outcome.distinct(3))

lemma sound_create_node [safes]:
  assumes "colon_free l" and "props_ok (Some ps)"
  shows "go_safe (sound M) (CreateNode ops l (Some ps))"
proof (rule go_safeI)
  fix g assume g: "sound M g"
  obtain r g' where run: "CreateNode ops l (Some ps) g = (r, g')" by fastforce
  have inv: "g_inv g" using g by (simp add: sound_def)
  note spec = create_node [OF inv assms run]
  have "no_dangling (g_nodes g') (g_edges g')" if "M \<noteq> Consistent"
    using api_step_no_dangling [OF step_create_node [OF assms run] inv] g that by (simp add: sound_def)
  moreover have "node_maps (g_nodes g')" if "node_maps (g_nodes g)"
  proof (cases r)
    case (Ok n)
    with spec obtain m where "n = new_node g l (Some ps)" "node_json n = Some m"
      "g_nodes g' = (g_nodes g)(n_id n \<mapsto> m)" by blast
    with that show ?thesis
      by (simp add: node_maps_upd node_json_map [of n m ps] new_node_def)
  qed (use spec that in auto)
  ultimately show "sound M (snd (CreateNode ops l (Some ps) g)) \<and> fst (CreateNode ops l (Some ps) g) \<noteq> Panic"
    using spec g run by (simp add: sound_def)
qed

lemma sound_create_edge [safes]:
  assumes "colon_free l" and "props_ok p"
  shows "go_safe (sound M) (CreateEdge ops l a b p)"
proof (rule go_safeI)
  fix g assume g: "sound M g"
  obtain r g' where run: "CreateEdge ops l a b p g = (r, g')" by fastforce
  have inv: "g_inv g" using g by (simp add: sound_def)
  note spec = create_edge [OF inv assms run]
  have "no_dangling (g_nodes g') (g_edges g')" if "M \<noteq> Consistent"
    using api_step_no_dangling [OF step_create_edge [OF assms run] inv] g that by (simp add: sound_def)
  then show "sound M (snd (CreateEdge ops l a b p g)) \<and> fst (CreateEdge ops l a b p g) \<noteq> Panic"
    using spec g run by (cases r) (auto simp: sound_def)
qed

lemma upsert_sound:
  assumes lp: "colon_free l" "props_ok p" and g: "sound M g"
    and run: "UpsertNode ops i l p g = (r, g')"
  shows "sound M g'" and "M = Mapped \<Longrightarrow> r \<noteq> Panic"
proof -
  have inv: "g_inv g" using g by (simp add: sound_def)
  note spec = upsert_node [OF inv lp run]
  have nd: "no_dangling (g_nodes g') (g_edges g')" if "M \<noteq> Consistent"
    using api_step_no_dangling [OF step_upsert_node [OF lp run] inv] g that by (simp add: sound_def)
  have doc: "n_props n \<noteq> None" if "node_maps (g_nodes g)" "upsert_node_doc g i l p (g_nodes g i) = Some n" for n
    using that by (auto simp: upsert_node_doc_def node_maps_def split: option.splits dest: merged_map)
  have maps: "node_maps (g_nodes g')" if mp: "node_maps (g_nodes g)"
  proof (cases "\<exists>n. r = Ok n")
    case True
    with spec obtain n m where nm: "upsert_node_doc g i l p (g_nodes g i) = Some n" "node_json n = Some m"
      "g_nodes g' = (g_nodes g)(i \<mapsto> m)" by blast
    then obtain ps where "n_props n = Some ps" using doc [OF mp nm(1)] by blast
    with nm mp show ?thesis by (simp add: node_maps_upd node_json_map [of n m ps])
  qed (use spec mp in auto)
  show "sound M g'" using spec nd maps g by (simp add: sound_def)
  assume M: "M = Mapped"
  have "\<exists>n. upsert_node_doc g i l p (g_nodes g i) = Some n"
  proof (cases "g_nodes g i")
    case (Some o')
    with M g have "n_props o' \<noteq> None" by (simp add: sound_def node_maps_def)
    with Some show ?thesis by (auto simp: upsert_node_doc_def merge_props_def)
  qed (simp add: upsert_node_doc_def)
  with spec show "r \<noteq> Panic" by auto
qed

lemma sound_upsert_node [safes]:
  "colon_free l \<Longrightarrow> props_ok p \<Longrightarrow> go_safe (sound Mapped) (UpsertNode ops i l p)"
  using upsert_sound [of l p Mapped _ i] by (intro go_safeI) (metis prod.collapse)

lemma keeps_upsert_node [keeps]:
  "colon_free l \<Longrightarrow> props_ok p \<Longrightarrow> go_keeps (sound M) (UpsertNode ops i l p)"
  using upsert_sound(1) [of l p M _ i] by (intro go_keepsI) (metis prod.collapse)

lemma sound_link_first [safes]:
  assumes "colon_free label" and "\<And>i. go_safe (sound M) (link i)"
  shows "go_safe (sound M) (link_first ops label key val link)"
  unfolding link_first_def
  by (intro safes assms(1)) (auto split: option.split intro!: safes assms(2))

lemma sound_adapter [safes]:
  "colon_free l \<Longrightarrow> go_safe (sound M) (q_nodes_by_label (graphAdapter ops) l)"
  "go_safe (sound M) (q_neighbors (graphAdapter ops) i)"
  by (auto simp: graphAdapter_def intro!: safes)

lemma sound_log [safes]: "go_safe (sound M) (LogEvent ops et actor details related)"
  unfolding LogEvent_def
  by (intro safes event_props_ok) (auto split: sum.split intro!: safes small_props_ok)

lemma sound_store_evaluation [safes]: "go_safe (sound M) (store_evaluation ops r scan ev)"
  unfolding store_evaluation_def
  by (intro safes small_props_ok) (auto split: sum.split intro!: safes small_props_ok)

lemma sound_store_scan [safes]: "go_safe (sound M) (storeScanResults ops r)"
  unfolding storeScanResults_def by (intro safes small_props_ok) simp_all

lemma sound_ensure_framework [safes]: "go_safe (sound M) (ensure_framework ops fw)"
  unfolding ensure_framework_def by (intro safes safe_if) (simp_all add: props_ok_def)

lemma sound_ensure_rule [safes]: "go_safe (sound M) (ensure_rule ops ns r)"
  unfolding ensure_rule_def
  by (intro safes safe_if small_props_ok) (auto split: sum.split intro!: safes small_props_ok)

lemma sound_property_check [safes]:
  "colon_free label \<Longrightarrow> go_safe (sound M) (checkPropertyNotEmpty rule sev label p (graphAdapter ops))"
  unfolding checkPropertyNotEmpty_def by (intro safes)

lemma sound_edge_check [safes]:
  "colon_free label \<Longrightarrow> go_safe (sound M) (checkHasEdge rule sev label p (graphAdapter ops))"
  unfolding checkHasEdge_def by (intro safes)

lemma sound_targets [safes]: "go_safe (sound M) (targets_of (graphAdapter ops) label ns)"
  unfolding targets_of_def by (intro safes)

lemma sound_gdpr_rule: "r \<in> set gdpr_rules \<Longrightarrow> go_safe (sound M) (cr_eval r (graphAdapter ops))"
  by (auto simp: gdpr_rules_def rule_defs Let_def intro!: safes safe_if)

lemma sound_dataflow_rule: "r \<in> set dataflow_rules \<Longrightarrow> go_safe (sound M) (cr_eval r (graphAdapter ops))"
  by (auto simp: dataflow_rules_def rule_defs Let_def intro!: safes safe_if)

lemma sound_known_rule:
  assumes "known_rule quote r"
  shows "go_safe (sound M) (cr_eval r (graphAdapter ops))"
proof -
  have "go_safe (sound M) (yaml_evaluate quote d (graphAdapter ops))" if "colon_free (yd_node_label d)" for d
    using that by (auto simp: yaml_evaluate_def evaluatePropertyNotEmpty_def evaluateHasEdge_def intro!: safes)
  with assms sound_gdpr_rule sound_dataflow_rule show ?thesis by (auto simp: known_rule_def ToRule_def)
qed

lemma sound_evaluate_rules:
  "list_all (known_rule quote) rs \<Longrightarrow> go_safe (sound M) (evaluate_rules (graphAdapter ops) ctx k rs)"
  by (induction rs arbitrary: k) (auto split: option.split intro!: safes sound_known_rule)

section \<open>Engine and inspections\<close>

abbreviation sound_engine :: "(string \<Rightarrow> string) \<Rightarrow> grade \<Rightarrow> 's compliance_engine \<Rightarrow> bool" where
  "sound_engine quote M e \<equiv> sound M (en_graph e) \<and> list_all (known_rule quote) (en_rules e)"

lemma sound_on_graph:
  assumes "go_safe (sound M) m"
  shows "go_safe (sound_engine quote M) (on_graph m)"
proof (rule go_safeI)
  fix e assume e: "sound_engine quote M e"
  obtain r g where "m (en_graph e) = (r, g)" by fastforce
  with go_safeD [OF assms, of "en_graph e"] e
  show "sound_engine quote M (snd (on_graph m e)) \<and> fst (on_graph m e) \<noteq> Panic"
    by (simp add: on_graph_def)
qed

lemma safe_with_rules:
  assumes "\<And>rs. list_all (known_rule quote) rs \<Longrightarrow> go_safe (sound_engine quote M) (f rs)"
  shows "go_safe (sound_engine quote M) (go_bind Rules f)"
proof (rule go_safeI)
  fix e assume e: "sound_engine quote M e"
  with go_safeD [OF assms e]
  show "sound_engine quote M (snd (go_bind Rules f e)) \<and> fst (go_bind Rules f e) \<noteq> Panic"
    by (simp add: Rules_def go_bind_def)
qed

lemma sound_run_scan: "go_safe (sound_engine quote M) (RunScan ops ctx req)"
proof -
  have next_scan: "go_safe (sound_engine quote M) next_scan"
    by (rule go_safeI) (simp add: next_scan_def Let_def)
  have pick: "list_all (known_rule quote) (selected req rs)" if "list_all (known_rule quote) rs"
    for rs :: "'s compliance_rule list"
    using that by (auto simp: selected_def list_all_iff)
  have eval: "go_safe (sound_engine quote M) (go_try (on_graph
      (evaluate_rules (graphAdapter ops) ctx 0 (selected req rs))))" if "list_all (known_rule quote) rs" for rs
    by (intro safe_try sound_on_graph sound_evaluate_rules [where quote = quote] pick that)
  show ?thesis unfolding RunScan_def Let_def
    by (rule safe_bind [OF next_scan], rule safe_bind [OF sound_on_graph [OF sound_time_now]],
        rule safe_with_rules, rule safe_bind [OF eval])
      (auto split: sum.split intro!: safe_bind sound_on_graph safe_try safe_ret safes)
qed

lemma sound_ensure: "go_safe (sound_engine quote M) (EnsureFrameworkNodes ops)"
  unfolding EnsureFrameworkNodes_def
  by (intro safe_with_rules sound_on_graph safes) simp

lemma sound_run_all: "go_safe (sound_engine quote M) (runAllFrameworks ops ctx)"
  unfolding runAllFrameworks_def
  by (intro safe_with_rules safe_for safe_bind sound_run_scan safe_ret)

lemma sound_with_stamp:
  assumes "props_ok (Some ps)" and "\<And>qs. props_ok (Some qs) \<Longrightarrow> go_safe (sound M) (f qs)"
  shows "go_safe (sound M) (with_stamp st (Some ps) f)"
  using assms by (auto simp: with_stamp_def intro!: safes stamped_ok)

lemma sound_inspection:
  assumes "props_ok (Some ps)"
  shows "go_safe (sound M) (CreateInspection ops (Some ps) scope scan)"
    and "go_safe (sound M) (CreateFinding ops i (Some ps) affected)"
    and "go_safe (sound M) (CreateRemediation ops i (Some ps))"
  unfolding CreateInspection_def CreateFinding_def CreateRemediation_def
  by (auto intro!: sound_with_stamp [OF assms] safes small_props_ok)

lemma sound_check_findings [safes]: "go_safe (sound M) (check_findings ops es)"
  by (induction es) (auto split: sum.split intro!: safes)

text \<open>Signing off, after the inspection has been read.\<close>

definition sign_off_node :: "string \<Rightarrow> string \<Rightarrow> node \<Rightarrow> ('s graph, unit) go" where
  "sign_off_node i approver n =
     go_bind time_now (\<lambda>now.
     go_bind (go_wrap ''update inspection status'' (UpsertNode ops i (n_label n)
       (Some [(''status'', VStr ''signed_off''), (''approverId'', VStr approver),
              (''signedOffAt'', VStr (rfc3339 now))]))) (\<lambda>_.
     go_bind (link_first ops ''Agent'' ''agentId'' approver
       (\<lambda>a. CreateEdge ops ''APPROVED_BY'' i a None)) (\<lambda>_.
     LogEvent ops ''inspection_signed_off'' approver (''Inspection '' @ i @ '' signed off'') i)))"

lemma sign_off_run:
  assumes "g_inv g"
  shows "SignOffInspection ops i approver g = (case g_nodes g i of
      None \<Rightarrow> (Err (Wrap ''get inspection'' (Msg (''node '' @ i @ '' not found''))), g)
    | Some n \<Rightarrow> go_bind (or_none (Neighbors ops i)) (\<lambda>es.
        go_bind (check_findings ops es) (\<lambda>_. sign_off_node i approver n)) g)"
  unfolding SignOffInspection_def sign_off_node_def
  by (simp add: graph_GetNode_def on_store_def get_node [OF assms] go_wrap_def go_bind_def
      split: option.split)

lemma sound_sign_off_node: "colon_free (n_label n) \<Longrightarrow> go_safe (sound Mapped) (sign_off_node i approver n)"
  unfolding sign_off_node_def by (intro safes small_props_ok) (simp_all add: props_ok_def)

lemma sound_sign_off: "go_safe (sound Mapped) (SignOffInspection ops i approver)"
proof (rule go_safeI)
  fix g assume g: "sound Mapped g"
  then have inv: "g_inv g" by (simp add: sound_def)
  show "sound Mapped (snd (SignOffInspection ops i approver g)) \<and>
      fst (SignOffInspection ops i approver g) \<noteq> Panic"
  proof (cases "g_nodes g i")
    case None
    with g show ?thesis by (simp add: sign_off_run [OF inv])
  next
    case (Some n)
    then have "colon_free (n_label n)"
      using keyed_node [OF inv Some] by (simp add: stored_node_def node_ok_def)
    then have "go_safe (sound Mapped) (go_bind (or_none (Neighbors ops i)) (\<lambda>es.
        go_bind (check_findings ops es) (\<lambda>_. sign_off_node i approver n)))"
      by (intro safes sound_sign_off_node)
    from go_safeD [OF this g] Some show ?thesis by (simp add: sign_off_run [OF inv])
  qed
qed

lemma sound_carries_special [safes]: "go_safe (sound M) (carries_special ops es)"
  by (induction es) (auto split: sum.split intro!: safes)

lemma sound_validate_flow [safes]: "go_safe (sound M) (validate_flow ops now i f)"
  unfolding validate_flow_def Let_def
  by (intro safes) (auto split: sum.split simp: props_ok_def intro!: safes small_props_ok)

lemma sound_validate_flows: "go_safe (sound M) (ValidateDataFlows quote ops i)"
  unfolding ValidateDataFlows_def Let_def
  by (intro safes) simp_all

end

end
