(* ===== verification/Compliance_Exact.thy ===== *)
theory Compliance_Exact
  imports Compliance_Laws
begin

text \<open>
  What the rules answer, exactly, in terms of the abstract graph; what a scan collects; and when an
  inspection can be signed off.
\<close>

section \<open>The adapter meets the contract\<close>

context graph_storage
begin

definition stored_items :: "'s graph \<Rightarrow> string \<Rightarrow> node_item list" where
  "stored_items g l = (case fst (q_nodes_by_label (graphAdapter ops) l g) of Ok ns \<Rightarrow> ns | _ \<Rightarrow> [])"

definition stored_links :: "'s graph \<Rightarrow> string \<Rightarrow> edge_item list" where
  "stored_links g i = (case fst (q_neighbors (graphAdapter ops) i g) of Ok es \<Rightarrow> es | _ \<Rightarrow> [])"

lemma adapter_nodes:
  assumes "g_inv g" and "colon_free l"
  shows "q_nodes_by_label (graphAdapter ops) l g = (Ok (stored_items g l), g)"
    and "distinct (map ni_id (stored_items g l))"
    and "set (stored_items g l) = node_item_of ` {n. g_nodes g (n_id n) = Some n \<and> n_label n = l}"
proof -
  obtain ns where ns: "st_nodes_by_label ops l (g_store g) = (Ok ns, g_store g)" "distinct (map n_id ns)"
    "set ns = {n. g_nodes g (n_id n) = Some n \<and> n_label n = l}" using nodes_by_label [OF assms] by blast
  have run: "q_nodes_by_label (graphAdapter ops) l g = (Ok (map node_item_of ns), g)"
    by (simp add: graphAdapter_def graph_NodesByLabel_def on_store_def ns(1) go_bind_def go_ret_def)
  then have items: "stored_items g l = map node_item_of ns" by (simp add: stored_items_def)
  with run show "q_nodes_by_label (graphAdapter ops) l g = (Ok (stored_items g l), g)" by simp
  have "ni_id \<circ> node_item_of = n_id" by (simp add: fun_eq_iff node_item_of_def)
  with ns(2) show "distinct (map ni_id (stored_items g l))" by (simp add: items)
  show "set (stored_items g l) = node_item_of ` {n. g_nodes g (n_id n) = Some n \<and> n_label n = l}"
    by (simp add: items ns(3))
qed

lemma item_ids:
  assumes "g_inv g" and "colon_free l"
  shows "ni_id ` set (stored_items g l) = {i. \<exists>n. g_nodes g i = Some n \<and> n_label n = l}"
proof -
  have "ni_id ` set (stored_items g l) = n_id ` {n. g_nodes g (n_id n) = Some n \<and> n_label n = l}"
    by (simp add: adapter_nodes(3) [OF assms] image_image node_item_of_def)
  also have "\<dots> = {i. \<exists>n. g_nodes g i = Some n \<and> n_label n = l}"
    using keyed_node [OF assms(1)] by blast
  finally show ?thesis .
qed

lemma items_ex:
  assumes "g_inv g" and "colon_free l"
  shows "(\<exists>a \<in> set (stored_items g l). Q (ni_id a) (ni_props a)) \<longleftrightarrow>
    (\<exists>i n. g_nodes g i = Some n \<and> n_label n = l \<and> Q i (n_props n))"
proof -
  have "(\<exists>a \<in> set (stored_items g l). Q (ni_id a) (ni_props a)) \<longleftrightarrow>
      (\<exists>n. g_nodes g (n_id n) = Some n \<and> n_label n = l \<and> Q (n_id n) (n_props n))"
    by (auto simp: adapter_nodes(3) [OF assms] node_item_of_def)
  then show ?thesis using keyed_node [OF assms(1)] by blast
qed

lemma adapter_edges:
  assumes "g_inv g"
  shows "q_neighbors (graphAdapter ops) i g = (Ok (stored_links g i), g)"
    and "set (stored_links g i) = edge_item_of ` {e. g_edges g (e_id e) = Some e \<and> incident i e}"
proof -
  obtain es where es: "st_edges_by_node ops i (g_store g) = (Ok es, g_store g)"
    "set es = {e. g_edges g (e_id e) = Some e \<and> incident i e}" using edges_by_node [OF assms] by blast
  have run: "q_neighbors (graphAdapter ops) i g = (Ok (map edge_item_of es), g)"
    by (simp add: graphAdapter_def Neighbors_def on_store_def es(1) go_bind_def go_ret_def)
  then have links: "stored_links g i = map edge_item_of es" by (simp add: stored_links_def)
  with run es(2) show "q_neighbors (graphAdapter ops) i g = (Ok (stored_links g i), g)"
    "set (stored_links g i) = edge_item_of ` {e. g_edges g (e_id e) = Some e \<and> incident i e}" by simp_all
qed

lemma store_tick: "on_store m (g\<lparr>g_tick := t\<rparr>) = (case on_store m g of (r, h) \<Rightarrow> (r, h\<lparr>g_tick := t\<rparr>))"
  by (simp add: on_store_def split: prod.split)

lemma adapter_querier: "rule_querier (graphAdapter ops) g_inv stored_items stored_links"
proof
  show "q_nodes_by_label (graphAdapter ops) l g = (Ok (stored_items g l), g)"
    if "g_inv g" "colon_free l" for g l by (rule adapter_nodes(1) [OF that])
  show "q_neighbors (graphAdapter ops) i g = (Ok (stored_links g i), g)"
    if "g_inv g" for g i by (rule adapter_edges(1) [OF that])
  show "g_inv (g\<lparr>g_tick := t\<rparr>) \<and> stored_items (g\<lparr>g_tick := t\<rparr>) = stored_items g \<and>
      stored_links (g\<lparr>g_tick := t\<rparr>) = stored_links g" if "g_inv g" for g t
    by (auto simp: that fun_eq_iff stored_items_def stored_links_def graphAdapter_def
        graph_NodesByLabel_def Neighbors_def store_tick go_bind_def go_ret_def
        split: prod.split outcome.split)
qed

lemma links_iff:
  assumes "g_inv g"
  shows "hasEdgeLabel (stored_links g i) l \<longleftrightarrow> (\<exists>k e. g_edges g k = Some e \<and> incident i e \<and> e_label e = l)"
  using adapter_edges(2) [OF assms, of i] keyed_edge [OF assms]
  by (force simp: hasEdgeLabel_def list_ex_iff edge_item_of_def)

end

interpretation badger_rules: rule_querier "graphAdapter (badger_storage kv)" "\<lambda>g. badger_inv kv (g_store g)"
    "badger.stored_items kv" "badger.stored_links kv" for kv
  by (rule badger.adapter_querier)

section \<open>Results of the rules\<close>

context rule_querier
begin

lemma dsr_run:
  assumes "okay g"
  shows "\<exists>g'. cr_eval gdprDSR001 q g = (Ok (concat (map
    (dsr_result (res ''GDPR-DSR-001'' ''critical'') (g_clock g (g_tick g))) (items g ''DataSubjectRequest''))), g')"
  using q_nodes [OF assms, of "''DataSubjectRequest''"]
  by (cases "items g ''DataSubjectRequest''")
    (simp_all add: gdprDSR001_def go_bind_def go_ret_def time_now_def)

lemma breach_run:
  assumes "okay g"
  shows "cr_eval gdprBreach001 q g =
    (Ok (map (breach_result (res ''GDPR-BREACH-001'' ''critical'')) (items g ''DataBreach'')), g)"
  using assms by (simp add: gdprBreach001_def q_bind go_ret_def)

lemma dpia_run:
  assumes "okay g"
  shows "cr_eval gdprDPIA001 q g = (Ok (concat (map (\<lambda>a.
      if \<not> EqualFold (propStr (ni_props a) ''riskLevel'') ''high'' then []
      else if \<exists>d \<in> set (items g ''DPIA''). \<exists>e \<in> set (links g (ni_id d)). ei_label e = ''DPIA_FOR'' \<and> ei_to e = ni_id a
      then [res ''GDPR-DPIA-001'' ''critical'' EvalPass (ni_id a) ''High-risk activity has DPIA'']
      else [res ''GDPR-DPIA-001'' ''critical'' EvalFail (ni_id a) ''High-risk activity missing DPIA''])
      (items g ''ProcessingActivity''))), g)"
proof -
  have dpias: "go_bind (or_none (q_nodes_by_label q ''DPIA'')) f g = f (items g ''DPIA'') g"
    for f :: "node_item list \<Rightarrow> ('s graph, rule_result list) go"
    using or_none_nodes [OF assms, of "''DPIA''"] by (simp add: go_bind_def)
  have tg: "go_bind (targets_of q ''DPIA_FOR'' ns) f g = f (concat (map (\<lambda>n. map ei_to
      (filter (\<lambda>e. ei_label e = ''DPIA_FOR'') (links g (ni_id n)))) ns)) g"
    for ns :: "node_item list" and f :: "string list \<Rightarrow> ('s graph, rule_result list) go"
    using targets_run [OF assms, of "''DPIA_FOR''" ns] by (simp add: go_bind_def)
  have covered: "i \<in> set (concat (map (\<lambda>n. map ei_to (filter (\<lambda>e. ei_label e = ''DPIA_FOR'') (links g (ni_id n)))) ns)) \<longleftrightarrow>
      (\<exists>d \<in> set ns. \<exists>e \<in> set (links g (ni_id d)). ei_label e = ''DPIA_FOR'' \<and> ei_to e = i)" for i and ns :: "node_item list"
    by auto
  have "colon_free ''ProcessingActivity''" by simp
  then show ?thesis
    by (simp only: gdprDPIA001_def Let_def compliance_rule.simps q_bind [OF assms] dpias tg go_ret_def covered)
qed

lemma flow004_run:
  assumes "okay g"
  shows "cr_eval gdprFlow004 q g = (Ok [], g)"
proof -
  have "go_collect fs (\<lambda>f. go_bind (or_none (q_neighbors q (ni_id f))) (\<lambda>es.
      if \<not> hasEdgeLabel es ''CARRIES'' then go_ret []
      else let lb = propStr (ni_props f) ''legalBasis'' in
        if mentions_consent lb \<or> lb = [] then go_ret [] else go_ret [])) g = (Ok ([] :: rule_result list), g)" for fs :: "node_item list"
    by (induction fs) (simp_all add: go_bind_def or_none_edges [OF assms] go_ret_def)
  then show ?thesis by (simp add: gdprFlow004_def q_bind [OF assms])
qed

lemma properties_run:
  assumes "okay g" and "colon_free (yd_node_label d)"
  shows "evaluatePropertyNotEmpty d q g = (Ok (map (\<lambda>n.
    case find (\<lambda>p. propStr (ni_props n) p = []) (yd_required d) of
      None \<Rightarrow> res (yd_id d) (yaml_severity d) EvalPass (ni_id n) ''All required properties present''
    | Some missing \<Rightarrow> res (yd_id d) (yaml_severity d) EvalFail (ni_id n) (''Missing property: '' @ missing))
    (items g (yd_node_label d))), g)"
  using assms by (simp add: evaluatePropertyNotEmpty_def q_bind go_ret_def)

end

text \<open>Passes and failures of the items a rule applies to.\<close>

lemma verdicts:
  fixes as :: "node_item list"
  shows "{(rr_node x, rr_status x) | x. x \<in> set (concat (map (\<lambda>a. if \<not> H (ni_props a) then []
      else if C (ni_id a) then [res rule sev EvalPass (ni_id a) d] else [res rule sev EvalFail (ni_id a) d']) as))} =
   {(ni_id a, if C (ni_id a) then EvalPass else EvalFail) | a. a \<in> set as \<and> H (ni_props a)}"
proof -
  define r where "r a = (if C (ni_id a) then res rule sev EvalPass (ni_id a) d else res rule sev EvalFail (ni_id a) d')"
    for a :: node_item
  have set: "set (concat (map (\<lambda>a. if \<not> H (ni_props a) then [] else if C (ni_id a)
      then [res rule sev EvalPass (ni_id a) d] else [res rule sev EvalFail (ni_id a) d']) as)) =
      r ` {a \<in> set as. H (ni_props a)}"
    by (induction as) (auto simp: r_def)
  have fields: "rr_node (r a) = ni_id a" "rr_status (r a) = (if C (ni_id a) then EvalPass else EvalFail)" for a
    by (simp_all add: r_def res_def)
  have "{(rr_node x, rr_status x) | x. x \<in> r ` {a \<in> set as. H (ni_props a)}} =
      (\<lambda>x. (rr_node x, rr_status x)) ` r ` {a \<in> set as. H (ni_props a)}" by blast
  also have "\<dots> = (\<lambda>a. (ni_id a, if C (ni_id a) then EvalPass else EvalFail)) ` {a \<in> set as. H (ni_props a)}"
    by (simp only: image_image fields)
  finally show ?thesis unfolding set by blast
qed

section \<open>Whose results they are\<close>

definition reports :: "('b \<Rightarrow> bool) \<Rightarrow> ('x, 'b list) go \<Rightarrow> bool" where
  "reports P m \<longleftrightarrow> (\<forall>g rs g'. m g = (Ok rs, g') \<longrightarrow> list_all P rs)"

named_theorems reporting \<open>what calls report\<close>

lemma reports_ret [reporting]: "list_all P rs \<Longrightarrow> reports P (go_ret rs)"
  by (simp add: reports_def go_ret_def)

lemma reports_raise [reporting]: "reports P (go_raise e)"
  by (simp add: reports_def go_raise_def)

lemma reports_bind [reporting]: "(\<And>x. reports P (f x)) \<Longrightarrow> reports P (go_bind m f)"
  unfolding reports_def by (blast elim: go_bind_OkE)

lemma reports_collect [reporting]: "(\<And>x. reports P (f x)) \<Longrightarrow> reports P (go_collect xs f)"
proof (induction xs)
  case Nil
  show ?case by (simp add: reports_ret)
next
  case (Cons x xs)
  note rest = Cons.IH [OF Cons.prems] and first = Cons.prems [of x]
  show ?case
    unfolding reports_def
  proof (intro allI impI)
    fix g rs g' assume "go_collect (x # xs) f g = (Ok rs, g')"
    then obtain ys h where ys: "f x g = (Ok ys, h)"
      and "go_bind (go_collect xs f) (\<lambda>zs. go_ret (ys @ zs)) h = (Ok rs, g')"
      by (auto elim: go_bind_OkE)
    then obtain zs where "go_collect xs f h = (Ok zs, g')" "rs = ys @ zs"
      by (auto elim!: go_bind_OkE simp: go_ret_def)
    moreover have "list_all P ys" using first ys unfolding reports_def by blast
    ultimately show "list_all P rs" using rest unfolding reports_def by auto
  qed
qed

lemma list_all_map_concat:
  "list_all P (map f xs) \<longleftrightarrow> (\<forall>x \<in> set xs. P (f x))"
  "list_all P (concat (map h xs)) \<longleftrightarrow> (\<forall>x \<in> set xs. list_all P (h x))"
  by (auto simp: list_all_iff)

definition own_result :: "string \<Rightarrow> string \<Rightarrow> rule_result \<Rightarrow> bool" where
  "own_result rule sev x \<longleftrightarrow> rr_rule x = rule \<and> rr_severity x = sev \<and>
     rr_status x \<in> {EvalPass, EvalFail, EvalWarning, EvalNA}"

lemma own_res [simp]:
  "own_result rule sev (res rule sev st i d) \<longleftrightarrow> st \<in> {EvalPass, EvalFail, EvalWarning, EvalNA}"
  by (simp add: own_result_def res_def)

lemma own_check [reporting]:
  "reports (own_result rule sev) (checkPropertyNotEmpty rule sev l p q)"
  "reports (own_result rule sev) (checkHasEdge rule sev l p q)"
  unfolding checkPropertyNotEmpty_def checkHasEdge_def
  by (intro reporting; simp add: list_all_map_concat)+

lemma own_dated:
  "list_all (own_result rule sev) (dsr_result (res rule sev) now n)"
  "list_all (own_result rule sev) (finding_result (res rule sev) now n)"
  "own_result rule sev (breach_result (res rule sev) n)"
  by (auto simp: dsr_result_def finding_result_def breach_result_def Let_def split: option.split)

lemma own_rule:
  assumes "known_rule quote r"
  shows "reports (own_result (cr_id r) (cr_severity r)) (cr_eval r q)"
proof -
  have "reports (own_result (cr_id r) (cr_severity r)) (cr_eval r q)" if "r \<in> set gdpr_rules"
    using that by (auto simp: gdpr_rules_def rule_defs Let_def list_all_map_concat own_dated
        intro!: reporting split: option.split)
  moreover have "reports (own_result (cr_id r) (cr_severity r)) (cr_eval r q)" if "r \<in> set dataflow_rules"
    using that by (auto simp: dataflow_rules_def rule_defs Let_def list_all_map_concat own_dated
        intro!: reporting split: option.split)
  moreover have "reports (own_result (cr_id r) (cr_severity r)) (cr_eval r q)" if "r = ToRule quote d" for d
    unfolding that by (auto simp: ToRule_def yaml_evaluate_def evaluatePropertyNotEmpty_def evaluateHasEdge_def
        list_all_map_concat intro!: reporting split: option.split)
  ultimately show ?thesis using assms unfolding known_rule_def by blast
qed

section \<open>Scans\<close>

lemma evaluated:
  assumes "\<forall>r \<in> set rs. reports (own_result (cr_id r) (cr_severity r)) (cr_eval r q)"
    and "evaluate_rules q ctx k rs g = (Ok xs, g')"
  shows "\<exists>yss. xs = concat yss \<and>
    list_all2 (\<lambda>r ys. ys \<noteq> [] \<and> list_all (own_result (cr_id r) (cr_severity r)) ys) rs yss"
  using assms
proof (induction rs arbitrary: k g xs)
  case Nil
  then show ?case by (intro exI [of _ "[]"]) (simp add: go_ret_def)
next
  case (Cons r rs)
  from Cons.prems(2) have "ctx k = None" by (auto simp: go_raise_def split: option.splits)
  with Cons.prems(2) obtain x h where x: "go_try (cr_eval r q) g = (Ok x, h)"
    and "go_bind (evaluate_rules q ctx (Suc k) rs) (\<lambda>ys. go_ret (rule_outcome r x @ ys)) h = (Ok xs, g')"
    by (auto elim: go_bind_OkE)
  then obtain ys where ys: "evaluate_rules q ctx (Suc k) rs h = (Ok ys, g')" and xs: "xs = rule_outcome r x @ ys"
    by (auto elim!: go_bind_OkE simp: go_ret_def)
  from Cons.IH [OF _ ys] Cons.prems(1) obtain yss where yss: "ys = concat yss"
    "list_all2 (\<lambda>r ys. ys \<noteq> [] \<and> list_all (own_result (cr_id r) (cr_severity r)) ys) rs yss" by auto
  have "list_all (own_result (cr_id r) (cr_severity r)) zs" if "x = Inr zs" for zs
    using Cons.prems(1) x that unfolding reports_def
    by (auto simp: go_try_def split: prod.splits outcome.splits)
  then have "rule_outcome r x \<noteq> [] \<and> list_all (own_result (cr_id r) (cr_severity r)) (rule_outcome r x)"
    by (cases x) (auto simp: rule_outcome_def split: list.split)
  with xs yss show ?case by (intro exI [of _ "rule_outcome r x # yss"]) simp
qed

lemma statuses_counted:
  "list_all (\<lambda>x. rr_status x \<in> {EvalPass, EvalFail, EvalWarning, EvalNA}) xs \<Longrightarrow>
    count_status EvalPass xs + count_status EvalFail xs + count_status EvalWarning xs + count_status EvalNA xs
      = length xs"
  by (induction xs) (auto simp: count_status_def)

context graph_storage
begin

lemma evaluation_returns:
  assumes "list_all (known_rule quote) rs" and "\<forall>j. ctx j = None" and "sound M g"
  shows "\<exists>xs g'. evaluate_rules (graphAdapter ops) ctx k rs g = (Ok xs, g') \<and> sound M g'"
  using assms(1,3)
proof (induction rs arbitrary: k g)
  case Nil
  then show ?case by (simp add: go_ret_def)
next
  case (Cons r rs)
  have "go_safe (sound M) (go_try (cr_eval r (graphAdapter ops)))"
    by (rule safe_try [OF sound_known_rule [where quote = quote]]) (use Cons.prems(1) in simp)
  from go_safeD [OF this Cons.prems(2)] obtain x h where
    x: "go_try (cr_eval r (graphAdapter ops)) g = (Ok x, h)" "sound M h"
    by (cases "cr_eval r (graphAdapter ops) g"; cases "fst (cr_eval r (graphAdapter ops) g)") (auto simp: go_try_def)
  from Cons.IH [OF _ x(2), of "Suc k"] Cons.prems(1) obtain ys g' where
    "evaluate_rules (graphAdapter ops) ctx (Suc k) rs h = (Ok ys, g')" "sound M g'" by auto
  moreover have "ctx k = None" using assms(2) by blast
  ultimately show ?case using x(1) by (simp add: go_bind_def go_ret_def)
qed

text \<open>A scan that is not cancelled returns a result, whether or not it could be stored.\<close>

lemma scan_run:
  assumes "sound_engine quote M e" and "\<forall>j. ctx j = None"
  shows "\<exists>result err e' yss. RunScan ops ctx req e = (Ok (Some result, err), e') \<and>
    sound_engine quote M e' \<and> sc_framework result = sr_framework req \<and>
    sc_evaluations result = concat yss \<and>
    list_all2 (\<lambda>r ys. ys \<noteq> [] \<and> list_all (own_result (cr_id r) (cr_severity r)) ys)
      (selected req (en_rules e)) yss \<and>
    result = scan_result_of (sc_id result) (sr_framework req) (sc_started result) (sc_completed result)
      (sc_evaluations result)"
proof -
  let ?sid = "''scan-'' @ show_int (next_ctr (en_seq e))" and ?g = "en_graph e"
  let ?start = "g_clock ?g (g_tick ?g)"
  let ?rs = "selected req (en_rules e)"
  have rules: "list_all (known_rule quote) ?rs" using assms(1) by (auto simp: selected_def list_all_iff)
  have "sound M (?g\<lparr>g_tick := Suc (g_tick ?g)\<rparr>)" using assms(1) by (simp add: sound_def)
  from evaluation_returns [OF rules assms(2) this, of 0] obtain xs h where
    eval: "evaluate_rules (graphAdapter ops) ctx 0 ?rs (?g\<lparr>g_tick := Suc (g_tick ?g)\<rparr>) = (Ok xs, h)"
    and h: "sound M h" by blast
  have "\<forall>r \<in> set ?rs. reports (own_result (cr_id r) (cr_severity r)) (cr_eval r (graphAdapter ops))"
    using rules own_rule unfolding list_all_iff by blast
  from evaluated [OF this eval] obtain yss where yss: "xs = concat yss"
    "list_all2 (\<lambda>r ys. ys \<noteq> [] \<and> list_all (own_result (cr_id r) (cr_severity r)) ys) ?rs yss" by blast
  define result where "result = scan_result_of ?sid (sr_framework req) ?start (g_clock h (g_tick h)) xs"
  have h': "sound M (h\<lparr>g_tick := Suc (g_tick h)\<rparr>)" using h by (simp add: sound_def)
  from go_safeD [OF safe_try [OF sound_store_scan [of M result]] h'] obtain y h2 where
    store: "go_try (storeScanResults ops result) (h\<lparr>g_tick := Suc (g_tick h)\<rparr>) = (Ok y, h2)" "sound M h2"
    by (cases "storeScanResults ops result (h\<lparr>g_tick := Suc (g_tick h)\<rparr>)";
        cases "fst (storeScanResults ops result (h\<lparr>g_tick := Suc (g_tick h)\<rparr>))") (auto simp: go_try_def)
  have tried: "go_try (on_graph m) d = (case go_try m (en_graph d) of (r, k) \<Rightarrow> (r, d\<lparr>en_graph := k\<rparr>))"
    for m :: "('s graph, 'c) go" and d :: "'s compliance_engine"
    by (simp add: go_try_def on_graph_def split: prod.split outcome.split)
  have now: "on_graph time_now d = (Ok (g_clock (en_graph d) (g_tick (en_graph d))),
      d\<lparr>en_graph := (en_graph d)\<lparr>g_tick := Suc (g_tick (en_graph d))\<rparr>\<rparr>)" for d :: "'s compliance_engine"
    by (simp add: on_graph_def time_now_def)
  have eval': "go_try (evaluate_rules (graphAdapter ops) ctx 0 ?rs) (?g\<lparr>g_tick := Suc (g_tick ?g)\<rparr>) = (Ok (Inr xs), h)"
    by (simp add: go_try_def eval)
  have "\<exists>err e'. RunScan ops ctx req e = (Ok (Some result, err), e') \<and> sound M (en_graph e') \<and>
      en_rules e' = en_rules e"
    using store unfolding result_def
    by (simp add: RunScan_def next_scan_def Rules_def Let_def go_bind_def go_ret_def tried eval' now)
  then obtain err e' where "RunScan ops ctx req e = (Ok (Some result, err), e')" "sound M (en_graph e')"
      "en_rules e' = en_rules e" by blast
  moreover have "result = scan_result_of (sc_id result) (sr_framework req) (sc_started result)
      (sc_completed result) (sc_evaluations result)" "sc_framework result = sr_framework req"
    "sc_evaluations result = xs"
    by (simp_all add: result_def scan_result_of_def)
  ultimately show ?thesis using yss assms(1) by auto
qed

end

section \<open>Signing off\<close>

text \<open>An edge to a finding that is still open.\<close>

definition open_finding :: "(string \<Rightarrow> node option) \<Rightarrow> edge \<Rightarrow> bool" where
  "open_finding N e \<longleftrightarrow> e_label e = ''HAS_FINDING'' \<and>
     (\<exists>f. N (e_to e) = Some f \<and> propStr (n_props f) ''status'' = ''open'')"

lemma time_bind: "go_bind time_now f g = f (g_clock g (g_tick g)) (g\<lparr>g_tick := Suc (g_tick g)\<rparr>)"
  by (simp add: go_bind_def time_now_def)

lemma propStr_merged:
  assumes "merge_props old (Some ps) = Some p" and "props_json p = Some q"
    and "map_of ps k = Some (VStr v)" and "distinct (map fst ps)"
  shows "propStr q k = v"
proof -
  from assms(1,3) obtain o' where p: "p = Some (copy_into ps o')"
    by (cases old; cases ps) (auto simp: merge_props_def split: if_splits)
  with assms(2) obtain r where r: "json_norm_fields (copy_into ps o') = Some r" "q = Some r"
    by (auto simp: props_json_Some)
  have "map_of (copy_into ps o') k = Some (VStr v)"
    using assms(3,4) by (simp add: map_of_copy_into)
  from json_norm_fields_lookup [OF r(1) this] show ?thesis by (auto simp: propStr_def r(2))
qed

context graph_storage
begin

lemma check_findings_run:
  assumes "g_inv g"
  shows "check_findings ops es g = (case find (open_finding (g_nodes g)) es of
      None \<Rightarrow> Ok ()
    | Some e \<Rightarrow> Err (Msg (''cannot sign off: finding '' @ e_to e @ '' is still open'')), g)"
proof (induction es)
  case Nil
  then show ?case by (simp add: go_ret_def)
next
  case (Cons e es)
  have get: "graph_GetNode ops (e_to e) g = (case g_nodes g (e_to e) of Some n \<Rightarrow> Ok n
      | None \<Rightarrow> Err (Msg (''node '' @ e_to e @ '' not found'')), g)"
    by (simp add: graph_GetNode_def on_store_def get_node [OF assms])
  show ?case
  proof (cases "g_nodes g (e_to e)")
    case None
    with Cons get show ?thesis by (simp add: open_finding_def go_bind_def go_try_def)
  next
    case (Some f)
    have "n_id f = e_to e" using keyed_node [OF assms Some] by simp
    with Cons get Some show ?thesis by (simp add: open_finding_def go_bind_def go_try_def go_raise_def)
  qed
qed

text \<open>Creating other nodes and edges leaves a node as it is.\<close>

lemma keeps_other_node:
  assumes "colon_free l" and "props_ok ps" and "\<not> has_prefix (''n:'' @ l @ '':'') i"
  shows "go_keeps (\<lambda>g. g_inv g \<and> g_nodes g i = x) (CreateNode ops l ps)"
proof (rule go_keepsI)
  fix g assume g: "g_inv g \<and> g_nodes g i = x"
  obtain r g' where run: "CreateNode ops l ps g = (r, g')" by fastforce
  have other: "n_id (new_node g l ps) \<noteq> i"
  proof
    assume "n_id (new_node g l ps) = i"
    then have "i = (''n:'' @ l @ '':'') @ show_int (next_ctr (g_ctr g))" by (simp add: new_node_def)
    with assms(3) show False by (metis has_prefix_append)
  qed
  note spec = create_node [OF _ assms(1,2) run]
  show "g_inv (snd (CreateNode ops l ps g)) \<and> g_nodes (snd (CreateNode ops l ps g)) i = x"
  proof (cases r)
    case (Ok n)
    with spec g obtain m where "n = new_node g l ps" "g_nodes g' = (g_nodes g)(n_id n \<mapsto> m)" "g_inv g'" by blast
    with g run other show ?thesis by simp
  qed (use spec g run in auto)
qed

lemma keeps_node_edge:
  assumes "colon_free l" and "props_ok ps"
  shows "go_keeps (\<lambda>g. g_inv g \<and> g_nodes g i = x) (CreateEdge ops l a b ps)"
proof (rule go_keepsI)
  fix g assume g: "g_inv g \<and> g_nodes g i = x"
  obtain r g' where run: "CreateEdge ops l a b ps g = (r, g')" by fastforce
  from g create_edge [OF _ assms run] run
  show "g_inv (snd (CreateEdge ops l a b ps g)) \<and> g_nodes (snd (CreateEdge ops l a b ps g)) i = x"
    by (cases r) auto
qed

lemma keeps_node_reads:
  "go_keeps (\<lambda>g. g_inv g \<and> g_nodes g i = x) time_now"
  "colon_free l \<Longrightarrow> go_keeps (\<lambda>g. g_inv g \<and> g_nodes g i = x) (graph_NodesByLabel ops l)"
proof -
  show "go_keeps (\<lambda>g. g_inv g \<and> g_nodes g i = x) time_now"
    by (rule go_keepsI) (simp add: time_now_def)
  assume l: "colon_free l"
  show "go_keeps (\<lambda>g. g_inv g \<and> g_nodes g i = x) (graph_NodesByLabel ops l)"
  proof (rule go_keepsI)
    fix g assume g: "g_inv g \<and> g_nodes g i = x"
    with nodes_by_label [OF _ l, of "g_store g"]
    show "g_inv (snd (graph_NodesByLabel ops l g)) \<and> g_nodes (snd (graph_NodesByLabel ops l g)) i = x"
      by (auto simp: graph_NodesByLabel_def on_store_def)
  qed
qed

lemma keeps_or_none: "go_keeps P m \<Longrightarrow> go_keeps P (or_none m)"
  unfolding or_none_def by (intro keeps)

lemma sign_off_node_run:
  assumes inv: "g_inv g" and at: "g_nodes g i = Some n" and other: "\<not> has_prefix ''n:ComplianceEvent:'' i"
    and run: "sign_off_node i approver n g = (Ok (), g')"
  shows "\<exists>m. g_nodes g' i = Some m \<and> n_label m = n_label n \<and> propStr (n_props m) ''status'' = ''signed_off'' \<and>
    propStr (n_props m) ''approverId'' = approver"
proof -
  let ?now = "g_clock g (g_tick g)" and ?g1 = "g\<lparr>g_tick := Suc (g_tick g)\<rparr>"
  let ?ps = "[(''status'', VStr ''signed_off''), (''approverId'', VStr approver), (''signedOffAt'', VStr (rfc3339 ?now))]"
  have lbl: "colon_free (n_label n)" using keyed_node [OF inv at] by (simp add: stored_node_def node_ok_def)
  have ps: "props_ok (Some ?ps)" by (simp add: props_ok_def)
  let ?rest = "go_bind (link_first ops ''Agent'' ''agentId'' approver (\<lambda>a. CreateEdge ops ''APPROVED_BY'' i a None))
      (\<lambda>_. LogEvent ops ''inspection_signed_off'' approver (''Inspection '' @ i @ '' signed off'') i)"
  from run have "go_bind (go_wrap ''update inspection status'' (UpsertNode ops i (n_label n) (Some ?ps)))
      (\<lambda>_. ?rest) ?g1 = (Ok (), g')"
    by (simp only: sign_off_node_def time_bind)
  then obtain k g2 where wrapped: "go_wrap ''update inspection status'' (UpsertNode ops i (n_label n) (Some ?ps)) ?g1 = (Ok k, g2)"
    and rest: "?rest g2 = (Ok (), g')" by (rule go_bind_OkE)
  from wrapped have up: "UpsertNode ops i (n_label n) (Some ?ps) ?g1 = (Ok k, g2)" by (rule go_wrap_OkD)
  have inv1: "g_inv ?g1" using inv by simp
  from upsert_node [OF inv1 lbl ps up] at obtain m p where m: "g_inv g2" "node_json k = Some m" "g_nodes g2 i = Some m"
    "merge_props (n_props n) (Some ?ps) = Some p" "k = n\<lparr>n_props := p\<rparr>"
    by (auto simp: upsert_node_doc_def)
  have json: "props_json p = Some (n_props m)" "n_label m = n_label n"
    using node_json_fields(2,4) [OF m(2)] m(5) by simp_all
  have "go_keeps (\<lambda>g. g_inv g \<and> g_nodes g i = Some m) ?rest"
    unfolding link_first_def LogEvent_def using other
    by (auto split: option.split sum.split intro!: keeps keeps_or_none keeps_node_reads keeps_node_edge
        keeps_other_node event_props_ok small_props_ok)
  from go_keepsD [OF this, of g2] m(1,3) rest have "g_nodes g' i = Some m" by simp
  with json propStr_merged [OF m(4) json(1), of "''status''"] propStr_merged [OF m(4) json(1), of "''approverId''"]
  show ?thesis by simp
qed

lemma sign_off_spec:
  assumes inv: "g_inv g" and run: "SignOffInspection ops i approver g = (r, g')"
  shows "(\<exists>k e. g_edges g k = Some e \<and> incident i e \<and> open_finding (g_nodes g) e) \<Longrightarrow>
      (\<exists>x. r = Err x) \<and> g' = g"
    and "r = Ok () \<Longrightarrow> \<not> has_prefix ''n:ComplianceEvent:'' i \<Longrightarrow>
      \<exists>m. g_nodes g' i = Some m \<and> propStr (n_props m) ''status'' = ''signed_off'' \<and>
        propStr (n_props m) ''approverId'' = approver"
proof -
  obtain es where es: "st_edges_by_node ops i (g_store g) = (Ok es, g_store g)"
    "set es = {e. g_edges g (e_id e) = Some e \<and> incident i e}" using edges_by_node [OF inv] by blast
  have nb: "or_none (Neighbors ops i) g = (Ok es, g)"
    by (simp add: or_none_def Neighbors_def on_store_def es(1) go_bind_def go_try_def go_ret_def)
  note so = sign_off_run [OF inv, of i approver]
  show "(\<exists>x. r = Err x) \<and> g' = g"
    if "\<exists>k e. g_edges g k = Some e \<and> incident i e \<and> open_finding (g_nodes g) e"
  proof (cases "g_nodes g i")
    case None
    with run so show ?thesis by auto
  next
    case (Some n)
    from that obtain k e where e: "g_edges g k = Some e" "incident i e" "open_finding (g_nodes g) e" by blast
    with keyed_edge [OF inv e(1)] have "e \<in> set es" by (simp add: es(2))
    with e(3) obtain e' where "find (open_finding (g_nodes g)) es = Some e'"
      by (cases "find (open_finding (g_nodes g)) es") (auto simp: find_None_iff)
    with Some run so nb check_findings_run [OF inv, of es] show ?thesis
      by (auto simp: go_bind_def)
  qed
  show "\<exists>m. g_nodes g' i = Some m \<and> propStr (n_props m) ''status'' = ''signed_off'' \<and>
      propStr (n_props m) ''approverId'' = approver"
    if ok: "r = Ok ()" and other: "\<not> has_prefix ''n:ComplianceEvent:'' i"
  proof -
    obtain n where n: "g_nodes g i = Some n" using run so ok by (cases "g_nodes g i") auto
    with run so nb check_findings_run [OF inv, of es] ok have "sign_off_node i approver n g = (Ok (), g')"
      by (auto simp: go_bind_def split: option.splits)
    from sign_off_node_run [OF inv n other this] show ?thesis by blast
  qed
qed

end

section \<open>Deadlines\<close>

text \<open>A severe breach that was notified more than 72 hours after its discovery, or not at all.\<close>

definition breach_overdue :: "props option \<Rightarrow> bool" where
  "breach_overdue ps \<longleftrightarrow> propStr ps ''severity'' \<in> {''high'', ''critical''} \<and>
     (propStr ps ''authorityNotifiedAt'' = [] \<or>
      (\<exists>d t. parse_stamp (propStr ps ''discoveredAt'') = Some d \<and>
         parse_stamp (propStr ps ''authorityNotifiedAt'') = Some t \<and> instant t - instant d > 72 * 3600 * 10 ^ 9))"

lemma time_sub_late: "time_sub t u > 72 * 3600 * 10 ^ 9 \<longleftrightarrow> t - u > 72 * 3600 * 10 ^ 9"
  by (auto simp: time_sub_def int64_max_def int64_min_def)

lemma breach_status: "rr_status (breach_result (res rule sev) n) = EvalFail \<longleftrightarrow> breach_overdue (ni_props n)"
  using time_sub_late
  by (auto simp: breach_result_def breach_overdue_def res_def Let_def split: option.splits)

lemma breach_node [simp]: "rr_node (breach_result (res rule sev) n) = ni_id n"
  by (auto simp: breach_result_def res_def Let_def split: option.splits)

end
