(* ===== verification/Compliance_Score.thy ===== *)
theory Compliance_Score
  imports Compliance_Engine
begin

text \<open>
  Scores: weights are halves of small integers, so sums of them are exact, and the rounding of the
  later operations is monotone and keeps 0 and 100 in place.
\<close>

definition halves :: "rule_result \<Rightarrow> int" where
  "halves r = (if rr_severity r = ''critical'' then 6 else if rr_severity r = ''high'' then 4
     else if rr_severity r = ''medium'' then 2 else if rr_severity r = ''low'' then 1 else 2)"

definition total_halves :: "rule_result list \<Rightarrow> int" where
  "total_halves xs = sum_list (map (\<lambda>r. if rr_status r = EvalNA then 0 else halves r) xs)"

definition passed_halves :: "rule_result list \<Rightarrow> int" where
  "passed_halves xs = sum_list (map (\<lambda>r. if rr_status r = EvalPass then halves r else 0) xs)"

lemma halves_simps [simp]:
  "total_halves [] = 0" "passed_halves [] = 0"
  "total_halves (x # xs) = (if rr_status x = EvalNA then 0 else halves x) + total_halves xs"
  "passed_halves (x # xs) = (if rr_status x = EvalPass then halves x else 0) + passed_halves xs"
  by (simp_all add: total_halves_def passed_halves_def)

lemma halves_bounds: "1 \<le> halves r" "halves r \<le> 6" "Weight (rr_severity r) = of_int (halves r) / 2"
  by (simp_all add: halves_def Weight_def)

lemma total_bounds:
  "0 \<le> passed_halves xs \<and> passed_halves xs \<le> total_halves xs \<and> total_halves xs \<le> 6 * int (length xs)"
proof (induction xs)
  case (Cons x xs)
  with halves_bounds(1,2) [of x] show ?case by (auto simp: algebra_simps)
qed simp

lemma all_passed:
  "passed_halves xs = total_halves xs \<longleftrightarrow> (\<forall>x \<in> set xs. rr_status x \<in> {EvalPass, EvalNA})"
proof (induction xs)
  case (Cons x xs)
  with halves_bounds(1,2) [of x] total_bounds [of xs] show ?case by auto
qed simp

lemma f64_round_0 [simp]: "f64_round 0 = 0"
  by (simp add: f64_round_def)

lemma f64_round_half: "0 \<le> m \<Longrightarrow> m < 2 ^ 53 \<Longrightarrow> f64_round (of_int m / 2) = of_int m / 2"
proof (cases "m = 0")
  case False
  assume "0 \<le> m" and "m < 2 ^ 53"
  moreover have "(2 :: rat) powi (- 1) = 1 / 2" by (simp add: power_int_def)
  ultimately show ?thesis using f64_exact [of m "- 1"] False by simp
qed simp

lemma f64_round_nat: "0 \<le> m \<Longrightarrow> m < 2 ^ 53 \<Longrightarrow> f64_round (of_int m) = of_int m"
  using f64_exact [of m 0] by (cases "m = 0") simp_all

lemma score_sums:
  assumes "0 \<le> a" and "0 \<le> b" and "a + 6 * int (length xs) < 2 ^ 53" and "b + 6 * int (length xs) < 2 ^ 53"
  shows "foldl score_step (of_int a / 2, of_int b / 2) xs =
    (of_int (a + passed_halves xs) / 2, of_int (b + total_halves xs) / 2)"
  using assms
proof (induction xs arbitrary: a b)
  case (Cons x xs)
  have add: "f64_add (of_int m / 2) (Weight (rr_severity x)) = of_int (m + halves x) / 2"
    if "0 \<le> m" "m + 6 * int (length (x # xs)) < 2 ^ 53" for m
  proof -
    have "of_int m / 2 + of_int (halves x) / 2 = (of_int (m + halves x) / 2 :: rat)" by (simp add: add_divide_distrib)
    moreover have "0 \<le> m + halves x" "m + halves x < 2 ^ 53" using that halves_bounds(1,2) [of x] by simp_all
    ultimately show ?thesis unfolding f64_add_def halves_bounds(3) by (simp only: f64_round_half)
  qed
  define a' where "a' = (if rr_status x = EvalPass then a + halves x else a)"
  define b' where "b' = (if rr_status x = EvalNA then b else b + halves x)"
  have step: "score_step (of_int a / 2, of_int b / 2) x = (of_int a' / 2, of_int b' / 2)"
    using add [of a] add [of b] Cons.prems by (simp add: score_step_def Let_def a'_def b'_def)
  have "0 \<le> a'" "0 \<le> b'" "a' + 6 * int (length xs) < 2 ^ 53" "b' + 6 * int (length xs) < 2 ^ 53"
    using Cons.prems halves_bounds(1,2) [of x] by (simp_all add: a'_def b'_def)
  from Cons.IH [OF this] show ?case
    by (simp add: step a'_def b'_def del: of_int_add)
qed simp

lemma final_score_bounds:
  assumes "0 \<le> p" and "p \<le> t" and "0 < t"
  shows "0 \<le> f64_div (of_int \<lfloor>f64_mul (f64_mul (f64_div p t) 100) 10\<rfloor>) 10"
    and "f64_div (of_int \<lfloor>f64_mul (f64_mul (f64_div p t) 100) 10\<rfloor>) 10 \<le> 100"
proof -
  have nat: "f64_round 1 = 1" "f64_round 100 = 100" "f64_round 1000 = 1000"
    using f64_round_nat [of 1] f64_round_nat [of 100] f64_round_nat [of 1000] by simp_all
  show "0 \<le> f64_div (of_int \<lfloor>f64_mul (f64_mul (f64_div p t) 100) 10\<rfloor>) 10"
    by (simp add: f64_div_def f64_round_nonneg)
  have "f64_div p t \<le> 1"
    using f64_round_mono [of "p / t" 1] assms nat(1) by (simp add: f64_div_def)
  then have "f64_mul (f64_div p t) 100 \<le> 100"
    using f64_round_mono [of "f64_div p t * 100" 100] nat(2) by (simp add: f64_mul_def)
  then have "f64_mul (f64_mul (f64_div p t) 100) 10 \<le> 1000"
    using f64_round_mono [of "f64_mul (f64_div p t) 100 * 10" 1000] nat(3) by (simp add: f64_mul_def [of _ 10])
  then have "\<lfloor>f64_mul (f64_mul (f64_div p t) 100) 10\<rfloor> \<le> 1000" by linarith
  then have "(of_int \<lfloor>f64_mul (f64_mul (f64_div p t) 100) 10\<rfloor> :: rat) / 10 \<le> 100" by linarith
  from f64_round_mono [OF this] nat(2)
  show "f64_div (of_int \<lfloor>f64_mul (f64_mul (f64_div p t) 100) 10\<rfloor>) 10 \<le> 100" by (simp add: f64_div_def)
qed

text \<open>A single failure shows in the score, for fewer than \<open>2 ^ 28\<close> results.\<close>

lemma imperfect_score:
  assumes "0 \<le> p" and "p \<le> (1 - 1 / 2 ^ 31) * t" and "0 < t"
  shows "f64_div (of_int \<lfloor>f64_mul (f64_mul (f64_div p t) 100) 10\<rfloor>) 10 < 100"
proof -
  let ?q = "1 - 1 / 2 ^ 31 :: rat"
  have scaled: "f64_round (of_int m * ?q) = of_int m * ?q" if "0 < m" "m \<le> 1000" for m
  proof -
    have "of_int m * ?q = of_int (m * (2 ^ 31 - 1)) * 2 powi (- 31)" by (simp add: power_int_minus field_simps)
    moreover have "0 < m * (2 ^ 31 - 1)" "m * (2 ^ 31 - 1) < 2 ^ 53" using that by simp_all
    ultimately show ?thesis by (simp only: f64_exact)
  qed
  have "f64_div p t \<le> ?q"
    using f64_round_mono [of "p / t" ?q] assms scaled [of 1] by (simp add: f64_div_def divide_le_eq)
  then have "f64_mul (f64_div p t) 100 \<le> 100 * ?q"
    using f64_round_mono [of "f64_div p t * 100" "100 * ?q"] scaled [of 100] by (simp add: f64_mul_def)
  then have "f64_mul (f64_mul (f64_div p t) 100) 10 \<le> 1000 * ?q"
    using f64_round_mono [of "f64_mul (f64_div p t) 100 * 10" "1000 * ?q"] scaled [of 1000]
    by (simp add: f64_mul_def [of _ 10])
  also have "\<dots> < 1000" by simp
  finally have "\<lfloor>f64_mul (f64_mul (f64_div p t) 100) 10\<rfloor> \<le> 999" by linarith
  then have "(of_int \<lfloor>f64_mul (f64_mul (f64_div p t) 100) 10\<rfloor> :: rat) \<le> 999"
    by (metis of_int_le_iff of_int_numeral)
  moreover have "of_int 1599 * 2 powi (- 4) = (1599 / 16 :: rat)" by (simp add: power_int_minus)
  ultimately have "(of_int \<lfloor>f64_mul (f64_mul (f64_div p t) 100) 10\<rfloor> :: rat) / 10 \<le> of_int 1599 * 2 powi (- 4)"
    by linarith
  from f64_round_mono [OF this] f64_exact [of 1599 "- 4"]
  have "f64_div (of_int \<lfloor>f64_mul (f64_mul (f64_div p t) 100) 10\<rfloor>) 10 \<le> 1599 * 2 powi (- 4)"
    by (simp add: f64_div_def)
  also have "(1599 :: rat) * 2 powi (- 4) < 100" by (simp add: power_int_minus)
  finally show ?thesis .
qed

lemma perfect_score: "0 < t \<Longrightarrow> f64_div (of_int \<lfloor>f64_mul (f64_mul (f64_div t t) 100) 10\<rfloor>) 10 = 100"
  using f64_round_nat [of 1] f64_round_nat [of 100] f64_round_nat [of 1000]
  by (simp add: f64_div_def f64_mul_def)

lemma score_value:
  assumes "length xs < 2 ^ 28"
  shows "CalculateScore xs = (if total_halves xs = 0 then 100
    else f64_div (of_int \<lfloor>f64_mul (f64_mul (f64_div (of_int (passed_halves xs) / 2) (of_int (total_halves xs) / 2)) 100) 10\<rfloor>) 10)"
proof -
  have "foldl score_step (0, 0) xs = (of_int (passed_halves xs) / 2, of_int (total_halves xs) / 2)"
    using score_sums [of 0 0 xs] assms by simp
  then show ?thesis by (cases xs) (simp_all add: CalculateScore_def Let_def)
qed

lemma score_range:
  assumes len: "length xs < 2 ^ 28"
  shows "0 \<le> CalculateScore xs \<and> CalculateScore xs \<le> 100 \<and>
    (CalculateScore xs = 100 \<longleftrightarrow> (\<forall>x \<in> set xs. rr_status x \<in> {EvalPass, EvalNA}))"
proof (cases "total_halves xs = 0")
  case True
  then have "passed_halves xs = total_halves xs" using total_bounds [of xs] by linarith
  with True show ?thesis using all_passed [of xs] by (simp add: score_value [OF len])
next
  case False
  let ?p = "of_int (passed_halves xs) / 2 :: rat" and ?t = "of_int (total_halves xs) / 2 :: rat"
  note b = total_bounds [of xs]
  have pt: "0 \<le> ?p" "?p \<le> ?t" "0 < ?t" using b False by simp_all
  have score: "CalculateScore xs = f64_div (of_int \<lfloor>f64_mul (f64_mul (f64_div ?p ?t) 100) 10\<rfloor>) 10"
    using False by (simp add: score_value [OF len])
  have "CalculateScore xs = 100 \<longleftrightarrow> passed_halves xs = total_halves xs"
  proof
    assume "passed_halves xs = total_halves xs"
    with perfect_score [OF pt(3)] show "CalculateScore xs = 100" by (simp add: score)
  next
    assume hundred: "CalculateScore xs = 100"
    show "passed_halves xs = total_halves xs"
    proof (rule ccontr)
      assume "passed_halves xs \<noteq> total_halves xs"
      then have "passed_halves xs \<le> total_halves xs - 1" using b by linarith
      moreover have "int (length xs) < 2 ^ 28" using len by simp
      then have "total_halves xs \<le> 2 ^ 31" using b by simp
      ultimately have "(of_int (passed_halves xs) :: rat) \<le> (1 - 1 / 2 ^ 31) * of_int (total_halves xs)"
        by (simp add: field_simps)
      then have "?p \<le> (1 - 1 / 2 ^ 31) * ?t" by simp
      from imperfect_score [OF pt(1) this pt(3)] hundred show False by (simp add: score)
    qed
  qed
  with final_score_bounds [OF pt] all_passed [of xs] show ?thesis by (simp add: score)
qed

end
