(* ===== verification/Mem_Samples.thy ===== *)
theory Mem_Samples
  imports Mem_Store
begin

text \<open>
  Stores in memory for the witnesses: a list of nodes and a list of edges written one after the
  other, and the abstract graph that results.
\<close>

text \<open>A store in memory built by a sequence of writes.\<close>

definition put_all :: "node list \<Rightarrow> edge list \<Rightarrow> mem" where
  "put_all ns es = foldl (\<lambda>s e. snd (PutEdge mem_kv e s)) (foldl (\<lambda>s n. snd (PutNode mem_kv n s)) [] ns) es"

lemma put_all_inv:
  assumes "list_all node_ok ns" and "list_all edge_ok es"
  shows "badger_inv mem_kv (put_all ns es)"
proof -
  have "badger_inv mem_kv (foldl (\<lambda>s n. snd (PutNode mem_kv n s)) s ns)" if "badger_inv mem_kv s" for s
    using that assms(1)
  proof (induction ns arbitrary: s)
    case (Cons n ns)
    then have "badger_inv mem_kv (snd (PutNode mem_kv n s))"
      using badger.put_node [of mem_kv s n] by (simp add: badger_storage_def prod_eq_iff)
    with Cons show ?case by simp
  qed simp
  moreover have "badger_inv mem_kv (foldl (\<lambda>s e. snd (PutEdge mem_kv e s)) s es)" if "badger_inv mem_kv s" for s
    using that assms(2)
  proof (induction es arbitrary: s)
    case (Cons e es)
    then have "badger_inv mem_kv (snd (PutEdge mem_kv e s))"
      using badger.put_edge [of mem_kv s e] by (simp add: badger_storage_def prod_eq_iff)
    with Cons show ?case by simp
  qed simp
  ultimately show ?thesis by (simp add: put_all_def)
qed

lemma mem_put_edge:
  assumes "edge_json e = Some f"
  shows "fst (PutEdge mem_kv e s) = Ok ()"
proof -
  have "\<exists>old. getEdgeInTxn mem_kv (e_id e) s = (old, s) \<and> old \<noteq> Panic"
    by (auto simp: getEdgeInTxn_def txn_get_def go_bind_def mem_kv_def go_ret_def go_raise_def
        go_sum_def decode_edge_def split: option.splits entry.splits)
  then obtain old where "getEdgeInTxn mem_kv (e_id e) s = (old, s)" "old \<noteq> Panic" by blast
  then show ?thesis
    using assms by (cases old) (auto simp: PutEdge_def db_update_def DeindexEdge_def IndexEdge_def
        go_bind_def go_try_def go_ret_def kv_commit_mem)
qed

lemma upd_add: "(f(k \<mapsto> x)) ++ map_of (rev xs) = f ++ map_of (rev ((k, x) # xs))"
  by (auto simp: fun_eq_iff map_add_def split: option.splits)

text \<open>Documents that JSON leaves as they are come out as they were written.\<close>

lemma put_nodes:
  assumes "list_all (\<lambda>n. node_ok n \<and> node_json n = Some n) ns" and "badger_inv mem_kv s"
  defines "t \<equiv> foldl (\<lambda>s n. snd (PutNode mem_kv n s)) s ns"
  shows "badger_inv mem_kv t \<and> badger_edges mem_kv t = badger_edges mem_kv s \<and>
    badger_nodes mem_kv t = badger_nodes mem_kv s ++ map_of (rev (map (\<lambda>n. (n_id n, n)) ns))"
  using assms(1,2) unfolding t_def
proof (induction ns arbitrary: s)
  case (Cons n ns)
  obtain r u where run: "PutNode mem_kv n s = (r, u)" by fastforce
  have "r = Ok ()" using mem_put_node [of n n s] Cons.prems(1) run by simp
  with badger.put_node [of mem_kv s n r u] Cons.prems run
  have u: "badger_inv mem_kv u" "badger_edges mem_kv u = badger_edges mem_kv s"
    "badger_nodes mem_kv u = (badger_nodes mem_kv s)(n_id n \<mapsto> n)"
    by (auto simp: badger_storage_def)
  have "list_all (\<lambda>n. node_ok n \<and> node_json n = Some n) ns" using Cons.prems(1) by simp
  note rest = Cons.IH [OF this u(1)]
  show ?case using rest u(2) run by (simp only: foldl.simps snd_conv list.map u(3) upd_add)
qed simp

lemma put_edges:
  assumes "list_all (\<lambda>e. edge_ok e \<and> edge_json e = Some e) es" and "badger_inv mem_kv s"
  defines "t \<equiv> foldl (\<lambda>s e. snd (PutEdge mem_kv e s)) s es"
  shows "badger_inv mem_kv t \<and> badger_nodes mem_kv t = badger_nodes mem_kv s \<and>
    badger_edges mem_kv t = badger_edges mem_kv s ++ map_of (rev (map (\<lambda>e. (e_id e, e)) es))"
  using assms(1,2) unfolding t_def
proof (induction es arbitrary: s)
  case (Cons e es)
  obtain r u where run: "PutEdge mem_kv e s = (r, u)" by fastforce
  have "r = Ok ()" using mem_put_edge [of e e s] Cons.prems(1) run by simp
  with badger.put_edge [of mem_kv s e r u] Cons.prems run
  have u: "badger_inv mem_kv u" "badger_nodes mem_kv u = badger_nodes mem_kv s"
    "badger_edges mem_kv u = (badger_edges mem_kv s)(e_id e \<mapsto> e)"
    by (auto simp: badger_storage_def)
  have "list_all (\<lambda>e. edge_ok e \<and> edge_json e = Some e) es" using Cons.prems(1) by simp
  note rest = Cons.IH [OF this u(1)]
  show ?case using rest u(2) run by (simp only: foldl.simps snd_conv list.map u(3) upd_add)
qed simp

lemma put_all_graph:
  assumes "list_all (\<lambda>n. node_ok n \<and> node_json n = Some n) ns" and "list_all (\<lambda>e. edge_ok e \<and> edge_json e = Some e) es"
  shows "badger_inv mem_kv (put_all ns es)"
    and "badger_nodes mem_kv (put_all ns es) = map_of (rev (map (\<lambda>n. (n_id n, n)) ns))"
    and "badger_edges mem_kv (put_all ns es) = map_of (rev (map (\<lambda>e. (e_id e, e)) es))"
proof -
  have empty: "badger_nodes mem_kv [] = Map.empty" "badger_edges mem_kv [] = Map.empty"
    by (auto simp: badger_nodes_def badger_edges_def node_at_def edge_at_def fun_eq_iff)
  note n = put_nodes [OF assms(1) mem_inv_empty]
  note e = put_edges [OF assms(2), of "foldl (\<lambda>s n. snd (PutNode mem_kv n s)) [] ns"]
  show "badger_inv mem_kv (put_all ns es)"
    and "badger_nodes mem_kv (put_all ns es) = map_of (rev (map (\<lambda>n. (n_id n, n)) ns))"
    and "badger_edges mem_kv (put_all ns es) = map_of (rev (map (\<lambda>e. (e_id e, e)) es))"
    using n e by (simp_all add: put_all_def empty)
qed

text \<open>A graph over such a store.\<close>

definition sample_graph :: "node list \<Rightarrow> edge list \<Rightarrow> mem graph" where
  "sample_graph ns es = fresh_graph\<lparr>g_store := put_all ns es\<rparr>"

end
