(* ===== verification/Compliance_Properties.thy ===== *)
theory Compliance_Properties
  imports Compliance_Exact Compliance_Score Mem_Samples
begin

text \<open>
  What compliance checking promises: no sequence of its operations panics or damages the graph, a
  scan reports on every rule, scores stay in range and show every failure, two rules with a
  deadline or a relation are exact, one rule never reports anything, and an inspection with an open
  finding cannot be signed off.
\<close>

section \<open>Sequences of operations\<close>

text \<open>One call of the engine or of an inspection function, its result discarded.\<close>

datatype 's compliance_op =
    OpRegister "'s compliance_rule"
  | OpScan "nat \<Rightarrow> gerr option" scan_request
  | OpEnsure
  | OpTick "string \<Rightarrow> nat \<Rightarrow> gerr option"
  | OpInspection props "string list" string
  | OpFinding string props "string list"
  | OpRemediation string props
  | OpSignOff string string
  | OpValidate string
  | OpLog string string string string

definition discard :: "('x, 'a) go \<Rightarrow> ('x, unit) go" where
  "discard m = go_bind m (\<lambda>_. go_ret ())"

fun run_op :: "(string \<Rightarrow> string) \<Rightarrow> 's storage_ops \<Rightarrow> 's compliance_op \<Rightarrow> ('s compliance_engine, unit) go" where
  "run_op quote ops (OpRegister r) = RegisterRule r"
| "run_op quote ops (OpScan ctx req) = discard (RunScan ops ctx req)"
| "run_op quote ops OpEnsure = EnsureFrameworkNodes ops"
| "run_op quote ops (OpTick ctx) = runAllFrameworks ops ctx"
| "run_op quote ops (OpInspection ps scope scan) = on_graph (discard (CreateInspection ops (Some ps) scope scan))"
| "run_op quote ops (OpFinding i ps affected) = on_graph (discard (CreateFinding ops i (Some ps) affected))"
| "run_op quote ops (OpRemediation i ps) = on_graph (discard (CreateRemediation ops i (Some ps)))"
| "run_op quote ops (OpSignOff i approver) = on_graph (SignOffInspection ops i approver)"
| "run_op quote ops (OpValidate i) = on_graph (discard (ValidateDataFlows quote ops i))"
| "run_op quote ops (OpLog et actor details related) = on_graph (LogEvent ops et actor details related)"

fun op_ok :: "(string \<Rightarrow> string) \<Rightarrow> 's compliance_op \<Rightarrow> bool" where
  "op_ok quote (OpRegister r) \<longleftrightarrow> known_rule quote r"
| "op_ok quote (OpInspection ps scope scan) \<longleftrightarrow> distinct (map fst ps)"
| "op_ok quote (OpFinding i ps affected) \<longleftrightarrow> distinct (map fst ps)"
| "op_ok quote (OpRemediation i ps) \<longleftrightarrow> distinct (map fst ps)"
| "op_ok quote _ \<longleftrightarrow> True"

context graph_storage
begin

lemma sound_discard: "go_safe P m \<Longrightarrow> go_safe P (discard m)"
  unfolding discard_def by (intro safe_bind safe_ret)

lemma sound_op:
  assumes "op_ok quote x"
  shows "go_safe (sound_engine quote Mapped) (run_op quote ops x)"
proof (cases x)
  case (OpRegister r)
  with assms show ?thesis by (auto intro!: go_safeI simp: RegisterRule_def)
next
  case (OpScan ctx req)
  then show ?thesis by (simp add: sound_discard sound_run_scan)
next
  case OpEnsure
  then show ?thesis by (simp add: sound_ensure)
next
  case (OpTick ctx)
  then show ?thesis by (simp add: sound_run_all)
next
  case (OpInspection ps scope scan)
  with assms show ?thesis by (simp add: props_ok_def sound_on_graph sound_discard sound_inspection)
next
  case (OpFinding i ps affected)
  with assms show ?thesis by (simp add: props_ok_def sound_on_graph sound_discard sound_inspection)
next
  case (OpRemediation i ps)
  with assms show ?thesis by (simp add: props_ok_def sound_on_graph sound_discard sound_inspection)
next
  case (OpSignOff i approver)
  then show ?thesis by (simp add: sound_on_graph sound_sign_off)
next
  case (OpValidate i)
  then show ?thesis by (simp add: sound_on_graph sound_discard sound_validate_flows)
next
  case (OpLog et actor details related)
  then show ?thesis by (simp add: sound_on_graph sound_log)
qed

lemma sound_ops:
  assumes "list_all (op_ok quote) xs" and "sound_engine quote Mapped e"
  shows "\<exists>e'. go_for xs (\<lambda>x. go_ignore (run_op quote ops x)) e = (Ok (), e') \<and> sound_engine quote Mapped e'"
  using assms
proof (induction xs arbitrary: e)
  case (Cons x xs)
  have "go_safe (sound_engine quote Mapped) (run_op quote ops x)" using sound_op Cons.prems(1) by simp
  from go_safeD [OF this Cons.prems(2)] obtain e1 where
    "go_ignore (run_op quote ops x) e = (Ok (), e1)" "sound_engine quote Mapped e1"
    by (cases "run_op quote ops x e"; cases "fst (run_op quote ops x e)")
      (auto simp: go_ignore_def go_try_def go_bind_def go_ret_def)
  with Cons.IH [of e1] Cons.prems(1) show ?case by (simp add: go_bind_def)
qed (simp add: go_ret_def)

end


lemma fresh_sound [simp]:
  "badger_inv mem_kv (g_store fresh_graph)" "badger_nodes mem_kv (g_store fresh_graph) = Map.empty"
  "badger_edges mem_kv (g_store fresh_graph) = Map.empty"
  by (simp_all add: fresh_graph_def badger_nodes_def badger_edges_def node_at_def edge_at_def fun_eq_iff)

lemma fresh_engine [simp]: "en_graph (NewEngine g) = g" "en_rules (NewEngine g) = []"
  by (simp_all add: NewEngine_def)


section \<open>Scans and scores\<close>

text \<open>
  C29. A scan that is not cancelled returns a result, stored or not: its evaluations are, rule by
  rule in the order of registration, at least one for every selected rule, each with the rule's
  identifier and severity, and its four counters add up to their number.
\<close>

theorem scan_reports_every_rule:
  assumes "badger_inv kv (g_store (en_graph e))"
    and "list_all (known_rule quote) (en_rules e)" and "\<forall>j. ctx j = None"
  shows "\<exists>result err e' yss. RunScan (badger_storage kv) ctx req e = (Ok (Some result, err), e') \<and>
    sc_evaluations result = concat yss \<and>
    list_all2 (\<lambda>r ys. ys \<noteq> [] \<and> (\<forall>y \<in> set ys. rr_rule y = cr_id r \<and> rr_severity y = cr_severity r))
      (selected req (en_rules e)) yss \<and>
    sc_pass result + sc_fail result + sc_warning result + sc_na result = length (sc_evaluations result)"
proof -
  have "badger.sound kv Consistent (en_graph e)" using assms(1) by (simp add: badger.sound_def)
  with badger.scan_run [of kv Consistent e quote ctx req] assms(2,3)
  obtain result err e' yss where run: "RunScan (badger_storage kv) ctx req e = (Ok (Some result, err), e')"
    and evs: "sc_evaluations result = concat yss"
    and all: "list_all2 (\<lambda>r ys. ys \<noteq> [] \<and> list_all (own_result (cr_id r) (cr_severity r)) ys)
      (selected req (en_rules e)) yss"
    and result: "result = scan_result_of (sc_id result) (sr_framework req) (sc_started result)
      (sc_completed result) (sc_evaluations result)" by auto
  have "list_all2 (\<lambda>r ys. ys \<noteq> [] \<and> (\<forall>y \<in> set ys. rr_rule y = cr_id r \<and> rr_severity y = cr_severity r))
      (selected req (en_rules e)) yss"
    by (rule list_all2_mono [OF all]) (auto simp: list_all_iff own_result_def)
  moreover have "list_all (\<lambda>x. rr_status x \<in> {EvalPass, EvalFail, EvalWarning, EvalNA}) (concat yss)"
    using all by (induction rule: list_all2_induct) (auto simp: list_all_iff own_result_def)
  from statuses_counted [OF this] evs result
  have "sc_pass result + sc_fail result + sc_warning result + sc_na result = length (sc_evaluations result)"
    by (metis scan_result.select_convs(6,7,8,9) scan_result_of_def)
  ultimately show ?thesis using run evs by blast
qed

theorem scan_reports_every_rule_witness:
  "\<exists>result err e'. RunScan mem_ops (\<lambda>_. None) \<lparr>sr_framework = ''gdpr'', sr_module = ''dsr''\<rparr>
      ((NewEngine fresh_graph)\<lparr>en_rules := gdpr_rules\<rparr>) = (Ok (Some result, err), e') \<and>
    {''GDPR-DSR-001'', ''GDPR-DSR-002''} \<subseteq> rr_rule ` set (sc_evaluations result)"
proof -
  have sel: "selected \<lparr>sr_framework = ''gdpr'', sr_module = ''dsr''\<rparr> gdpr_rules =
      [gdprDSR001, gdprDSR002 :: mem compliance_rule]"
    by (simp add: selected_def gdpr_rules_def rule_defs Let_def)
  have known: "list_all (known_rule (\<lambda>s. s)) (gdpr_rules :: mem compliance_rule list)" by (simp add: known_rule_def list_all_iff)
  have ids: "cr_id gdprDSR001 = ''GDPR-DSR-001''" "cr_id gdprDSR002 = ''GDPR-DSR-002''"
    by (simp_all add: rule_defs Let_def)
  let ?e = "(NewEngine fresh_graph)\<lparr>en_rules := gdpr_rules\<rparr>"
  from scan_reports_every_rule [of mem_kv ?e "\<lambda>s. s" "\<lambda>_. None" "\<lparr>sr_framework = ''gdpr'', sr_module = ''dsr''\<rparr>"] known
  have "\<exists>result err e' yss. RunScan mem_ops (\<lambda>_. None) \<lparr>sr_framework = ''gdpr'', sr_module = ''dsr''\<rparr> ?e =
      (Ok (Some result, err), e') \<and> sc_evaluations result = concat yss \<and>
    list_all2 (\<lambda>r ys. ys \<noteq> [] \<and> (\<forall>y \<in> set ys. rr_rule y = cr_id r \<and> rr_severity y = cr_severity r))
      [gdprDSR001, gdprDSR002 :: mem compliance_rule] yss"
    by (simp add: no_dangling_def sel) blast
  then obtain result err e' yss where run: "RunScan mem_ops (\<lambda>_. None) \<lparr>sr_framework = ''gdpr'', sr_module = ''dsr''\<rparr> ?e =
      (Ok (Some result, err), e')" "sc_evaluations result = concat yss"
    "list_all2 (\<lambda>r ys. ys \<noteq> [] \<and> (\<forall>y \<in> set ys. rr_rule y = cr_id r \<and> rr_severity y = cr_severity r))
      [gdprDSR001, gdprDSR002 :: mem compliance_rule] yss" by blast
  from run(3) obtain ys zs where two: "yss = [ys, zs]" "ys \<noteq> []" "zs \<noteq> []"
    "\<forall>y \<in> set ys. rr_rule y = ''GDPR-DSR-001''" "\<forall>y \<in> set zs. rr_rule y = ''GDPR-DSR-002''"
    by (auto simp: list_all2_Cons1 ids)
  moreover from this obtain y z where "y \<in> set ys" "z \<in> set zs" by (metis last_in_set)
  ultimately have "rr_rule y = ''GDPR-DSR-001''" "rr_rule z = ''GDPR-DSR-002''"
    "{y, z} \<subseteq> set (sc_evaluations result)" by (simp_all add: run(2))
  then have "{''GDPR-DSR-001'', ''GDPR-DSR-002''} \<subseteq> rr_rule ` set (sc_evaluations result)"
    by (metis insert_subset image_eqI empty_subsetI)
  with run(1) show ?thesis by blast
qed

text \<open>
  C30. A score lies between 0 and 100, and it is 100 exactly when every result is a pass or not
  applicable: no failure or warning is rounded away (fewer than \<open>2 ^ 28\<close> results).
\<close>

theorem score_shows_failures:
  assumes "length results < 2 ^ 28"
  shows "0 \<le> CalculateScore results \<and> CalculateScore results \<le> 100 \<and>
    (CalculateScore results = 100 \<longleftrightarrow> (\<forall>x \<in> set results. rr_status x \<in> {EvalPass, EvalNA}))"
  by (rule score_range [OF assms])

theorem score_shows_failures_witness:
  "CalculateScore [res ''A'' ''critical'' EvalPass ''n'' [], res ''B'' ''low'' EvalFail ''n'' []] < 100"
  using score_shows_failures [of "[res ''A'' ''critical'' EvalPass ''n'' [], res ''B'' ''low'' EvalFail ''n'' []]"]
  by (auto simp: res_def order_less_le)

section \<open>Rules\<close>

text \<open>
  C31. The breach rule is exact: it reports once on every stored breach, and fails exactly the
  severe ones that were never notified, or whose notification came more than 72 hours after the
  discovery, in whatever time zones the two were written.
\<close>

theorem breach_rule_exact:
  assumes "badger_inv kv (g_store g)"
  shows "\<exists>rs. cr_eval gdprBreach001 (graphAdapter (badger_storage kv)) g = (Ok rs, g) \<and>
    distinct (map rr_node rs) \<and>
    rr_node ` set rs = {i. \<exists>n. badger_nodes kv (g_store g) i = Some n \<and> n_label n = ''DataBreach''} \<and>
    (\<forall>x \<in> set rs. \<forall>n. badger_nodes kv (g_store g) (rr_node x) = Some n \<longrightarrow>
      (rr_status x = EvalFail \<longleftrightarrow> breach_overdue (n_props n)))"
proof -
  have l: "colon_free ''DataBreach''" by simp
  note items = badger.adapter_nodes(2,3) [OF assms l]
  let ?rs = "map (breach_result (res ''GDPR-BREACH-001'' ''critical'')) (badger.stored_items kv g ''DataBreach'')"
  have nodes: "map rr_node ?rs = map ni_id (badger.stored_items kv g ''DataBreach'')" by simp
  have "distinct (map rr_node ?rs)" by (simp only: nodes items(1))
  moreover have "rr_node ` set ?rs = {i. \<exists>n. badger_nodes kv (g_store g) i = Some n \<and> n_label n = ''DataBreach''}"
    using arg_cong [OF nodes, of set] badger.item_ids [OF assms l] by (simp only: set_map)
  moreover have "rr_status x = EvalFail \<longleftrightarrow> breach_overdue (n_props n)"
    if "x \<in> set ?rs" "badger_nodes kv (g_store g) (rr_node x) = Some n" for x n
    using that by (auto simp: items(2) breach_status node_item_of_def)
  ultimately show ?thesis
    using badger_rules.breach_run [OF assms] by blast
qed

text \<open>A breach discovered at 10:00 in Berlin and notified three days later at 08:30 UTC, and one at 09:30.\<close>

definition late_breach :: "string \<Rightarrow> node" where
  "late_breach t = \<lparr>n_id = ''n:DataBreach:1'', n_label = ''DataBreach'', n_props = Some
     [(''severity'', VStr ''high''), (''discoveredAt'', VStr ''2026-01-05T10:00:00+01:00''),
      (''authorityNotifiedAt'', VStr t)], n_created = 0\<rparr>"

definition breach_graph :: "string \<Rightarrow> mem graph" where
  "breach_graph t = fresh_graph\<lparr>g_store := snd (PutNode mem_kv (late_breach t) [])\<rparr>"

theorem breach_rule_exact_witness:
  "\<exists>rs. cr_eval gdprBreach001 (graphAdapter mem_ops) (breach_graph ''2026-01-08T09:30:00Z'') = (Ok rs, breach_graph ''2026-01-08T09:30:00Z'') \<and>
     (\<exists>x \<in> set rs. rr_node x = ''n:DataBreach:1'' \<and> rr_status x = EvalFail)"
proof -
  let ?n = "late_breach ''2026-01-08T09:30:00Z''" and ?g = "breach_graph ''2026-01-08T09:30:00Z''"
  have "node_ok ?n" by (simp add: node_ok_def late_breach_def props_ok_def)
  then have "badger_inv mem_kv (g_store ?g)"
    unfolding breach_graph_def
    using badger.put_node [of mem_kv "[]" ?n] by (simp add: badger_storage_def prod_eq_iff)
  moreover have at: "badger_nodes mem_kv (g_store ?g) ''n:DataBreach:1'' = Some ?n"
    unfolding badger_nodes_def mem_view by code_simp
  moreover have "breach_overdue (n_props ?n)"
  proof -
    have "parse_stamp ''2026-01-05T10:00:00+01:00'' = Some \<lparr>ts_year = 2026, ts_month = 1, ts_day = 5,
        ts_hour = 10, ts_min = 0, ts_sec = 0, ts_nano = 0, ts_zone = 60\<rparr>" by code_simp
    moreover have "parse_stamp ''2026-01-08T09:30:00Z'' = Some \<lparr>ts_year = 2026, ts_month = 1, ts_day = 8,
        ts_hour = 9, ts_min = 30, ts_sec = 0, ts_nano = 0, ts_zone = 0\<rparr>" by code_simp
    ultimately show ?thesis
      by (simp add: breach_overdue_def late_breach_def propStr_def instant_def days_of_civil_def)
  qed
  ultimately have inv: "badger_inv mem_kv (g_store ?g)" and over: "breach_overdue (n_props ?n)" by simp_all
  have label: "n_label ?n = ''DataBreach''" by (simp add: late_breach_def)
  obtain rs where run: "cr_eval gdprBreach001 (graphAdapter mem_ops) ?g = (Ok rs, ?g)"
    and ids: "rr_node ` set rs = {i. \<exists>n. badger_nodes mem_kv (g_store ?g) i = Some n \<and> n_label n = ''DataBreach''}"
    and fails: "\<forall>x \<in> set rs. \<forall>n. badger_nodes mem_kv (g_store ?g) (rr_node x) = Some n \<longrightarrow>
      (rr_status x = EvalFail \<longleftrightarrow> breach_overdue (n_props n))"
    using breach_rule_exact [OF inv] by blast
  have "''n:DataBreach:1'' \<in> rr_node ` set rs" unfolding ids using at label by blast
  then obtain x where x: "x \<in> set rs" "rr_node x = ''n:DataBreach:1''" by fastforce
  with fails at over have "rr_status x = EvalFail" by metis
  with run x show ?thesis by blast
qed

text \<open>
  C32. The assessment rule is exact: it reports on the stored processing activities of high risk and
  on no others, and passes exactly those that an assessment is linked to by a \<open>DPIA_FOR\<close> edge
  ending at the activity.
\<close>

theorem dpia_rule_exact:
  assumes "badger_inv kv (g_store g)"
  shows "\<exists>rs. cr_eval gdprDPIA001 (graphAdapter (badger_storage kv)) g = (Ok rs, g) \<and>
    {(rr_node x, rr_status x) | x. x \<in> set rs} =
    {(i, if \<exists>k d j e. badger_nodes kv (g_store g) k = Some d \<and> n_label d = ''DPIA'' \<and>
          badger_edges kv (g_store g) j = Some e \<and> incident k e \<and> e_label e = ''DPIA_FOR'' \<and> e_to e = i
        then EvalPass else EvalFail) | i n.
      badger_nodes kv (g_store g) i = Some n \<and> n_label n = ''ProcessingActivity'' \<and>
      EqualFold (propStr (n_props n) ''riskLevel'') ''high''}"
proof -
  have l: "colon_free ''DPIA''" "colon_free ''ProcessingActivity''" by simp_all
  note ds = badger.adapter_nodes(3) [OF assms l(1)]
    and as = badger.adapter_nodes(3) [OF assms l(2)]
    and es = badger.adapter_edges(2) [OF assms]
  have kn: "n_id n = i" if "badger_nodes kv (g_store g) i = Some n" for i n
    using badger.keyed_node [OF assms that] by simp
  have ke: "e_id e = i" if "badger_edges kv (g_store g) i = Some e" for i e
    using badger.keyed_edge [OF assms that] by simp
  have cov: "(\<exists>d \<in> set (badger.stored_items kv g ''DPIA''). \<exists>e \<in> set (badger.stored_links kv g (ni_id d)).
        ei_label e = ''DPIA_FOR'' \<and> ei_to e = i) \<longleftrightarrow>
      (\<exists>k d j e. badger_nodes kv (g_store g) k = Some d \<and> n_label d = ''DPIA'' \<and>
        badger_edges kv (g_store g) j = Some e \<and> incident k e \<and> e_label e = ''DPIA_FOR'' \<and> e_to e = i)" for i
    using kn ke by (simp add: ds es edge_item_of_def node_item_of_def) metis
  define C where "C i \<longleftrightarrow> (\<exists>k d j e. badger_nodes kv (g_store g) k = Some d \<and> n_label d = ''DPIA'' \<and>
      badger_edges kv (g_store g) j = Some e \<and> incident k e \<and> e_label e = ''DPIA_FOR'' \<and> e_to e = i)" for i
  define H where "H ps \<longleftrightarrow> EqualFold (propStr ps ''riskLevel'') ''high''" for ps
  let ?as = "badger.stored_items kv g ''ProcessingActivity''"
  have same: "{(ni_id a, if C (ni_id a) then EvalPass else EvalFail) | a. a \<in> set ?as \<and> H (ni_props a)} =
    {(i, if C i then EvalPass else EvalFail) | i n.
      badger_nodes kv (g_store g) i = Some n \<and> n_label n = ''ProcessingActivity'' \<and> H (n_props n)}"
    (is "?L = ?R")
  proof (rule set_eqI)
    fix p
    show "p \<in> ?L \<longleftrightarrow> p \<in> ?R"
      using badger.items_ex [OF assms l(2), of "\<lambda>i ps. p = (i, if C i then EvalPass else EvalFail) \<and> H ps"]
      by (simp only: mem_Collect_eq) blast
  qed
  show ?thesis
    unfolding badger_rules.dpia_run [OF assms] cov C_def [symmetric] H_def [symmetric]
    by (intro exI conjI, rule refl) (rule trans [OF verdicts [where H = H and C = C] same])
qed

text \<open>Two risky activities, one of them assessed.\<close>

definition activity :: "string \<Rightarrow> node" where
  "activity i = \<lparr>n_id = i, n_label = ''ProcessingActivity'', n_props = Some [(''riskLevel'', VStr ''High'')], n_created = 0\<rparr>"

definition assessed_graph :: "mem graph" where
  "assessed_graph = fresh_graph\<lparr>g_store := put_all
     [activity ''a'', activity ''b'', \<lparr>n_id = ''d'', n_label = ''DPIA'', n_props = None, n_created = 0\<rparr>]
     [\<lparr>e_id = ''e:DPIA_FOR:1'', e_label = ''DPIA_FOR'', e_from = ''d'', e_to = ''a'', e_props = None, e_created = 0\<rparr>]\<rparr>"

lemma assessed_inv: "badger_inv mem_kv (g_store assessed_graph)"
  unfolding assessed_graph_def
  by (simp add: put_all_inv node_ok_def edge_ok_def props_ok_def activity_def)

lemma assessed_docs:
  "badger_nodes mem_kv (g_store assessed_graph) ''a'' = Some (activity ''a'')"
  "badger_nodes mem_kv (g_store assessed_graph) ''d'' = Some \<lparr>n_id = ''d'', n_label = ''DPIA'', n_props = None, n_created = 0\<rparr>"
  "badger_edges mem_kv (g_store assessed_graph) ''e:DPIA_FOR:1'' = Some \<lparr>e_id = ''e:DPIA_FOR:1'',
     e_label = ''DPIA_FOR'', e_from = ''d'', e_to = ''a'', e_props = None, e_created = 0\<rparr>"
  unfolding badger_nodes_def badger_edges_def mem_view by code_simp+

theorem dpia_rule_exact_witness:
  "\<exists>rs. cr_eval gdprDPIA001 (graphAdapter mem_ops) assessed_graph = (Ok rs, assessed_graph) \<and>
     (\<exists>x \<in> set rs. rr_node x = ''a'' \<and> rr_status x = EvalPass)"
proof -
  have "EqualFold ''High'' ''high''" by code_simp
  then have high: "EqualFold (propStr (n_props (activity ''a'')) ''riskLevel'') ''high''"
    "n_label (activity ''a'') = ''ProcessingActivity''" by (simp_all add: activity_def propStr_def)
  have cov: "\<exists>k d j e. badger_nodes mem_kv (g_store assessed_graph) k = Some d \<and> n_label d = ''DPIA'' \<and>
      badger_edges mem_kv (g_store assessed_graph) j = Some e \<and> incident k e \<and> e_label e = ''DPIA_FOR'' \<and> e_to e = ''a''"
    by (intro exI conjI, rule assessed_docs(2), simp, rule assessed_docs(3)) (simp_all add: incident_def)
  obtain rs where rs: "cr_eval gdprDPIA001 (graphAdapter mem_ops) assessed_graph = (Ok rs, assessed_graph)"
    "{(rr_node x, rr_status x) | x. x \<in> set rs} =
    {(i, if \<exists>k d j e. badger_nodes mem_kv (g_store assessed_graph) k = Some d \<and> n_label d = ''DPIA'' \<and>
          badger_edges mem_kv (g_store assessed_graph) j = Some e \<and> incident k e \<and> e_label e = ''DPIA_FOR'' \<and> e_to e = i
        then EvalPass else EvalFail) | i n.
      badger_nodes mem_kv (g_store assessed_graph) i = Some n \<and> n_label n = ''ProcessingActivity'' \<and>
      EqualFold (propStr (n_props n) ''riskLevel'') ''high''}"
    using dpia_rule_exact [OF assessed_inv] by blast
  have "(''a'', EvalPass) \<in> {(rr_node x, rr_status x) | x. x \<in> set rs}"
    unfolding rs(2) using high cov assessed_docs(1) by (intro CollectI exI [of _ "''a''"] exI [of _ "activity ''a''"]) simp
  with rs(1) show ?thesis by force
qed

text \<open>
  The rule on special categories never reports anything, whatever the graph holds, so a scan
  always files it as not applicable; validating the same flow by \<open>ValidateDataFlows\<close> fails it when
  it carries a special category without consent.
\<close>

theorem special_category_rule_silent:
  assumes "badger_inv kv (g_store g)"
  shows "cr_eval gdprFlow004 (graphAdapter (badger_storage kv)) g = (Ok [], g) \<and>
    map rr_status (rule_outcome gdprFlow004 (Inr [])) = [EvalNA] \<and>
    (\<not> mentions_consent (propStr (ni_props f) ''legalBasis'') \<longrightarrow>
      overall_status EvalPass (flow_checks f es True) = EvalFail)"
  using badger_rules.flow004_run [OF assms]
  by (simp add: rule_outcome_def res_def flow_checks_def vcheck_def)

theorem special_category_rule_silent_witness:
  "cr_eval gdprFlow004 (graphAdapter mem_ops) assessed_graph = (Ok [], assessed_graph) \<and>
   overall_status EvalPass (flow_checks \<lparr>ni_id = ''f'', ni_label = ''DataFlow'', ni_props = Some [(''legalBasis'', VStr ''contract'')]\<rparr>
     [] True) = EvalFail"
proof -
  have "\<not> mentions_consent ''contract''" by code_simp
  then have "\<not> mentions_consent (propStr (ni_props \<lparr>ni_id = ''f'', ni_label = ''DataFlow'',
      ni_props = Some [(''legalBasis'', VStr ''contract'')]\<rparr>) ''legalBasis'')" by (simp add: propStr_def)
  with special_category_rule_silent [OF assessed_inv] show ?thesis by blast
qed

section \<open>Signing off\<close>

text \<open>
  C33. An inspection with an edge to a finding that is open cannot be signed off: the call fails and
  changes nothing. When it succeeds, the inspection is stored as signed off by the approver.
\<close>

theorem sign_off_needs_closed_findings:
  assumes "badger_inv kv (g_store g)" and "SignOffInspection (badger_storage kv) i approver g = (r, g')"
    and "\<not> has_prefix ''n:ComplianceEvent:'' i"
  shows "((\<exists>k e. badger_edges kv (g_store g) k = Some e \<and> incident i e \<and>
        open_finding (badger_nodes kv (g_store g)) e) \<longrightarrow> (\<exists>x. r = Err x) \<and> g' = g) \<and>
    (r = Ok () \<longrightarrow> (\<exists>n. badger_nodes kv (g_store g') i = Some n \<and>
        propStr (n_props n) ''status'' = ''signed_off'' \<and> propStr (n_props n) ''approverId'' = approver))"
  using badger.sign_off_spec [OF assms(1,2)] assms(3) by blast

definition inspected_graph :: "string \<Rightarrow> mem graph" where
  "inspected_graph st = fresh_graph\<lparr>g_store := put_all
     [\<lparr>n_id = ''i'', n_label = ''Inspection'', n_props = Some [(''status'', VStr ''review'')], n_created = 0\<rparr>,
      \<lparr>n_id = ''f'', n_label = ''InspectionFinding'', n_props = Some [(''status'', VStr st)], n_created = 0\<rparr>]
     [\<lparr>e_id = ''e:HAS_FINDING:1'', e_label = ''HAS_FINDING'', e_from = ''i'', e_to = ''f'', e_props = None, e_created = 0\<rparr>]\<rparr>"

lemma inspected_inv: "badger_inv mem_kv (g_store (inspected_graph st))"
  unfolding inspected_graph_def by (simp add: put_all_inv node_ok_def edge_ok_def props_ok_def)

theorem sign_off_needs_closed_findings_witness:
  "\<exists>x. fst (SignOffInspection mem_ops ''i'' ''ann'' (inspected_graph ''open'')) = Err x"
proof -
  let ?g = "inspected_graph ''open''"
  obtain r g' where run: "SignOffInspection mem_ops ''i'' ''ann'' ?g = (r, g')" by fastforce
  have other: "\<not> has_prefix ''n:ComplianceEvent:'' ''i''" by (simp add: has_prefix_def)
  have docs: "badger_edges mem_kv (g_store ?g) ''e:HAS_FINDING:1'' = Some \<lparr>e_id = ''e:HAS_FINDING:1'', e_label = ''HAS_FINDING'',
      e_from = ''i'', e_to = ''f'', e_props = None, e_created = 0\<rparr>"
    "badger_nodes mem_kv (g_store ?g) ''f'' = Some \<lparr>n_id = ''f'', n_label = ''InspectionFinding'',
      n_props = Some [(''status'', VStr ''open'')], n_created = 0\<rparr>"
    unfolding badger_nodes_def badger_edges_def mem_view by code_simp+
  have "\<exists>k e. badger_edges mem_kv (g_store ?g) k = Some e \<and> incident ''i'' e \<and>
      open_finding (badger_nodes mem_kv (g_store ?g)) e"
    by (intro exI conjI, rule docs(1)) (simp_all add: incident_def open_finding_def propStr_def docs(2))
  with sign_off_needs_closed_findings [OF inspected_inv run other] run have "\<exists>x. r = Err x" by blast
  with run show ?thesis by simp
qed

end
