(* ===== verification/Go_Slices.thy ===== *)
theory Go_Slices
  imports Go_Clock Go_Value
begin

text \<open>
  More of Go's library: \<open>sort.Slice\<close>, splitting and trimming of strings, the order of float64
  values, wrapping int64 arithmetic, and RFC 3339 texts in the local time zone.
\<close>

section \<open>Numbers\<close>

definition wrap64 :: "int \<Rightarrow> int" where
  "wrap64 i = sint (word_of_int i :: 64 word)"

text \<open>\<open>a < b\<close> on float64 bits: a NaN compares with nothing, and both zeros are equal.\<close>

definition f64_nan :: "64 word \<Rightarrow> bool" where
  "f64_nan w \<longleftrightarrow> unat w mod 2 ^ 63 > 2047 * 2 ^ 52"

definition f64_rank :: "64 word \<Rightarrow> int" where
  "f64_rank w = (if unat w < 2 ^ 63 then int (unat w) else - int (unat w mod 2 ^ 63))"

definition f64_less :: "64 word \<Rightarrow> 64 word \<Rightarrow> bool" where
  "f64_less a b \<longleftrightarrow> \<not> f64_nan a \<and> \<not> f64_nan b \<and> f64_rank a < f64_rank b"

lemma wrap64_id: "int64_ok i \<Longrightarrow> wrap64 i = i"
  by (simp add: wrap64_def int64_ok_def int64_min_def int64_max_def sint_word_ariths signed_take_bit_int_eq_self
      of_int_def [symmetric] signed_of_int)

section \<open>Sorting\<close>

text \<open>
  \<open>sort.Slice\<close> promises a sorted permutation and nothing about equal elements, so the order it
  chooses is a parameter: from the length and the comparison of positions to the positions in
  their new order. A loop over a Go map that fills the slice meets the keys in any order; as the
  choice among equal elements is free, the model may fix the order of the loop.
\<close>

type_synonym slice_order = "nat \<Rightarrow> (nat \<Rightarrow> nat \<Rightarrow> bool) \<Rightarrow> nat list"

definition sort_slice :: "slice_order \<Rightarrow> ('a \<Rightarrow> 'a \<Rightarrow> bool) \<Rightarrow> 'a list \<Rightarrow> 'a list" where
  "sort_slice ord lt xs = map ((!) xs) (ord (length xs) (\<lambda>i j. lt (xs ! i) (xs ! j)))"

text \<open>A strict weak order on the elements of a set, extended to one on all.\<close>

definition strict_weak_on :: "'a set \<Rightarrow> ('a \<Rightarrow> 'a \<Rightarrow> bool) \<Rightarrow> bool" where
  "strict_weak_on A lt \<longleftrightarrow> (\<forall>x \<in> A. \<not> lt x x) \<and> (\<forall>x \<in> A. \<forall>y \<in> A. lt x y \<longrightarrow> \<not> lt y x) \<and>
     (\<forall>x \<in> A. \<forall>y \<in> A. \<forall>z \<in> A. \<not> lt y x \<longrightarrow> \<not> lt z y \<longrightarrow> \<not> lt z x)"

lemma strict_weak_on_subset: "strict_weak lt \<Longrightarrow> strict_weak_on A lt"
  unfolding strict_weak_def strict_weak_on_def by blast

lemma strict_weak_extend:
  assumes "strict_weak_on A lt"
  shows "strict_weak (\<lambda>x y. if x \<in> A \<and> y \<in> A then lt x y else x \<in> A \<and> y \<notin> A)" (is "strict_weak ?lu")
proof -
  have tr: "\<not> lt y x \<Longrightarrow> \<not> lt z y \<Longrightarrow> \<not> lt z x" if "x \<in> A" "y \<in> A" "z \<in> A" for x y z
    using assms that unfolding strict_weak_on_def by blast
  have irr: "\<not> lt x x" if "x \<in> A" for x using assms that unfolding strict_weak_on_def by blast
  have asym: "lt x y \<Longrightarrow> \<not> lt y x" if "x \<in> A" "y \<in> A" for x y
    using assms that unfolding strict_weak_on_def by blast
  have "\<not> ?lu x x" for x using irr by simp
  moreover have "?lu x y \<Longrightarrow> \<not> ?lu y x" for x y
    using asym [of x y] by (cases "x \<in> A"; cases "y \<in> A") simp_all
  moreover have "\<not> ?lu y x \<Longrightarrow> \<not> ?lu z y \<Longrightarrow> \<not> ?lu z x" for x y z
    using tr [of x y z] by (cases "x \<in> A"; cases "y \<in> A"; cases "z \<in> A") simp_all
  ultimately show ?thesis unfolding strict_weak_def by blast
qed

lemma f64_less_weak: "(\<And>x. x \<in> A \<Longrightarrow> \<not> f64_nan (f x)) \<Longrightarrow> strict_weak_on A (\<lambda>a b. f64_less (f b) (f a))"
  by (auto simp: strict_weak_on_def f64_less_def)

lemma insert_by_cong:
  "(\<And>y. y \<in> set xs \<Longrightarrow> lt y x = lu y x) \<Longrightarrow> insert_by lt x xs = insert_by lu x xs"
  by (induction xs) auto

lemma sort_by_cong:
  "(\<And>x y. x \<in> set xs \<Longrightarrow> y \<in> set xs \<Longrightarrow> lt x y = lu x y) \<Longrightarrow> sort_by lt xs = sort_by lu xs"
proof (induction xs)
  case (Cons x xs)
  then have "sort_by lt xs = sort_by lu xs" by simp
  with Cons.prems show ?case by (auto intro!: insert_by_cong)
qed simp

lemma sorted_sort_by_on:
  assumes "strict_weak_on (set xs) lt"
  shows "sorted_wrt (\<lambda>x y. \<not> lt y x) (sort_by lt xs)"
proof -
  let ?lu = "\<lambda>x y. if x \<in> set xs \<and> y \<in> set xs then lt x y else x \<in> set xs \<and> y \<notin> set xs"
  have "sort_by lt xs = sort_by ?lu xs" by (rule sort_by_cong) simp
  moreover have "sorted_wrt (\<lambda>x y. \<not> ?lu y x) (sort_by ?lu xs)"
    by (rule sorted_sort_by [OF strict_weak_extend [OF assms]])
  ultimately have sorted: "sorted_wrt (\<lambda>x y. \<not> ?lu y x) (sort_by lt xs)" by simp
  show ?thesis by (rule sorted_wrt_mono_rel [OF _ sorted]) (simp split: if_splits)
qed

definition slice_sorter :: "slice_order \<Rightarrow> bool" where
  "slice_sorter ord \<longleftrightarrow> (\<forall>n lt. mset (ord n lt) = mset [0..<n] \<and>
     (strict_weak_on {..<n} lt \<longrightarrow> sorted_wrt (\<lambda>i j. \<not> lt j i) (ord n lt)))"

definition stable_order :: slice_order where
  "stable_order n lt = sort_by lt [0..<n]"

lemma stable_order_sorter [simp]: "slice_sorter stable_order"
  using sorted_sort_by_on [of "[0..<n]" for n]
  by (simp add: slice_sorter_def stable_order_def atLeast0LessThan)

lemma mset_sort_slice: "slice_sorter ord \<Longrightarrow> mset (sort_slice ord lt xs) = mset xs"
proof -
  assume "slice_sorter ord"
  then have "mset (ord (length xs) (\<lambda>i j. lt (xs ! i) (xs ! j))) = mset [0..<length xs]"
    unfolding slice_sorter_def by blast
  then have "mset (sort_slice ord lt xs) = mset (map ((!) xs) [0..<length xs])"
    unfolding sort_slice_def mset_map by simp
  then show ?thesis by (simp add: map_nth)
qed

lemma set_sort_slice: "slice_sorter ord \<Longrightarrow> set (sort_slice ord lt xs) = set xs"
  by (metis mset_sort_slice set_mset_mset)

lemma length_sort_slice: "slice_sorter ord \<Longrightarrow> length (sort_slice ord lt xs) = length xs"
  by (metis mset_sort_slice size_mset)

lemma distinct_sort_slice: "slice_sorter ord \<Longrightarrow> distinct (map f (sort_slice ord lt xs)) \<longleftrightarrow> distinct (map f xs)"
  by (metis mset_map mset_sort_slice mset_eq_imp_distinct_iff)

lemma sorted_sort_slice:
  assumes "slice_sorter ord" and "strict_weak_on (set xs) lt"
  shows "sorted_wrt (\<lambda>x y. \<not> lt y x) (sort_slice ord lt xs)"
proof -
  have "strict_weak_on {..<length xs} (\<lambda>i j. lt (xs ! i) (xs ! j))"
    using assms(2) unfolding strict_weak_on_def by (meson lessThan_iff nth_mem)
  then have "sorted_wrt (\<lambda>i j. \<not> lt (xs ! j) (xs ! i)) (ord (length xs) (\<lambda>i j. lt (xs ! i) (xs ! j)))"
    using assms(1) unfolding slice_sorter_def by blast
  then show ?thesis by (simp add: sort_slice_def sorted_wrt_map)
qed

text \<open>The best of a slice: sorted, then cut off.\<close>

lemma sorted_take_drop:
  assumes "sorted_wrt R (ys :: 'a list)" and "x \<in> set (take n ys)" and "y \<in> set (drop n ys)"
  shows "R x y"
  using assms sorted_wrt_append [of R "take n ys" "drop n ys"] by simp

lemma top_of_slice:
  fixes n :: nat and xs :: "'a list"
  assumes "slice_sorter ord" and "strict_weak_on (set xs) lt"
  defines "best \<equiv> take n (sort_slice ord lt xs)"
  shows "length best = min n (length xs)" and "sorted_wrt (\<lambda>x y. \<not> lt y x) best"
    and "set best \<subseteq> set xs" and "\<And>x y. x \<in> set best \<Longrightarrow> y \<in> set xs - set best \<Longrightarrow> \<not> lt y x"
    and "length xs \<le> n \<Longrightarrow> set best = set xs"
proof -
  let ?ys = "sort_slice ord lt xs"
  have sorted: "sorted_wrt (\<lambda>x y. \<not> lt y x) ?ys" by (rule sorted_sort_slice [OF assms(1,2)])
  have ys: "set ?ys = set xs" "length ?ys = length xs"
    by (simp_all add: set_sort_slice [OF assms(1)] length_sort_slice [OF assms(1)])
  show "length best = min n (length xs)" by (simp add: best_def ys)
  show "sorted_wrt (\<lambda>x y. \<not> lt y x) best" unfolding best_def by (rule sorted_wrt_take [OF sorted])
  show "set best \<subseteq> set xs" unfolding best_def using set_take_subset ys(1) by fastforce
  show "\<not> lt y x" if x: "x \<in> set best" and y: "y \<in> set xs - set best" for x y
  proof -
    have "y \<in> set (take n ?ys) \<union> set (drop n ?ys)"
      using y unfolding set_append [symmetric] by (simp add: ys(1))
    with y have "y \<in> set (drop n ?ys)" by (simp add: best_def)
    from sorted_take_drop [OF sorted _ this] x show ?thesis by (simp add: best_def)
  qed
  show "set best = set xs" if "length xs \<le> n" using that by (simp add: best_def ys)
qed

section \<open>Strings\<close>

text \<open>\<open>strings.Split(s, ",")\<close> with a separator of one byte, and \<open>strings.Join\<close>.\<close>

fun str_split :: "char \<Rightarrow> string \<Rightarrow> string list" where
  "str_split c [] = [[]]"
| "str_split c (x # xs) = (if x = c then [] # str_split c xs
     else case str_split c xs of [] \<Rightarrow> [[x]] | p # ps \<Rightarrow> (x # p) # ps)"

text \<open>The encodings of the runes that are white space, as \<open>strings.TrimSpace\<close> cuts them off.\<close>

definition space_runes :: "string list" where
  "space_runes = [[CHR 0x09], [CHR 0x0A], [CHR 0x0B], [CHR 0x0C], [CHR 0x0D], [CHR 0x20],
     [CHR 0xC2, CHR 0x85], [CHR 0xC2, CHR 0xA0], [CHR 0xE1, CHR 0x9A, CHR 0x80],
     [CHR 0xE2, CHR 0x80, CHR 0xA8], [CHR 0xE2, CHR 0x80, CHR 0xA9],
     [CHR 0xE2, CHR 0x80, CHR 0xAF], [CHR 0xE2, CHR 0x81, CHR 0x9F],
     [CHR 0xE3, CHR 0x80, CHR 0x80], [CHR 0xE2, CHR 0x80, CHR 0x80],
     [CHR 0xE2, CHR 0x80, CHR 0x81], [CHR 0xE2, CHR 0x80, CHR 0x82],
     [CHR 0xE2, CHR 0x80, CHR 0x83], [CHR 0xE2, CHR 0x80, CHR 0x84],
     [CHR 0xE2, CHR 0x80, CHR 0x85], [CHR 0xE2, CHR 0x80, CHR 0x86],
     [CHR 0xE2, CHR 0x80, CHR 0x87], [CHR 0xE2, CHR 0x80, CHR 0x88],
     [CHR 0xE2, CHR 0x80, CHR 0x89], [CHR 0xE2, CHR 0x80, CHR 0x8A]]"

function strip_front :: "string list \<Rightarrow> string \<Rightarrow> string" where
  "strip_front ps s = (case find (\<lambda>p. p \<noteq> [] \<and> has_prefix p s) ps of
      None \<Rightarrow> s | Some p \<Rightarrow> strip_front ps (drop (length p) s))"
  by pat_completeness auto
termination
  by (relation "measure (length \<circ> snd)") (auto simp: find_Some_iff has_prefix_iff)

declare strip_front.simps [simp del]

definition TrimSpace :: "string \<Rightarrow> string" where
  "TrimSpace s = rev (strip_front (map rev space_runes) (rev (strip_front space_runes s)))"

lemma trim_space_examples:
  "TrimSpace '' a b  '' = ''a b''" "TrimSpace [CHR 0xC2, CHR 0xA0] = []"
  by (code_simp, code_simp)

lemma str_split_not_Nil [simp]: "str_split c s \<noteq> []"
  by (induction s) (auto split: list.splits)

lemma str_split_free: "c \<notin> set s \<Longrightarrow> str_split c s = [s]"
  by (induction s) auto

lemma str_split_append: "c \<notin> set s \<Longrightarrow> str_split c (s @ c # r) = s # str_split c r"
  by (induction s) auto

text \<open>Splitting what was joined gives the parts back, unless one holds the separator.\<close>

lemma split_join:
  assumes "ss \<noteq> []" and "\<forall>s \<in> set ss. c \<notin> set s"
  shows "str_split c (join_with [c] ss) = ss"
  using assms
proof (induction ss)
  case (Cons s ss)
  then show ?case by (cases ss) (simp_all add: str_split_free str_split_append)
qed simp

section \<open>Local times\<close>

text \<open>
  \<open>t.Format(time.RFC3339)\<close> of a time in the local zone; \<open>zone t\<close> is the offset of the zone from
  UTC at that instant, in minutes.
\<close>

definition rfc3339_in :: "int \<Rightarrow> int \<Rightarrow> string" where
  "rfc3339_in z t = butlast (rfc3339 (t + z * 60 * 10 ^ 9)) @ zone_text z"

lemma rfc3339_in_examples:
  "rfc3339_in 120 0 = ''1970-01-01T02:00:00+02:00''" "rfc3339_in 0 0 = ''1970-01-01T00:00:00Z''"
  "rfc3339_in (- 210) 0 = ''1969-12-31T20:30:00-03:30''"
  by code_simp+

lemma rfc3339_in_utc: "rfc3339_in 0 t = rfc3339 t"
  by (simp add: rfc3339_in_def rfc3339_def zone_text_def butlast_append Let_def split: prod.split)

end
