(* ===== verification/Brain_Service.thy ===== *)
theory Brain_Service
  imports Go_Slices Compliance_Rules Ingest_Handlers
begin

text \<open>
  internal/brain/brain.go: the seven tools agents call on their memory. The two searchers, the
  embedder, the enricher and the reflection runner are interfaces that may be absent; searchers
  work on an index of their own, which is part of the state.
\<close>

section \<open>The service\<close>

record node_summary =
  ns_node :: string
  ns_type :: string
  ns_summary :: string
  ns_timestamp :: string
  ns_tags :: "string list"

record reflect_cycle_result =
  rc_cycle :: string
  rc_signals :: "node_summary list"
  rc_summary :: string

record 'i text_searcher =
  ft_search :: "string \<Rightarrow> string \<Rightarrow> string \<Rightarrow> int \<Rightarrow> 'i \<Rightarrow> gerr + hits"
  ft_index :: "node \<Rightarrow> 'i \<Rightarrow> 'i"

record ('s, 'i) brain_service =
  bs_ops :: "'s storage_ops"
  bs_fmt :: gofmt
  bs_zone :: "int \<Rightarrow> int"
  bs_order :: slice_order
  bs_full_text :: "'i text_searcher option"
  bs_vector :: "(string \<Rightarrow> string \<Rightarrow> 32 word list \<Rightarrow> int \<Rightarrow> 'i \<Rightarrow> gerr + hits) option"
  bs_embedder :: "(string \<Rightarrow> gerr + 32 word list) option"
  bs_enricher :: "(string \<Rightarrow> string list) option"
  bs_reflector :: "(string \<Rightarrow> int \<Rightarrow> ('s graph, reflect_cycle_result) go) option"

record ('s, 'i) brain =
  br_graph :: "'s graph"
  br_index :: 'i

definition on_brain :: "('s graph, 'a) go \<Rightarrow> (('s, 'i) brain, 'a) go" where
  "on_brain m = (\<lambda>b. case m (br_graph b) of (r, g) \<Rightarrow> (r, b\<lparr>br_graph := g\<rparr>))"

definition local_now :: "('s, 'i) brain_service \<Rightarrow> int \<Rightarrow> string" where
  "local_now S t = rfc3339_in (bs_zone S t) t"

section \<open>Helpers\<close>

definition node_prop :: "node \<Rightarrow> string \<Rightarrow> gval" where
  "node_prop n key = (case map_of (prop_list (n_props n)) key of None \<Rightarrow> VNil | Some v \<Rightarrow> v)"

text \<open>The first of six properties that is present, cut to 200 bytes.\<close>

definition summary_keys :: "string list" where
  "summary_keys = [''summary'', ''content'', ''text'', ''description'', ''value'', ''name'']"

definition extractSummary :: "gofmt \<Rightarrow> node \<Rightarrow> string" where
  "extractSummary F n =
     (case find (\<lambda>key. map_of (prop_list (n_props n)) key \<noteq> None) summary_keys of
        Some key \<Rightarrow> let s = sprint F (node_prop n key) in
          if length s > 200 then take 200 s @ ''...'' else s
      | None \<Rightarrow> n_label n @ '':'' @ n_id n)"

definition summarizeNode :: "gofmt \<Rightarrow> node \<Rightarrow> node_summary" where
  "summarizeNode F n = \<lparr>ns_node = n_id n, ns_type = n_label n, ns_summary = extractSummary F n,
     ns_timestamp = rfc3339 (n_created n), ns_tags = []\<rparr>"

record time_range =
  tr_from :: int
  tr_to :: int

definition inTimeRange :: "int \<Rightarrow> time_range \<Rightarrow> bool" where
  "inTimeRange t tr \<longleftrightarrow> \<not> (tr_from tr \<noteq> zero_time \<and> t < tr_from tr) \<and>
     \<not> (tr_to tr \<noteq> zero_time \<and> t > tr_to tr)"

abbreviation in_range :: "time_range option \<Rightarrow> int \<Rightarrow> bool" where
  "in_range tr t \<equiv> (case tr of None \<Rightarrow> True | Some r \<Rightarrow> inTimeRange t r)"

section \<open>Search\<close>

record search_input =
  si_query :: string
  si_limit :: int
  si_range :: "time_range option"

record search_hit =
  sh_node :: string
  sh_type :: string
  sh_content :: string
  sh_score :: "64 word"
  sh_props :: "props option"

definition search_pairs :: "(string \<times> string) list" where
  "search_pairs = [(''Message'', ''text''), (''SharedMemory'', ''value''),
     (''LearningSignal'', ''summary''), (''Conversation'', ''description'')]"

text \<open>A hit whose node is gone or outside the time range is skipped.\<close>

definition load_hit :: "'s storage_ops \<Rightarrow> gofmt \<Rightarrow> time_range option \<Rightarrow> string \<Rightarrow> string \<times> 64 word \<Rightarrow>
    ('s graph, search_hit list) go" where
  "load_hit ops F tr prop h = (case h of (i, score) \<Rightarrow>
     go_bind (go_try (graph_GetNode ops i)) (\<lambda>x. case x of
       Inl _ \<Rightarrow> go_ret []
     | Inr n \<Rightarrow> if \<not> in_range tr (n_created n) then go_ret []
         else go_ret [\<lparr>sh_node = i, sh_type = n_label n, sh_content = sprint F (node_prop n prop),
           sh_score = score, sh_props = n_props n\<rparr>]))"

definition text_hits :: "('s, 'i) brain_service \<Rightarrow> search_input \<Rightarrow> int \<Rightarrow> 'i \<Rightarrow>
    ('s graph, search_hit list) go" where
  "text_hits S inp limit idx = (case bs_full_text S of
       None \<Rightarrow> go_ret []
     | Some ft \<Rightarrow> go_collect search_pairs (\<lambda>(label, prop).
         case ft_search ft label prop (si_query inp) limit idx of
           Inl _ \<Rightarrow> go_ret []
         | Inr hs \<Rightarrow> go_collect hs (load_hit (bs_ops S) (bs_fmt S) (si_range inp) prop)))"

text \<open>The vector hits of nodes not yet among the results; \<open>seen\<close> holds the results' nodes.\<close>

fun add_hits :: "'s storage_ops \<Rightarrow> gofmt \<Rightarrow> time_range option \<Rightarrow> string \<Rightarrow> hits \<Rightarrow> search_hit list \<Rightarrow>
    ('s graph, search_hit list) go" where
  "add_hits ops F tr prop [] out = go_ret out"
| "add_hits ops F tr prop (h # hs) out =
     (if fst h \<in> sh_node ` set out then add_hits ops F tr prop hs out
      else go_bind (load_hit ops F tr prop h) (\<lambda>xs. add_hits ops F tr prop hs (out @ xs)))"

fun vector_loop :: "('s, 'i) brain_service \<Rightarrow> (string \<Rightarrow> string \<Rightarrow> gerr + hits) \<Rightarrow> time_range option \<Rightarrow>
    (string \<times> string) list \<Rightarrow> search_hit list \<Rightarrow> ('s graph, search_hit list) go" where
  "vector_loop S search tr [] out = go_ret out"
| "vector_loop S search tr ((label, prop) # ps) out = (case search label prop of
       Inl _ \<Rightarrow> vector_loop S search tr ps out
     | Inr hs \<Rightarrow> go_bind (add_hits (bs_ops S) (bs_fmt S) tr prop hs out) (vector_loop S search tr ps))"

definition vector_hits :: "('s, 'i) brain_service \<Rightarrow> search_input \<Rightarrow> int \<Rightarrow> 'i \<Rightarrow> search_hit list \<Rightarrow>
    ('s graph, search_hit list) go" where
  "vector_hits S inp limit idx out = (case (bs_embedder S, bs_vector S) of
       (Some emb, Some search) \<Rightarrow> (case emb (si_query inp) of
           Inl _ \<Rightarrow> go_ret out
         | Inr vec \<Rightarrow> if vec = [] then go_ret out
             else vector_loop S (\<lambda>label prop. search label prop vec limit idx) (si_range inp)
               search_pairs out)
     | _ \<Rightarrow> go_ret out)"

definition Search :: "('s, 'i) brain_service \<Rightarrow> search_input \<Rightarrow> 'i \<Rightarrow> ('s graph, search_hit list) go" where
  "Search S inp idx =
     (let limit = (if si_limit inp \<le> 0 then 10 else si_limit inp) in
      go_bind (text_hits S inp limit idx) (\<lambda>out.
      go_bind (vector_hits S inp limit idx out) (\<lambda>out.
      go_ret (take (nat limit) (sort_slice (bs_order S) (\<lambda>a b. f64_less (sh_score b) (sh_score a)) out)))))"

section \<open>Recall\<close>

record recall_context =
  rx_conversations :: "node_summary list"
  rx_decisions :: "node_summary list"
  rx_feedback :: "node_summary list"
  rx_threads :: "node_summary list"

definition no_context :: recall_context where
  "no_context = \<lparr>rx_conversations = [], rx_decisions = [], rx_feedback = [], rx_threads = []\<rparr>"

text \<open>The body of the loop for a neighbour that was found: one of four lists, up to the limit.\<close>

definition push :: "nat \<Rightarrow> 'a \<Rightarrow> 'a list \<Rightarrow> 'a list" where
  "push limit x xs = (if length xs < limit then xs @ [x] else xs)"

definition recall_node :: "gofmt \<Rightarrow> nat \<Rightarrow> recall_context \<Rightarrow> node \<Rightarrow> recall_context" where
  "recall_node F limit c n = (let s = summarizeNode F n in
     if n_label n = ''Conversation'' then c\<lparr>rx_conversations := push limit s (rx_conversations c)\<rparr>
     else if n_label n = ''LearningSignal'' then c\<lparr>rx_decisions := push limit s (rx_decisions c)\<rparr>
     else if n_label n = ''HumanFeedback'' then c\<lparr>rx_feedback := push limit s (rx_feedback c)\<rparr>
     else if n_label n = ''Message'' then c\<lparr>rx_threads := push limit s (rx_threads c)\<rparr>
     else c)"

fun recall_edges :: "('s, 'i) brain_service \<Rightarrow> nat \<Rightarrow> string \<Rightarrow> edge list \<Rightarrow> recall_context \<Rightarrow>
    ('s graph, recall_context) go" where
  "recall_edges S limit agent [] c = go_ret c"
| "recall_edges S limit agent (e # es) c =
     go_bind (go_try (graph_GetNode (bs_ops S) (if e_to e = agent then e_from e else e_to e))) (\<lambda>x.
     case x of
       Inl _ \<Rightarrow> recall_edges S limit agent es c
     | Inr n \<Rightarrow> recall_edges S limit agent es (recall_node (bs_fmt S) limit c n))"

definition Recall :: "('s, 'i) brain_service \<Rightarrow> string \<Rightarrow> string \<Rightarrow> ('s graph, recall_context) go" where
  "Recall S agent depth =
     go_bind (go_try (Neighbors (bs_ops S) agent)) (\<lambda>x. case x of
       Inl _ \<Rightarrow> go_ret no_context
     | Inr es \<Rightarrow> recall_edges S (if depth = ''shallow'' then 5 else 20) agent es no_context)"

section \<open>Capture\<close>

record capture_input =
  ci_agent :: string
  ci_type :: string
  ci_content :: string
  ci_tags :: "string list"
  ci_linked :: "string list"

definition auto_tags :: "('s, 'i) brain_service \<Rightarrow> capture_input \<Rightarrow> string list" where
  "auto_tags S inp = (case bs_enricher S of
       Some tag \<Rightarrow> if length (ci_tags inp) < 3
         then ci_tags inp @ first_seen (ci_tags inp) (tag (ci_content inp)) else ci_tags inp
     | None \<Rightarrow> ci_tags inp)"

definition capture_props :: "capture_input \<Rightarrow> string list \<Rightarrow> string \<Rightarrow> props" where
  "capture_props inp tags now = [(''content'', VStr (ci_content inp)),
     (''type'', VStr (if ci_type inp = [] then ''observation'' else ci_type inp)),
     (''agentId'', VStr (ci_agent inp)), (''tags'', VStr (join_with '','' tags)), (''capturedAt'', VStr now)]"

text \<open>An edge to one node: its identifier is reported if the edge could be created.\<close>

definition link_to :: "string \<Rightarrow> ('s graph, edge) go \<Rightarrow> ('s graph, string list) go" where
  "link_to i m = go_bind (go_try m) (\<lambda>x. go_ret (case x of Inl _ \<Rightarrow> [] | Inr _ \<Rightarrow> [i]))"

definition capture_links :: "'s storage_ops \<Rightarrow> capture_input \<Rightarrow> string \<Rightarrow> ('s graph, string list) go" where
  "capture_links ops inp nid =
     go_bind (if ci_agent inp = [] then go_ret []
       else link_to (ci_agent inp) (CreateEdge ops ''AUTHORED'' (ci_agent inp) nid None)) (\<lambda>xs.
     go_bind (go_collect (ci_linked inp) (\<lambda>i. link_to i (CreateEdge ops ''REFERENCES'' nid i None))) (\<lambda>ys.
     go_ret (xs @ ys)))"

definition index_node :: "('s, 'i) brain_service \<Rightarrow> node \<Rightarrow> (('s, 'i) brain, unit) go" where
  "index_node S n = (\<lambda>b. (Ok (), case bs_full_text S of
       None \<Rightarrow> b | Some ft \<Rightarrow> b\<lparr>br_index := ft_index ft n (br_index b)\<rparr>))"

text \<open>The new node's identifier and those it was linked to.\<close>

definition Capture :: "('s, 'i) brain_service \<Rightarrow> capture_input \<Rightarrow> (('s, 'i) brain, string \<times> string list) go" where
  "Capture S inp =
     (if ci_content inp = [] then go_raise (Msg ''content is required'')
      else go_bind (on_brain time_now) (\<lambda>now.
        go_bind (go_wrap ''create node'' (on_brain (CreateNode (bs_ops S) ''LearningSignal''
          (Some (capture_props inp (auto_tags S inp) (local_now S now)))))) (\<lambda>n.
        go_bind (index_node S n) (\<lambda>_.
        go_bind (on_brain (capture_links (bs_ops S) inp (n_id n))) (\<lambda>linked.
        go_ret (n_id n, linked))))))"

section \<open>Recent activity\<close>

record recent_input =
  ri_agent :: string
  ri_hours :: int
  ri_types :: "string list"
  ri_limit :: int

record activity_item =
  ai_node :: string
  ai_type :: string
  ai_summary :: string
  ai_timestamp :: string

definition activity_item_of :: "gofmt \<Rightarrow> node \<Rightarrow> activity_item" where
  "activity_item_of F n = \<lparr>ai_node = n_id n, ai_type = n_label n, ai_summary = extractSummary F n,
     ai_timestamp = rfc3339 (n_created n)\<rparr>"

text \<open>
  \<open>time.Now().Add(-time.Duration(h) * time.Hour)\<close>: the product of the negated hours wraps around
  at 64 bits.
\<close>

definition window_cutoff :: "int \<Rightarrow> int \<Rightarrow> int" where
  "window_cutoff now h = now + wrap64 (- h * (3600 * 10 ^ 9))"

definition recent_ok :: "recent_input \<Rightarrow> int \<Rightarrow> node \<Rightarrow> bool" where
  "recent_ok inp cutoff n \<longleftrightarrow> \<not> n_created n < cutoff \<and>
     (ri_agent inp = [] \<or> propStr (n_props n) ''agentId'' = ri_agent inp)"

definition recent_types :: "recent_input \<Rightarrow> string list" where
  "recent_types inp = (if ri_types inp = [] then [''Message'', ''LearningSignal'', ''Conversation''] else ri_types inp)"

definition Recent :: "('s, 'i) brain_service \<Rightarrow> recent_input \<Rightarrow> ('s graph, activity_item list) go" where
  "Recent S inp =
     (let hours = (if ri_hours inp \<le> 0 then 24 else ri_hours inp);
          limit = (if ri_limit inp \<le> 0 then 50 else ri_limit inp) in
      go_bind time_now (\<lambda>now.
      go_bind (go_collect (recent_types inp) (\<lambda>label.
        go_bind (or_none (graph_NodesByLabel (bs_ops S) label)) (\<lambda>ns.
        go_ret (map (activity_item_of (bs_fmt S)) (filter (recent_ok inp (window_cutoff now hours)) ns))))) (\<lambda>items.
      go_ret (take (nat limit) (sort_slice (bs_order S) (\<lambda>a b. ai_timestamp b < ai_timestamp a) items)))))"

section \<open>Patterns\<close>

record patterns_input =
  pi_min :: int
  pi_range :: "time_range option"

record pattern_item =
  pt_theme :: string
  pt_occurrences :: nat
  pt_related :: "string list"
  pt_trend :: string

text \<open>The parts of a comma-separated property, trimmed, the empty ones left out.\<close>

definition listed :: "string \<Rightarrow> node \<Rightarrow> string list" where
  "listed key n = (let s = propStr (n_props n) key in
     if s = [] then [] else filter (\<lambda>t. t \<noteq> []) (map TrimSpace (str_split (CHR '','') s)))"

text \<open>\<open>counts[tag] = append(counts[tag], nodeID)\<close>.\<close>

definition count_tag :: "string \<Rightarrow> (string \<times> string list) list \<Rightarrow> string \<Rightarrow> (string \<times> string list) list" where
  "count_tag nid m tag = AList.update tag ((case map_of m tag of None \<Rightarrow> [] | Some ids \<Rightarrow> ids) @ [nid]) m"

definition count_node :: "string \<Rightarrow> (string \<times> string list) list \<Rightarrow> node \<Rightarrow> (string \<times> string list) list" where
  "count_node key m n = foldl (count_tag (n_id n)) m (listed key n)"

definition count_nodes :: "string \<Rightarrow> node list \<Rightarrow> (string \<times> string list) list" where
  "count_nodes key ns = foldl (count_node key) [] ns"

definition pattern_of :: "string \<times> string list \<Rightarrow> pattern_item" where
  "pattern_of p = \<lparr>pt_theme = fst p, pt_occurrences = length (snd p), pt_related = snd p, pt_trend = ''stable''\<rparr>"

definition Patterns :: "('s, 'i) brain_service \<Rightarrow> patterns_input \<Rightarrow> ('s graph, pattern_item list) go" where
  "Patterns S inp =
     (let least = (if pi_min inp \<le> 0 then 3 else pi_min inp) in
      go_bind (go_try (graph_NodesByLabel (bs_ops S) ''LearningSignal'')) (\<lambda>x. case x of
        Inl _ \<Rightarrow> go_ret []
      | Inr signals \<Rightarrow>
          let ns = filter (\<lambda>n. in_range (pi_range inp) (n_created n)) signals;
              tags = count_nodes ''tags'' ns; entities = count_nodes ''entities'' ns;
              frequent = filter (\<lambda>p. int (length (snd p)) \<ge> least) in
          go_ret (sort_slice (bs_order S) (\<lambda>a b. pt_occurrences b < pt_occurrences a)
            (map pattern_of (frequent tags) @
             map pattern_of (filter (\<lambda>p. map_of tags (fst p) = None) (frequent entities))))))"

section \<open>Reflection\<close>

record reflect_input =
  rf_agent :: string
  rf_scope :: string
  rf_hours :: int

record reflect_output =
  ro_cycle :: string
  ro_signals :: "node_summary list"
  ro_summary :: string
  ro_status :: string

definition reflect_props :: "reflect_input \<Rightarrow> int \<Rightarrow> string \<Rightarrow> props" where
  "reflect_props inp hours now = [(''agentId'', VStr (rf_agent inp)), (''scope'', VStr (rf_scope inp)),
     (''windowHours'', VInt (word_of_int hours)), (''startedAt'', VStr now), (''status'', VStr ''PENDING'')]"

definition cycle_summary :: "node_summary list \<Rightarrow> string" where
  "cycle_summary ss = (if ss = [] then ''No learning signals in window.''
     else ''Found '' @ show_nat (length ss) @ '' learning signals: '' @ join_with ''; '' (map ns_summary ss))"

text \<open>Without a reflection runner: a cycle node, linked to the signals of the window.\<close>

definition reflect_fallback :: "('s, 'i) brain_service \<Rightarrow> reflect_input \<Rightarrow> int \<Rightarrow> ('s graph, reflect_output) go" where
  "reflect_fallback S inp hours =
     (let ops = bs_ops S in
      go_bind time_now (\<lambda>started.
      go_bind (go_wrap ''create reflection cycle'' (CreateNode ops ''ReflectionCycle''
        (Some (reflect_props inp hours (local_now S started))))) (\<lambda>cycle.
      go_bind (if rf_agent inp = [] then go_ret ()
        else go_ignore (CreateEdge ops ''TRIGGERED_REFLECTION'' (rf_agent inp) (n_id cycle) None)) (\<lambda>_.
      go_bind time_now (\<lambda>now.
      go_bind (or_none (graph_NodesByLabel ops ''LearningSignal'')) (\<lambda>signals.
      go_bind (go_collect signals (\<lambda>sig.
        if n_created sig < window_cutoff now hours then go_ret []
        else go_bind (go_ignore (CreateEdge ops ''LINKS_TO'' (n_id sig) (n_id cycle) None))
          (\<lambda>_. go_ret [summarizeNode (bs_fmt S) sig]))) (\<lambda>ss.
      go_ret \<lparr>ro_cycle = n_id cycle, ro_signals = ss, ro_summary = cycle_summary ss,
        ro_status = ''PENDING''\<rparr>)))))))"

definition Reflect :: "('s, 'i) brain_service \<Rightarrow> reflect_input \<Rightarrow> ('s graph, reflect_output) go" where
  "Reflect S inp =
     (let hours = (if rf_hours inp \<le> 0 then 24 else rf_hours inp) in
      case bs_reflector S of
        Some run \<Rightarrow> go_bind (go_wrap ''reflection runner'' (run (rf_agent inp) hours)) (\<lambda>r.
          go_ret \<lparr>ro_cycle = rc_cycle r, ro_signals = rc_signals r, ro_summary = rc_summary r,
            ro_status = ''PENDING''\<rparr>)
      | None \<Rightarrow> reflect_fallback S inp hours)"

section \<open>Feedback\<close>

record feedback_input =
  fi_cycle :: string
  fi_type :: string
  fi_impact :: "64 word"
  fi_relevance :: "64 word"
  fi_value :: "64 word"
  fi_comment :: string

definition feedback_props :: "feedback_input \<Rightarrow> string \<Rightarrow> props" where
  "feedback_props inp now = [(''cycleId'', VStr (fi_cycle inp)), (''feedbackType'', VStr (fi_type inp)),
     (''impact'', VFloat (fi_impact inp)), (''relevance'', VFloat (fi_relevance inp)),
     (''valueContribution'', VFloat (fi_value inp)), (''comment'', VStr (fi_comment inp)),
     (''submittedAt'', VStr now)]"

text \<open>The copy in this package of the loop over the edges at a cycle that the ingest handler has.\<close>

definition brain_overrides :: "'s storage_ops \<Rightarrow> feedback_input \<Rightarrow> ('s graph, unit) go" where
  "brain_overrides ops inp =
     go_bind (go_try (Neighbors ops (fi_cycle inp))) (\<lambda>x. case x of
       Inl _ \<Rightarrow> go_ret ()
     | Inr es \<Rightarrow> go_for es (\<lambda>e.
         if e_label e \<noteq> ''LINKS_TO'' \<or> e_to e \<noteq> fi_cycle inp then go_ret ()
         else let ps = score_props (fi_impact inp) (fi_relevance inp) (fi_value inp) in
           if ps = [] then go_ret ()
           else go_ignore (UpsertEdge ops (e_id e) (e_label e) (e_from e) (e_to e) (Some ps))))"

text \<open>The feedback node's identifier; the status reported is always \<open>RECEIVED\<close>.\<close>

definition Feedback :: "('s, 'i) brain_service \<Rightarrow> feedback_input \<Rightarrow> ('s graph, string \<times> string) go" where
  "Feedback S inp =
     (let ops = bs_ops S in
      if fi_cycle inp = [] then go_raise (Msg ''cycleId is required'')
      else go_bind (go_try (graph_GetNode ops (fi_cycle inp))) (\<lambda>x. case x of
        Inl _ \<Rightarrow> go_raise (Msg (''reflection cycle not found: '' @ fi_cycle inp))
      | Inr _ \<Rightarrow>
          go_bind time_now (\<lambda>now.
          go_bind (go_wrap ''create feedback'' (CreateNode ops ''HumanFeedback''
            (Some (feedback_props inp (local_now S now))))) (\<lambda>fb.
          go_bind (go_ignore (CreateEdge ops ''HAS_FEEDBACK'' (fi_cycle inp) (n_id fb) None)) (\<lambda>_.
          go_bind (go_ignore (UpsertNode ops (fi_cycle inp) ''ReflectionCycle''
            (Some [(''humanFeedbackStatus'', VStr ''RECEIVED'')]))) (\<lambda>_.
          go_bind (brain_overrides ops inp) (\<lambda>_.
          go_ret (n_id fb, ''RECEIVED''))))))))"

end
