(* ===== verification/Brain_Laws.thy ===== *)
theory Brain_Laws
  imports Brain_Service Compliance_Exact
begin

text \<open>
  What the tools answer over any graph storage: reads in terms of the stored graph, the aggregation
  of patterns as sums, and the tools that write as steps that keep the graph consistent.
\<close>

section \<open>Reads\<close>

definition bucket :: "gofmt \<Rightarrow> string \<Rightarrow> node list \<Rightarrow> node_summary list" where
  "bucket F l ns = map (summarizeNode F) (filter (\<lambda>n. n_label n = l) ns)"

lemma collect_reads:
  "(\<And>x. x \<in> set xs \<Longrightarrow> body x s = (Ok (f x), s)) \<Longrightarrow> go_collect xs body s = (Ok (concat (map f xs)), s)"
  by (induction xs) (simp_all add: go_bind_def go_ret_def)

lemma bind_read: "m s = (Ok x, s') \<Longrightarrow> go_bind m f s = f x s'"
  by (simp add: go_bind_def)

context graph_storage
begin

definition label_nodes :: "'s graph \<Rightarrow> string \<Rightarrow> node list" where
  "label_nodes g l = (case fst (graph_NodesByLabel ops l g) of Ok ns \<Rightarrow> ns | _ \<Rightarrow> [])"

definition node_edges :: "'s graph \<Rightarrow> string \<Rightarrow> edge list" where
  "node_edges g i = (case fst (Neighbors ops i g) of Ok es \<Rightarrow> es | _ \<Rightarrow> [])"

lemma label_nodes:
  assumes "g_inv g" and "colon_free l"
  shows "graph_NodesByLabel ops l g = (Ok (label_nodes g l), g)"
    and "distinct (map n_id (label_nodes g l))"
    and "set (label_nodes g l) = {n. g_nodes g (n_id n) = Some n \<and> n_label n = l}"
proof -
  obtain ns where ns: "st_nodes_by_label ops l (g_store g) = (Ok ns, g_store g)" "distinct (map n_id ns)"
    "set ns = {n. g_nodes g (n_id n) = Some n \<and> n_label n = l}" using nodes_by_label [OF assms] by blast
  then have "graph_NodesByLabel ops l g = (Ok ns, g)" by (simp add: graph_NodesByLabel_def on_store_def)
  with ns show "graph_NodesByLabel ops l g = (Ok (label_nodes g l), g)"
    "distinct (map n_id (label_nodes g l))"
    "set (label_nodes g l) = {n. g_nodes g (n_id n) = Some n \<and> n_label n = l}"
    by (simp_all add: label_nodes_def)
qed

lemma node_edges:
  assumes "g_inv g"
  shows "Neighbors ops i g = (Ok (node_edges g i), g)"
    and "distinct (map e_id (node_edges g i))"
    and "set (node_edges g i) = {e. g_edges g (e_id e) = Some e \<and> incident i e}"
proof -
  obtain es where es: "st_edges_by_node ops i (g_store g) = (Ok es, g_store g)" "distinct (map e_id es)"
    "set es = {e. g_edges g (e_id e) = Some e \<and> incident i e}" using edges_by_node [OF assms] by blast
  then have "Neighbors ops i g = (Ok es, g)" by (simp add: Neighbors_def on_store_def)
  with es show "Neighbors ops i g = (Ok (node_edges g i), g)" "distinct (map e_id (node_edges g i))"
    "set (node_edges g i) = {e. g_edges g (e_id e) = Some e \<and> incident i e}"
    by (simp_all add: node_edges_def)
qed

lemma or_none_label: "g_inv g \<Longrightarrow> colon_free l \<Longrightarrow> or_none (graph_NodesByLabel ops l) g = (Ok (label_nodes g l), g)"
  by (simp add: or_none_def go_try_def go_bind_def go_ret_def label_nodes(1))

lemma try_get_node: "g_inv g \<Longrightarrow> go_try (graph_GetNode ops i) g =
    (Ok (case g_nodes g i of Some n \<Rightarrow> Inr n | None \<Rightarrow> Inl (Msg (''node '' @ i @ '' not found''))), g)"
  by (simp add: graph_GetNode_def on_store_def get_node go_try_def split: option.split)

lemma tick_abstract [simp]: "label_nodes (g\<lparr>g_tick := t\<rparr>) l = label_nodes g l"
  by (simp add: label_nodes_def graph_NodesByLabel_def on_store_def split: prod.split)

lemma label_nodes_ids:
  assumes "g_inv g" and "colon_free l"
  shows "n \<in> set (label_nodes g l) \<longleftrightarrow> (\<exists>i. g_nodes g i = Some n \<and> n_label n = l)"
  using keyed_node [OF assms(1)] by (auto simp: label_nodes(3) [OF assms])

section \<open>Recent activity\<close>

definition recent_nodes :: "'s graph \<Rightarrow> recent_input \<Rightarrow> int \<Rightarrow> node list" where
  "recent_nodes g inp cutoff =
     concat (map (\<lambda>l. filter (recent_ok inp cutoff) (label_nodes g l)) (recent_types inp))"

lemma recent_run:
  assumes "g_inv g" and "list_all colon_free (recent_types inp)" and "bs_ops S = ops"
  defines "cutoff \<equiv> window_cutoff (g_clock g (g_tick g)) (if ri_hours inp \<le> 0 then 24 else ri_hours inp)"
  shows "Recent S inp g = (Ok (take (nat (if ri_limit inp \<le> 0 then 50 else ri_limit inp))
    (sort_slice (bs_order S) (\<lambda>a b. ai_timestamp b < ai_timestamp a)
      (map (activity_item_of (bs_fmt S)) (recent_nodes g inp cutoff)))), g\<lparr>g_tick := Suc (g_tick g)\<rparr>)"
proof -
  let ?g = "g\<lparr>g_tick := Suc (g_tick g)\<rparr>"
  have inv: "g_inv ?g" using assms(1) by simp
  have "go_collect (recent_types inp) (\<lambda>label. go_bind (or_none (graph_NodesByLabel ops label)) (\<lambda>ns.
      go_ret (map (activity_item_of (bs_fmt S)) (filter (recent_ok inp cutoff) ns)))) ?g =
    (Ok (concat (map (\<lambda>l. map (activity_item_of (bs_fmt S)) (filter (recent_ok inp cutoff) (label_nodes g l)))
      (recent_types inp))), ?g)"
    by (rule collect_reads)
      (use assms(2) inv in \<open>simp add: bind_read [OF or_none_label] list_all_iff go_ret_def\<close>)
  then show ?thesis
    unfolding Recent_def Let_def recent_nodes_def cutoff_def assms(3)
    by (simp add: time_now_def go_bind_def go_ret_def map_concat comp_def)
qed

lemma recent_nodes_set:
  assumes "g_inv g" and "list_all colon_free (recent_types inp)"
  shows "set (recent_nodes g inp cutoff) =
    {n. \<exists>i. g_nodes g i = Some n \<and> n_label n \<in> set (recent_types inp) \<and> recent_ok inp cutoff n}"
  using assms(2) by (auto simp: recent_nodes_def list_all_iff label_nodes_ids [OF assms(1)])

section \<open>Recall\<close>

lemma push_prefix: "push limit x (take limit xs) = take limit (xs @ [x])"
  by (auto simp: push_def)

lemma recall_node_run:
  assumes c: "c = \<lparr>rx_conversations = take k a1, rx_decisions = take k a2,
      rx_feedback = take k a3, rx_threads = take k a4\<rparr>"
  shows "recall_node F k c n = (let s = summarizeNode F n; f = (\<lambda>l xs. if n_label n = l then xs @ [s] else xs) in
    \<lparr>rx_conversations = take k (f ''Conversation'' a1), rx_decisions = take k (f ''LearningSignal'' a2),
     rx_feedback = take k (f ''HumanFeedback'' a3), rx_threads = take k (f ''Message'' a4)\<rparr>)"
  by (simp add: recall_node_def c push_prefix Let_def)

definition neighbours :: "'s graph \<Rightarrow> string \<Rightarrow> edge list \<Rightarrow> node list" where
  "neighbours g i es = lookups (g_nodes g) (map (\<lambda>e. if e_to e = i then e_from e else e_to e) es)"

lemma recall_edges_run:
  assumes "g_inv g" and "bs_ops S = ops"
    and "c = \<lparr>rx_conversations = take k a1, rx_decisions = take k a2, rx_feedback = take k a3, rx_threads = take k a4\<rparr>"
  shows "recall_edges S k i es c g = (Ok (let ns = neighbours g i es; b = (\<lambda>l. bucket (bs_fmt S) l ns) in
    \<lparr>rx_conversations = take k (a1 @ b ''Conversation''), rx_decisions = take k (a2 @ b ''LearningSignal''),
     rx_feedback = take k (a3 @ b ''HumanFeedback''), rx_threads = take k (a4 @ b ''Message'')\<rparr>), g)"
  using assms(3)
proof (induction es arbitrary: c a1 a2 a3 a4)
  case Nil
  then show ?case by (simp add: neighbours_def bucket_def go_ret_def)
next
  case (Cons e es)
  let ?i = "if e_to e = i then e_from e else e_to e"
  show ?case
  proof (cases "g_nodes g ?i")
    case None
    then show ?thesis
      using Cons.IH [OF Cons.prems]
      by (simp add: assms(2) go_bind_def try_get_node [OF assms(1)] neighbours_def)
  next
    case (Some n)
    let ?f = "\<lambda>l xs. if n_label n = l then xs @ [summarizeNode (bs_fmt S) n] else xs"
    have step: "recall_node (bs_fmt S) k c n = \<lparr>rx_conversations = take k (?f ''Conversation'' a1),
        rx_decisions = take k (?f ''LearningSignal'' a2), rx_feedback = take k (?f ''HumanFeedback'' a3),
        rx_threads = take k (?f ''Message'' a4)\<rparr>"
      using recall_node_run [OF Cons.prems] by (simp add: Let_def)
    have split: "?f l xs @ bucket (bs_fmt S) l (neighbours g i es) = xs @ bucket (bs_fmt S) l (neighbours g i (e # es))"
      for l xs using Some by (simp add: bucket_def neighbours_def)
    have "recall_edges S k i (e # es) c g = recall_edges S k i es (recall_node (bs_fmt S) k c n) g"
      using Some by (simp add: assms(2) go_bind_def try_get_node [OF assms(1)])
    then show ?thesis unfolding Cons.IH [OF step] Let_def by (simp only: split)
  qed
qed

end

section \<open>Patterns\<close>

definition tagged :: "(string \<times> string list) list \<Rightarrow> string \<Rightarrow> string list" where
  "tagged m t = (case map_of m t of None \<Rightarrow> [] | Some ids \<Rightarrow> ids)"

definition occurs :: "string \<Rightarrow> node list \<Rightarrow> string \<Rightarrow> string list" where
  "occurs key ns t = concat (map (\<lambda>n. replicate (count_list (listed key n) t) (n_id n)) ns)"

definition counted :: "(string \<times> string list) list \<Rightarrow> bool" where
  "counted m \<longleftrightarrow> distinct (map fst m) \<and> [] \<notin> snd ` set m"

lemma set_update: "kv \<in> set (AList.update k v m) \<Longrightarrow> kv = (k, v) \<or> kv \<in> set m"
  by (induction m) (auto split: if_splits)

lemma count_tag_spec: "counted m \<Longrightarrow> counted (count_tag i m t) \<and>
    tagged (count_tag i m t) = (tagged m)(t := tagged m t @ [i])"
proof -
  assume m: "counted m"
  have "snd kv \<noteq> []" if "kv \<in> set (AList.update t (tagged m t @ [i]) m)" for kv
    using set_update [OF that] m by (auto simp: counted_def image_iff)
  with m show ?thesis by (force simp: counted_def count_tag_def tagged_def fun_eq_iff)
qed

lemma count_node_spec:
  assumes "counted m"
  shows "counted (count_node key m n) \<and>
    tagged (count_node key m n) = (\<lambda>t. tagged m t @ replicate (count_list (listed key n) t) (n_id n))"
proof -
  have "counted (foldl (count_tag i) m ts) \<and>
      tagged (foldl (count_tag i) m ts) = (\<lambda>t. tagged m t @ replicate (count_list ts t) i)" for ts i
    using assms
  proof (induction ts arbitrary: m)
    case (Cons t ts)
    note step = count_tag_spec [OF Cons.prems, of i t]
    with Cons.IH [of "count_tag i m t"] show ?case
      by (auto simp: fun_eq_iff replicate_app_Cons_same)
  qed simp
  then show ?thesis by (simp add: count_node_def)
qed

lemma count_nodes_spec: "counted (count_nodes key ns) \<and> tagged (count_nodes key ns) = occurs key ns"
proof -
  have "counted (foldl (count_node key) m ns) \<and>
      tagged (foldl (count_node key) m ns) = (\<lambda>t. tagged m t @ occurs key ns t)" if "counted m" for m
    using that
  proof (induction ns arbitrary: m)
    case (Cons n ns)
    from count_node_spec [OF Cons.prems, of key n] Cons.IH [of "count_node key m n"] show ?case
      by (simp add: occurs_def fun_eq_iff)
  qed (simp add: occurs_def)
  from this [of "[]"] show ?thesis by (simp add: count_nodes_def counted_def tagged_def fun_eq_iff)
qed

lemma counted_pairs:
  assumes "counted m"
  shows "(t, ids) \<in> set m \<longleftrightarrow> ids = tagged m t \<and> ids \<noteq> []"
proof -
  have "(t, ids) \<in> set m \<longleftrightarrow> map_of m t = Some ids" and "(t, []) \<notin> set m"
    using assms by (auto simp: counted_def map_of_eq_Some_iff image_iff)
  then show ?thesis by (auto simp: tagged_def split: option.splits)
qed

text \<open>The themes: what occurs often enough as a tag, or as an entity that is no tag at all.\<close>

definition theme_count :: "node list \<Rightarrow> string \<Rightarrow> string list" where
  "theme_count ns t = (if occurs ''tags'' ns t = [] then occurs ''entities'' ns t else occurs ''tags'' ns t)"

lemma themes_exact:
  fixes ns :: "node list" and least :: int
  assumes "0 < least"
  defines "tags \<equiv> count_nodes ''tags'' ns" and "entities \<equiv> count_nodes ''entities'' ns"
  defines "ps \<equiv> filter (\<lambda>p. int (length (snd p)) \<ge> least) tags @
    filter (\<lambda>p. map_of tags (fst p) = None) (filter (\<lambda>p. int (length (snd p)) \<ge> least) entities)"
  shows "distinct (map fst ps)"
    and "(t, ids) \<in> set ps \<longleftrightarrow> ids = theme_count ns t \<and> least \<le> int (length ids)"
proof -
  note c = count_nodes_spec [of "''tags''" ns, folded tags_def] count_nodes_spec [of "''entities''" ns, folded entities_def]
  have dist: "distinct (map fst (filter P m))" if "counted m" for P and m :: "(string \<times> string list) list"
    using that by (auto simp: counted_def distinct_map_filter)
  have none: "map_of tags t = None \<longleftrightarrow> occurs ''tags'' ns t = []" for t
  proof -
    have "occurs ''tags'' ns t = tagged tags t" using c(1) by simp
    moreover have "map_of tags t \<noteq> Some []"
      using c(1) map_of_SomeD [of tags t "[]"] by (force simp: counted_def)
    ultimately show ?thesis by (cases "map_of tags t") (simp_all add: tagged_def)
  qed
  have apart: "fst ` set (filter (\<lambda>p. int (length (snd p)) \<ge> least) tags) \<inter>
      fst ` set (filter (\<lambda>p. map_of tags (fst p) = None) qs) = {}" for qs :: "(string \<times> string list) list"
    by (auto simp: map_of_eq_None_iff image_iff)
  have "distinct (map fst (filter (\<lambda>p. map_of tags (fst p) = None) (filter (\<lambda>p. int (length (snd p)) \<ge> least) entities)))"
    unfolding filter_filter by (rule dist) (use c in blast)
  then show "distinct (map fst ps)"
    unfolding ps_def map_append distinct_append set_map using c(1) apart dist by blast
  show "(t, ids) \<in> set ps \<longleftrightarrow> ids = theme_count ns t \<and> least \<le> int (length ids)"
  proof -
    have "(t, ids) \<in> set tags \<longleftrightarrow> ids = occurs ''tags'' ns t \<and> ids \<noteq> []"
      "(t, ids) \<in> set entities \<longleftrightarrow> ids = occurs ''entities'' ns t \<and> ids \<noteq> []"
      using c counted_pairs by simp_all
    then show ?thesis
      using assms(1) by (cases "occurs ''tags'' ns t = []") (simp_all add: ps_def theme_count_def none, auto)
  qed
qed

context graph_storage
begin

definition signals_in :: "'s graph \<Rightarrow> time_range option \<Rightarrow> node list" where
  "signals_in g tr = filter (\<lambda>n. in_range tr (n_created n)) (label_nodes g ''LearningSignal'')"

lemma patterns_run:
  fixes inp :: patterns_input
  assumes "g_inv g" and "bs_ops S = ops" and "slice_sorter (bs_order S)"
  defines "least \<equiv> if pi_min inp \<le> 0 then 3 else pi_min inp"
  shows "\<exists>ps. Patterns S inp g = (Ok ps, g) \<and> distinct (map pt_theme ps) \<and>
    sorted_wrt (\<lambda>p q. pt_occurrences q \<le> pt_occurrences p) ps \<and>
    (\<forall>t k. (\<exists>p \<in> set ps. pt_theme p = t \<and> pt_occurrences p = k) \<longleftrightarrow>
      k = length (theme_count (signals_in g (pi_range inp)) t) \<and> least \<le> int k)"
proof -
  let ?ns = "signals_in g (pi_range inp)"
  let ?tags = "count_nodes ''tags'' ?ns" and ?ents = "count_nodes ''entities'' ?ns"
  let ?qs = "filter (\<lambda>p. int (length (snd p)) \<ge> least) ?tags @
    filter (\<lambda>p. map_of ?tags (fst p) = None) (filter (\<lambda>p. int (length (snd p)) \<ge> least) ?ents)"
  let ?lt = "\<lambda>a b. pt_occurrences b < pt_occurrences a"
  let ?ps = "sort_slice (bs_order S) ?lt (map pattern_of ?qs)"
  have least: "0 < least" by (simp add: least_def)
  have run: "Patterns S inp g = (Ok ?ps, g)"
    using label_nodes(1) [OF assms(1), of "''LearningSignal''"]
    by (simp add: Patterns_def assms(2) go_bind_def go_try_def go_ret_def Let_def signals_in_def least_def)
  have themes: "map pt_theme (map pattern_of qs) = map fst qs" for qs by (simp add: pattern_of_def)
  have "distinct (map pt_theme ?ps)"
    unfolding distinct_sort_slice [OF assms(3)] themes by (rule themes_exact(1) [OF least])
  moreover have "strict_weak_on (set (map pattern_of ?qs)) ?lt"
    by (rule strict_weak_on_subset) (auto simp: strict_weak_def)
  from sorted_sort_slice [OF assms(3) this]
  have "sorted_wrt (\<lambda>p q. pt_occurrences q \<le> pt_occurrences p) ?ps" by (simp add: not_less)
  moreover have "(\<exists>p \<in> set ?ps. pt_theme p = t \<and> pt_occurrences p = k) \<longleftrightarrow>
      k = length (theme_count ?ns t) \<and> least \<le> int k" for t k
  proof -
    have "(\<exists>p \<in> set ?ps. pt_theme p = t \<and> pt_occurrences p = k) \<longleftrightarrow>
        (\<exists>ids. (t, ids) \<in> set ?qs \<and> length ids = k)"
      unfolding set_sort_slice [OF assms(3)] set_map pattern_of_def by force
    then show ?thesis using themes_exact(2) [OF least, of t _ ?ns] by auto
  qed
  ultimately show ?thesis using run by blast
qed

end

section \<open>Search\<close>

text \<open>What a searcher finds, as triples of a property, a node and a score.\<close>

definition found :: "(string \<Rightarrow> string \<Rightarrow> gerr + hits) \<Rightarrow> (string \<times> string) list \<Rightarrow> (string \<times> string \<times> 64 word) set" where
  "found search ps = (\<Union>(label, prop) \<in> set ps. case search label prop of Inl _ \<Rightarrow> {} | Inr hs \<Rightarrow> {prop} \<times> set hs)"

lemma found_simps [simp]: "found search [] = {}"
  by (simp add: found_def)

lemma found_Cons: "found search ((label, prop) # ps) =
    (case search label prop of Inl _ \<Rightarrow> {} | Inr hs \<Rightarrow> {prop} \<times> set hs) \<union> found search ps"
  by (simp add: found_def)

definition text_found :: "('s, 'i) brain_service \<Rightarrow> search_input \<Rightarrow> int \<Rightarrow> 'i \<Rightarrow> (string \<times> string \<times> 64 word) set" where
  "text_found S inp limit idx = (case bs_full_text S of None \<Rightarrow> {}
     | Some ft \<Rightarrow> found (\<lambda>label prop. ft_search ft label prop (si_query inp) limit idx) search_pairs)"

definition vector_found :: "('s, 'i) brain_service \<Rightarrow> search_input \<Rightarrow> int \<Rightarrow> 'i \<Rightarrow> (string \<times> string \<times> 64 word) set" where
  "vector_found S inp limit idx = (case (bs_embedder S, bs_vector S) of
       (Some emb, Some search) \<Rightarrow> (case emb (si_query inp) of Inl _ \<Rightarrow> {}
         | Inr vec \<Rightarrow> if vec = [] then {} else found (\<lambda>label prop. search label prop vec limit idx) search_pairs)
     | _ \<Rightarrow> {})"

text \<open>No searcher gives a score that is not a number.\<close>

definition numeric_scores :: "('s, 'i) brain_service \<Rightarrow> search_input \<Rightarrow> int \<Rightarrow> 'i \<Rightarrow> bool" where
  "numeric_scores S inp limit idx \<longleftrightarrow>
     (\<forall>x \<in> text_found S inp limit idx \<union> vector_found S inp limit idx. \<not> f64_nan (snd (snd x)))"

context graph_storage
begin


definition hit_of :: "'s graph \<Rightarrow> gofmt \<Rightarrow> time_range option \<Rightarrow> string \<Rightarrow> string \<times> 64 word \<Rightarrow> search_hit list" where
  "hit_of g F tr prop h = (case g_nodes g (fst h) of None \<Rightarrow> []
     | Some n \<Rightarrow> if in_range tr (n_created n) then [\<lparr>sh_node = fst h, sh_type = n_label n,
         sh_content = sprint F (node_prop n prop), sh_score = snd h, sh_props = n_props n\<rparr>] else [])"

lemma load_hit_run: "g_inv g \<Longrightarrow> load_hit ops F tr prop h g = (Ok (hit_of g F tr prop h), g)"
  by (cases h) (auto simp: load_hit_def hit_of_def go_bind_def try_get_node go_ret_def split: option.split)

definition hits_from :: "'s graph \<Rightarrow> gofmt \<Rightarrow> time_range option \<Rightarrow> (string \<times> string \<times> 64 word) set \<Rightarrow> search_hit set" where
  "hits_from g F tr A = (\<Union>x \<in> A. set (hit_of g F tr (fst x) (snd x)))"

lemma hits_from_Un: "hits_from g F tr (A \<union> B) = hits_from g F tr A \<union> hits_from g F tr B"
  by (simp add: hits_from_def)

lemma hits_from_one: "hits_from g F tr ({prop} \<times> set hs) = set (concat (map (hit_of g F tr prop) hs))"
  by (auto simp: hits_from_def)

lemma text_loop_run:
  assumes "g_inv g" and "bs_ops S = ops"
  shows "\<exists>out. go_collect ps (\<lambda>(label, prop). case search label prop of Inl _ \<Rightarrow> go_ret []
      | Inr hs \<Rightarrow> go_collect hs (load_hit (bs_ops S) F tr prop)) g = (Ok out, g) \<and>
    set out = hits_from g F tr (found search ps)"
proof (induction ps)
  case Nil
  then show ?case by (simp add: go_ret_def hits_from_def)
next
  case (Cons p ps)
  obtain label pr where p: "p = (label, pr)" by fastforce
  have one: "go_collect hs (load_hit (bs_ops S) F tr pr) g = (Ok (concat (map (hit_of g F tr pr) hs)), g)" for hs
    by (rule collect_reads) (simp add: assms(2) load_hit_run [OF assms(1)])
  from Cons.IH show ?case
    by (cases "search label pr")
      (auto simp: p go_bind_def go_ret_def one found_Cons hits_from_Un hits_from_one)
qed

lemma text_hits_run:
  assumes "g_inv g" and "bs_ops S = ops"
  shows "\<exists>out. text_hits S inp limit idx g = (Ok out, g) \<and>
    set out = hits_from g (bs_fmt S) (si_range inp) (text_found S inp limit idx)"
proof (cases "bs_full_text S")
  case None
  then show ?thesis by (simp add: text_hits_def text_found_def go_ret_def hits_from_def)
next
  case (Some ft)
  with text_loop_run [OF assms, of search_pairs "bs_fmt S" "si_range inp"
      "\<lambda>label prop. ft_search ft label prop (si_query inp) limit idx"]
  show ?thesis by (simp add: text_hits_def text_found_def)
qed

lemma add_hits_run:
  assumes "g_inv g"
  shows "\<exists>xs. add_hits ops F tr pr hs out g = (Ok (out @ xs), g) \<and>
    set xs \<subseteq> hits_from g F tr ({pr} \<times> set hs)"
proof (induction hs arbitrary: out)
  case Nil
  then show ?case by (simp add: go_ret_def)
next
  case (Cons h hs)
  have more: "hits_from g F tr ({pr} \<times> set (h # hs)) = set (hit_of g F tr pr h) \<union> hits_from g F tr ({pr} \<times> set hs)"
    by (simp only: hits_from_one list.map concat.simps set_append)
  show ?case
  proof (cases "fst h \<in> sh_node ` set out")
    case True
    with Cons.IH [of out] more show ?thesis by auto
  next
    case False
    obtain xs where xs: "add_hits ops F tr pr hs (out @ hit_of g F tr pr h) g =
        (Ok ((out @ hit_of g F tr pr h) @ xs), g)" "set xs \<subseteq> hits_from g F tr ({pr} \<times> set hs)"
      using Cons.IH by blast
    with False have "add_hits ops F tr pr (h # hs) out g = (Ok (out @ hit_of g F tr pr h @ xs), g)"
      by (simp add: go_bind_def load_hit_run [OF assms])
    moreover have "set (hit_of g F tr pr h @ xs) \<subseteq> hits_from g F tr ({pr} \<times> set (h # hs))"
      using xs(2) unfolding more by auto
    ultimately show ?thesis by blast
  qed
qed

lemma vector_loop_run:
  assumes "g_inv g" and "bs_ops S = ops"
  shows "\<exists>xs. vector_loop S search tr ps out g = (Ok (out @ xs), g) \<and>
    set xs \<subseteq> hits_from g (bs_fmt S) tr (found search ps)"
proof (induction ps arbitrary: out)
  case Nil
  then show ?case by (simp add: go_ret_def)
next
  case (Cons p ps)
  obtain label pr where p: "p = (label, pr)" by fastforce
  show ?case
  proof (cases "search label pr")
    case (Inl e)
    with Cons.IH [of out] show ?thesis by (simp add: p found_Cons)
  next
    case (Inr hs)
    obtain xs where xs: "add_hits ops (bs_fmt S) tr pr hs out g = (Ok (out @ xs), g)"
      "set xs \<subseteq> hits_from g (bs_fmt S) tr ({pr} \<times> set hs)" using add_hits_run [OF assms(1)] by blast
    obtain ys where ys: "vector_loop S search tr ps (out @ xs) g = (Ok ((out @ xs) @ ys), g)"
      "set ys \<subseteq> hits_from g (bs_fmt S) tr (found search ps)" using Cons.IH by blast
    have "set (xs @ ys) \<subseteq> hits_from g (bs_fmt S) tr (found search (p # ps))"
      using xs(2) ys(2) by (auto simp: p Inr found_Cons hits_from_Un)
    moreover have "vector_loop S search tr (p # ps) out g = (Ok (out @ xs @ ys), g)"
      by (simp add: p Inr assms(2) go_bind_def xs(1) ys(1))
    ultimately show ?thesis by blast
  qed
qed

lemma vector_hits_run:
  assumes "g_inv g" and "bs_ops S = ops"
  shows "\<exists>xs. vector_hits S inp limit idx out g = (Ok (out @ xs), g) \<and>
    set xs \<subseteq> hits_from g (bs_fmt S) (si_range inp) (vector_found S inp limit idx)"
proof (cases "\<exists>emb search vec. bs_embedder S = Some emb \<and> bs_vector S = Some search \<and>
    emb (si_query inp) = Inr vec \<and> vec \<noteq> []")
  case True
  then obtain emb search vec where v: "bs_embedder S = Some emb" "bs_vector S = Some search"
    "emb (si_query inp) = Inr vec" "vec \<noteq> []" by blast
  from vector_loop_run [OF assms, of "\<lambda>label prop. search label prop vec limit idx" "si_range inp" search_pairs out] v
  show ?thesis by (simp add: vector_hits_def vector_found_def)
next
  case False
  then have "vector_hits S inp limit idx out g = (Ok out, g)"
    by (auto simp: vector_hits_def go_ret_def split: option.split sum.split)
  then show ?thesis by (intro exI [of _ "[]"]) simp
qed

lemma hit_of_score: "x \<in> set (hit_of g F tr prop h) \<Longrightarrow> sh_score x = snd h \<and> sh_node x = fst h \<and>
    (\<exists>n. g_nodes g (fst h) = Some n \<and> in_range tr (n_created n) \<and> sh_type x = n_label n)"
  by (cases "g_nodes g (fst h)") (auto simp: hit_of_def split: if_splits)

lemma search_run:
  fixes inp :: search_input
  assumes "g_inv g" and "bs_ops S = ops" and "slice_sorter (bs_order S)"
  defines "limit \<equiv> if si_limit inp \<le> 0 then 10 else si_limit inp"
  assumes num: "numeric_scores S inp limit idx"
  shows "\<exists>rs. Search S inp idx g = (Ok rs, g) \<and> int (length rs) \<le> limit \<and>
    sorted_wrt (\<lambda>a b. \<not> f64_less (sh_score a) (sh_score b)) rs \<and>
    set rs \<subseteq> hits_from g (bs_fmt S) (si_range inp) (text_found S inp limit idx \<union> vector_found S inp limit idx) \<and>
    (\<forall>x \<in> hits_from g (bs_fmt S) (si_range inp) (text_found S inp limit idx).
      x \<in> set rs \<or> int (length rs) = limit \<and> (\<forall>y \<in> set rs. \<not> f64_less (sh_score y) (sh_score x)))"
proof -
  let ?from = "hits_from g (bs_fmt S) (si_range inp)" and ?lt = "\<lambda>a b. f64_less (sh_score b) (sh_score a)"
  let ?T = "text_found S inp limit idx" and ?V = "vector_found S inp limit idx"
  obtain out where out: "text_hits S inp limit idx g = (Ok out, g)" "set out = ?from ?T"
    using text_hits_run [OF assms(1,2)] by blast
  obtain xs where xs: "vector_hits S inp limit idx out g = (Ok (out @ xs), g)" "set xs \<subseteq> ?from ?V"
    using vector_hits_run [OF assms(1,2)] by blast
  let ?all = "out @ xs"
  let ?rs = "take (nat limit) (sort_slice (bs_order S) ?lt ?all)"
  have lim: "0 < limit" by (simp add: limit_def)
  have run: "Search S inp idx g = (Ok ?rs, g)"
    using out(1) xs(1) by (simp add: Search_def Let_def limit_def [symmetric] go_bind_def go_ret_def)
  have src: "set ?all \<subseteq> ?from (?T \<union> ?V)" using out(2) xs(2) by (auto simp: hits_from_Un)
  have "\<not> f64_nan (sh_score x)" if "x \<in> set ?all" for x
  proof -
    have "x \<in> ?from (?T \<union> ?V)" using src that by blast
    then obtain y where y: "y \<in> ?T \<union> ?V" "x \<in> set (hit_of g (bs_fmt S) (si_range inp) (fst y) (snd y))"
      unfolding hits_from_def by blast
    with num hit_of_score [OF y(2)] show ?thesis by (simp add: numeric_scores_def)
  qed
  then have sw: "strict_weak_on (set ?all) ?lt" by (rule f64_less_weak)
  note best = top_of_slice [OF assms(3) sw, where n = "nat limit"]
  have len: "int (length ?rs) \<le> limit" using lim best(1) by simp
  have full: "x \<in> set ?rs \<or> int (length ?rs) = limit \<and> (\<forall>y \<in> set ?rs. \<not> f64_less (sh_score y) (sh_score x))"
    if x: "x \<in> set ?all" for x
  proof (cases "x \<in> set ?rs")
    case False
    then have "\<not> length ?all \<le> nat limit" using best(5) x by blast
    then have "int (length ?rs) = limit" using lim best(1) by simp
    moreover have "\<not> f64_less (sh_score y) (sh_score x)" if "y \<in> set ?rs" for y
      using best(4) [OF that, of x] x False by blast
    ultimately show ?thesis by blast
  qed simp
  have "set ?rs \<subseteq> ?from (?T \<union> ?V)" using src best(3) by blast
  moreover have "\<forall>x \<in> ?from ?T. x \<in> set ?rs \<or> int (length ?rs) = limit \<and>
      (\<forall>y \<in> set ?rs. \<not> f64_less (sh_score y) (sh_score x))"
    unfolding out(2) [symmetric] using full by simp
  ultimately show ?thesis using run len best(2) by blast
qed

end

end
