(* ===== verification/Brain_Effects.thy ===== *)
theory Brain_Effects
  imports Brain_Laws Ingest_Semantics
begin

text \<open>
  The tools that write: what capturing stores and links, how feedback on a cycle ends, and the
  consistency of the graph under every sequence of calls.
\<close>

section \<open>Edges created one after the other\<close>

declare show_int_inject [simp]

text \<open>The stored signal, as far as the input determines it.\<close>

definition captured :: "('s, 'i) brain_service \<Rightarrow> capture_input \<Rightarrow> node \<Rightarrow> bool" where
  "captured S inp n \<longleftrightarrow> n_label n = ''LearningSignal'' \<and> propStr (n_props n) ''content'' = ci_content inp \<and>
     propStr (n_props n) ''type'' = (if ci_type inp = [] then ''observation'' else ci_type inp) \<and>
     propStr (n_props n) ''agentId'' = ci_agent inp \<and>
     propStr (n_props n) ''tags'' = join_with '','' (auto_tags S inp)"

context graph_storage
begin

text \<open>An edge numbered up to the counter stays when others are created.\<close>

definition numbered :: "'s graph \<Rightarrow> edge \<Rightarrow> bool" where
  "numbered g e \<longleftrightarrow> g_edges g (e_id e) = Some e \<and> colon_free (e_label e) \<and>
     (\<exists>c. e_id e = ''e:'' @ e_label e @ '':'' @ show_int c \<and> c \<le> g_ctr g)"

lemma create_edge_numbered:
  assumes inv: "g_inv g" and l: "colon_free l" and run: "CreateEdge ops l a b None g = (r, g')"
    and ctr: "g_ctr g < int64_max"
  shows "g_inv g' \<and> g_nodes g' = g_nodes g \<and> g_ctr g' \<le> g_ctr g + 1 \<and> r \<noteq> Panic \<and>
    (\<forall>e. numbered g e \<longrightarrow> numbered g' e) \<and>
    (\<forall>x. r = Ok x \<longrightarrow> g_nodes g a \<noteq> None \<and> g_nodes g b \<noteq> None \<and>
      (\<exists>e. numbered g' e \<and> e_label e = l \<and> e_from e = a \<and> e_to e = b))"
proof -
  have ok: "props_ok None" by (simp add: props_ok_def)
  note spec = create_edge [OF inv l ok run]
  have nxt: "next_ctr (g_ctr g) = g_ctr g + 1" using ctr by (simp add: next_ctr_def)
  have ctr': "g_ctr g \<le> g_ctr g'" "g_ctr g' \<le> g_ctr g + 1"
    using run by (auto simp: CreateEdge_run [OF inv] nxt split: if_splits prod.splits)
  show ?thesis
  proof (cases "\<exists>x. r = Ok x")
    case True
    then obtain x where x: "r = Ok x" by blast
    with spec obtain f where f: "x = new_edge g l a b None" "edge_json x = Some f"
      "g_edges g' = (g_edges g)(e_id x \<mapsto> f)" by blast
    have "g_ctr g' = g_ctr g + 1"
      using run x by (auto simp: CreateEdge_run [OF inv] nxt split: if_splits prod.splits)
    then have "numbered g' f" and "e_label f = l \<and> e_from f = a \<and> e_to f = b"
      using edge_json_fields [OF f(2)] l by (auto simp: numbered_def f(1,3) new_edge_def nxt)
    moreover have "numbered g' e" if e: "numbered g e" for e
    proof -
      obtain c where c: "e_id e = ''e:'' @ e_label e @ '':'' @ show_int c" "c \<le> g_ctr g" "colon_free (e_label e)"
        using e by (auto simp: numbered_def)
      have "e_id e \<noteq> e_id x"
        using c l colon_label_eq [of "e_label e" l "show_int c" "show_int (g_ctr g + 1)"]
        by (auto simp: f(1) new_edge_def nxt)
      with e ctr'(1) show ?thesis by (auto simp: numbered_def f(3))
    qed
    ultimately show ?thesis using spec x ctr'(2) by blast
  next
    case False
    with spec have "g_edges g' = g_edges g" by (cases r) auto
    then have "numbered g e \<longrightarrow> numbered g' e" for e using ctr'(1) by (auto simp: numbered_def)
    with spec ctr'(2) False show ?thesis by blast
  qed
qed

section \<open>Capture\<close>

text \<open>A list of identifiers, each joined to a node by an edge with a label.\<close>

definition joined :: "'s graph \<Rightarrow> string \<Rightarrow> string \<Rightarrow> bool" where
  "joined g i x \<longleftrightarrow> g_nodes g x \<noteq> None \<and>
     (\<exists>e. numbered g e \<and> (e_label e = ''AUTHORED'' \<and> e_from e = x \<and> e_to e = i \<or>
        e_label e = ''REFERENCES'' \<and> e_from e = i \<and> e_to e = x))"

lemma joined_mono: "joined g i x \<Longrightarrow> g_nodes g' = g_nodes g \<Longrightarrow>
    \<forall>e. numbered g e \<longrightarrow> numbered g' e \<Longrightarrow> joined g' i x"
  unfolding joined_def by metis

lemma link_to_run:
  assumes inv: "g_inv g" and ctr: "g_ctr g < int64_max"
    and lab: "(l, a, b) \<in> {(''AUTHORED'', x, i), (''REFERENCES'', i, x)}"
  shows "\<exists>xs g'. link_to x (CreateEdge ops l a b None) g = (Ok xs, g') \<and> g_inv g' \<and> g_nodes g' = g_nodes g \<and>
    g_ctr g' \<le> g_ctr g + 1 \<and> (\<forall>e. numbered g e \<longrightarrow> numbered g' e) \<and> set xs \<subseteq> {x} \<and>
    (\<forall>y \<in> set xs. joined g' i y)"
proof -
  obtain r g' where run: "CreateEdge ops l a b None g = (r, g')" by fastforce
  have l: "colon_free l" using lab by auto
  note spec = create_edge_numbered [OF inv l run ctr]
  show ?thesis
  proof (cases r)
    case (Ok e)
    with run have "link_to x (CreateEdge ops l a b None) g = (Ok [x], g')"
      by (simp add: link_to_def go_bind_def go_try_def go_ret_def)
    moreover have "joined g' i x" using spec Ok lab by (auto simp: joined_def)
    ultimately show ?thesis using spec by (intro exI [of _ "[x]"] exI [of _ g']) simp
  next
    case (Err y)
    with run have "link_to x (CreateEdge ops l a b None) g = (Ok [], g')"
      by (simp add: link_to_def go_bind_def go_try_def go_ret_def)
    with spec show ?thesis by (intro exI [of _ "[]"] exI [of _ g']) simp
  qed (use spec in simp)
qed

lemma link_all_run:
  assumes "g_inv g" and "g_ctr g + int (length ys) \<le> int64_max"
  shows "\<exists>xs g'. go_collect ys (\<lambda>x. link_to x (CreateEdge ops ''REFERENCES'' i x None)) g = (Ok xs, g') \<and>
    g_inv g' \<and> g_nodes g' = g_nodes g \<and> (\<forall>e. numbered g e \<longrightarrow> numbered g' e) \<and> set xs \<subseteq> set ys \<and>
    (\<forall>y \<in> set xs. joined g' i y)"
  using assms
proof (induction ys arbitrary: g)
  case Nil
  then show ?case by (simp add: go_ret_def)
next
  case (Cons y ys)
  have lt: "g_ctr g < int64_max" using Cons.prems(2) by simp
  obtain xs g1 where one: "link_to y (CreateEdge ops ''REFERENCES'' i y None) g = (Ok xs, g1)" "g_inv g1"
    "g_nodes g1 = g_nodes g" "g_ctr g1 \<le> g_ctr g + 1" "\<forall>e. numbered g e \<longrightarrow> numbered g1 e" "set xs \<subseteq> {y}"
    "\<forall>y \<in> set xs. joined g1 i y"
    using link_to_run [OF Cons.prems(1) lt, of "''REFERENCES''" i y y i] by auto
  have "g_ctr g1 + int (length ys) \<le> int64_max" using one(4) Cons.prems(2) by simp
  from Cons.IH [OF one(2) this] obtain zs g2 where
    rest: "go_collect ys (\<lambda>x. link_to x (CreateEdge ops ''REFERENCES'' i x None)) g1 = (Ok zs, g2)" "g_inv g2"
    "g_nodes g2 = g_nodes g1" "\<forall>e. numbered g1 e \<longrightarrow> numbered g2 e" "set zs \<subseteq> set ys" "\<forall>y \<in> set zs. joined g2 i y"
    by blast
  have "\<forall>y \<in> set (xs @ zs). joined g2 i y"
    using joined_mono [OF _ rest(3,4)] one(7) rest(6) by auto
  then show ?case
    using one rest by (intro exI [of _ "xs @ zs"] exI [of _ g2]) (auto simp: go_bind_def go_ret_def)
qed

lemma capture_links_run:
  assumes "g_inv g" and "g_ctr g + int (length (ci_linked inp)) < int64_max"
  shows "\<exists>xs g'. capture_links ops inp i g = (Ok xs, g') \<and> g_inv g' \<and> g_nodes g' = g_nodes g \<and>
    set xs \<subseteq> insert (ci_agent inp) (set (ci_linked inp)) \<and> (\<forall>x \<in> set xs. joined g' i x)"
proof -
  have lt: "g_ctr g < int64_max" using assms(2) by simp
  let ?author = "if ci_agent inp = [] then go_ret ([] :: string list)
       else link_to (ci_agent inp) (CreateEdge ops ''AUTHORED'' (ci_agent inp) i None)"
  obtain xs g1 where one: "?author g = (Ok xs, g1)" "g_inv g1" "g_nodes g1 = g_nodes g" "g_ctr g1 \<le> g_ctr g + 1"
    "set xs \<subseteq> {ci_agent inp}" "\<forall>y \<in> set xs. joined g1 i y"
  proof (cases "ci_agent inp = []")
    case True
    then show thesis by (intro that [of "[]" g]) (simp_all add: go_ret_def assms(1))
  next
    case False
    with that link_to_run [OF assms(1) lt, of "''AUTHORED''" "ci_agent inp" i "ci_agent inp" i] show thesis by auto
  qed
  have "g_ctr g1 + int (length (ci_linked inp)) \<le> int64_max" using one(4) assms(2) by simp
  from link_all_run [OF one(2) this, of i] obtain ys g2 where
    rest: "go_collect (ci_linked inp) (\<lambda>x. link_to x (CreateEdge ops ''REFERENCES'' i x None)) g1 = (Ok ys, g2)"
    "g_inv g2" "g_nodes g2 = g_nodes g1" "\<forall>e. numbered g1 e \<longrightarrow> numbered g2 e" "set ys \<subseteq> set (ci_linked inp)"
    "\<forall>y \<in> set ys. joined g2 i y" by blast
  have "\<forall>y \<in> set (xs @ ys). joined g2 i y"
    using joined_mono [OF _ rest(3,4)] one(6) rest(6) by auto
  moreover have "capture_links ops inp i g = (Ok (xs @ ys), g2)"
    using one(1) rest(1) by (simp add: capture_links_def go_bind_def go_ret_def)
  ultimately show ?thesis using one rest by (intro exI [of _ "xs @ ys"] exI [of _ g2]) auto
qed

lemma captured_json:
  assumes "node_json (new_node g ''LearningSignal'' (Some (capture_props inp (auto_tags S inp) now))) = Some m"
  shows "captured S inp m"
  using node_json_fields(2,4) [OF assms]
  by (auto simp: captured_def new_node_def props_json_Some capture_props_def propStr_def)

lemma capture_run:
  assumes inv: "g_inv (br_graph b)" and S: "bs_ops S = ops" and content: "ci_content inp \<noteq> []"
    and ctr: "g_ctr (br_graph b) + int (length (ci_linked inp)) + 1 < int64_max"
    and run: "Capture S inp b = (r, b')"
  shows "g_inv (br_graph b') \<and> r \<noteq> Panic \<and> (\<forall>i linked. r = Ok (i, linked) \<longrightarrow>
    (\<exists>n. g_nodes (br_graph b') i = Some n \<and> captured S inp n) \<and>
    set linked \<subseteq> insert (ci_agent inp) (set (ci_linked inp)) \<and> (\<forall>x \<in> set linked. joined (br_graph b') i x))"
proof -
  let ?g = "br_graph b" let ?now = "g_clock ?g (g_tick ?g)" let ?g1 = "?g\<lparr>g_tick := Suc (g_tick ?g)\<rparr>"
  let ?ps = "capture_props inp (auto_tags S inp) (local_now S ?now)"
  obtain q g2 where create: "CreateNode ops ''LearningSignal'' (Some ?ps) ?g1 = (q, g2)" by fastforce
  have inv1: "g_inv ?g1" and ok: "props_ok (Some ?ps)" "colon_free ''LearningSignal''"
    using inv by (simp_all add: props_ok_def capture_props_def)
  note spec = create_node [OF inv1 ok(2,1) create]
  show ?thesis
  proof (cases q)
    case (Ok n)
    with spec obtain m where m: "n = new_node ?g1 ''LearningSignal'' (Some ?ps)" "node_json n = Some m"
      "g_nodes g2 = (g_nodes ?g1)(n_id n \<mapsto> m)" "g_inv g2" by blast
    have "g_ctr g2 \<le> g_ctr ?g + 1"
      using create ctr by (auto simp: CreateNode_run next_ctr_def split: prod.splits)
    then have "g_ctr g2 + int (length (ci_linked inp)) < int64_max" using ctr by simp
    from capture_links_run [OF m(4) this, of "n_id n"] obtain xs g3 where
      links: "capture_links ops inp (n_id n) g2 = (Ok xs, g3)" "g_inv g3" "g_nodes g3 = g_nodes g2"
      "set xs \<subseteq> insert (ci_agent inp) (set (ci_linked inp))" "\<forall>x \<in> set xs. joined g3 (n_id n) x" by blast
    have "r = Ok (n_id n, xs) \<and> br_graph b' = g3"
      using run content create Ok links(1)
      by (auto simp: Capture_def S on_brain_def time_now_def go_bind_def go_wrap_def go_ret_def index_node_def
          split: option.splits)
    moreover have "captured S inp m" using captured_json m(1,2) by simp
    ultimately show ?thesis using links m(3) by auto
  next
    case (Err e)
    with run content create have "r = Err (Wrap ''create node'' e) \<and> br_graph b' = g2"
      by (auto simp: Capture_def S on_brain_def time_now_def go_bind_def go_wrap_def)
    with spec show ?thesis by simp
  qed (use spec in simp)
qed

end

text \<open>Tags that were captured are read back, if none holds a comma or is blank at an end.\<close>

lemma tags_read_back:
  assumes "propStr (n_props n) ''tags'' = join_with '','' ts"
    and "\<forall>t \<in> set ts. t \<noteq> [] \<and> CHR '','' \<notin> set t \<and> TrimSpace t = t"
  shows "listed ''tags'' n = ts"
proof (cases "ts = []")
  case True
  with assms(1) show ?thesis by (simp add: listed_def)
next
  case False
  have "str_split (CHR '','') (join_with '','' ts) = ts" by (rule split_join) (use False assms(2) in auto)
  moreover have "map TrimSpace ts = ts" using assms(2) by (simp add: map_idI)
  moreover have "filter (\<lambda>t. t \<noteq> []) ts = ts" using assms(2) by (simp add: filter_id_conv)
  moreover have "join_with '','' ts \<noteq> []" using False assms(2) by (cases ts rule: list.exhaust; cases "tl ts") auto
  ultimately show ?thesis by (simp add: listed_def assms(1) Let_def)
qed

section \<open>Feedback\<close>

lemma brain_overrides_as_ingest:
  "brain_overrides ops inp = applyScoreOverrides ops (fi_cycle inp) (fi_impact inp) (fi_relevance inp) (fi_value inp)"
proof -
  have "(if ps = [] then x else y) = (if ps \<noteq> [] then y else x)" for ps :: props and x y :: "('a graph, unit) go"
    by simp
  then show ?thesis unfolding brain_overrides_def applyScoreOverrides_def Let_def by presburger
qed

context graph_storage
begin

lemma ignore_upsert_edge:
  assumes inv: "g_inv g" and id: "colons k = 2" and ps: "props_ok ps"
    and run: "go_ignore (UpsertEdge ops k l a b ps) g = (r, g')"
  shows "g_inv g' \<and> (r = Ok () \<or> r = Panic) \<and> (\<forall>j. j \<noteq> k \<longrightarrow> g_edges g' j = g_edges g j)"
proof -
  obtain q h where up: "UpsertEdge ops k l a b ps g = (q, h)" by fastforce
  note spec = upsert_edge [OF inv id ps up]
  have "g_edges h j = g_edges g j" if "j \<noteq> k" for j
  proof (cases "\<exists>e. q = Ok e")
    case True
    with spec obtain f where "g_edges h = (g_edges g)(k \<mapsto> f)" by blast
    with that show ?thesis by simp
  next
    case False
    with spec show ?thesis by simp
  qed
  with run up spec show ?thesis
    by (cases q) (auto simp: go_ignore_def go_try_def go_bind_def go_ret_def)
qed

text \<open>An edge to the cycle whose property map is nil cannot be overridden.\<close>

lemma overrides_panic:
  assumes inv: "g_inv g" and at: "g_edges g k = Some e" and e: "e_label e = ''LINKS_TO''" "e_to e = cycle" "e_props e = None"
    and ps: "score_props x y z \<noteq> []"
  shows "fst (applyScoreOverrides ops cycle x y z g) = Panic"
proof -
  note es = node_edges [OF inv, of cycle]
  have id: "e_id e = k" using keyed_edge [OF inv at] by simp
  have "incident cycle e" using e(2) by (simp add: incident_def)
  then have mem: "e \<in> set (node_edges g cycle)" using at by (simp add: es(3) id)
  define body :: "edge \<Rightarrow> ('s graph, unit) go" where "body e = (if e_label e \<noteq> ''LINKS_TO'' \<or> e_to e \<noteq> cycle then go_ret ()
      else let ps = score_props x y z in
        if ps \<noteq> [] then go_ignore (UpsertEdge ops (e_id e) (e_label e) (e_from e) (e_to e) (Some ps))
        else go_ret ())" for e
  have run: "applyScoreOverrides ops cycle x y z g = go_for (node_edges g cycle) body g"
    by (simp add: applyScoreOverrides_def go_bind_def go_try_def es(1) body_def [abs_def])
  have scores: "props_ok (Some (score_props x y z))" by (simp add: score_props_def props_ok_def)
  have two: "colons (e_id f) = 2" if "f \<in> set (node_edges g cycle)" for f
    using that keyed_edge [OF inv, of "e_id f" f] by (simp add: es(3) stored_edge_def edge_ok_def)
  have "fst (go_for fs body h) = Panic"
    if "set fs \<subseteq> set (node_edges g cycle)" "distinct (map e_id fs)" "e \<in> set fs" "g_inv h" "g_edges h k = Some e" for fs h
    using that
  proof (induction fs arbitrary: h)
    case (Cons f fs)
    show ?case
    proof (cases "f = e")
      case True
      obtain q h' where up: "UpsertEdge ops k (e_label e) (e_from e) (e_to e) (Some (score_props x y z)) h = (q, h')"
        by fastforce
      have "colons k = 2" using two [OF mem] by (simp add: id)
      from upsert_edge [OF Cons.prems(4) this scores up] Cons.prems(5) e(3) ps have "q = Panic"
        by (simp add: upsert_edge_doc_def merge_props_def)
      then show ?thesis using up True e(1,2) ps
        by (simp add: body_def id go_bind_def go_ignore_def go_try_def)
    next
      case False
      then have e: "e \<in> set fs" using Cons.prems(3) by simp
      then have ne: "k \<noteq> e_id f" using Cons.prems(2) id by (auto simp: image_iff)
      obtain q h' where b: "body f h = (q, h')" by fastforce
      have "g_inv h' \<and> (q = Ok () \<or> q = Panic) \<and> g_edges h' k = Some e"
      proof (cases "e_label f \<noteq> ''LINKS_TO'' \<or> e_to f \<noteq> cycle")
        case True
        with b Cons.prems(4,5) show ?thesis by (simp add: body_def go_ret_def)
      next
        case False
        with b ps have "go_ignore (UpsertEdge ops (e_id f) (e_label f) (e_from f) (e_to f)
            (Some (score_props x y z))) h = (q, h')" by (simp add: body_def)
        from ignore_upsert_edge [OF Cons.prems(4) two scores this] Cons.prems(1,5) ne show ?thesis by simp
      qed
      moreover have "fst (go_for fs body h') = Panic" if "g_inv h'" "g_edges h' k = Some e"
        by (rule Cons.IH [OF _ _ e that]) (use Cons.prems(1,2) in auto)
      ultimately show ?thesis using b by (auto simp: go_bind_def)
    qed
  qed simp
  from this [OF subset_refl es(2) mem inv at] run show ?thesis by simp
qed

lemma ignore_create_edge:
  assumes inv: "g_inv g" and l: "colon_free l" and run: "go_ignore (CreateEdge ops l a b None) g = (r, g')"
  shows "g_inv g' \<and> r = Ok () \<and> g_nodes g' = g_nodes g \<and>
    (\<forall>k. \<not> has_prefix (''e:'' @ l @ '':'') k \<longrightarrow> g_edges g' k = g_edges g k)"
proof -
  obtain q h where ce: "CreateEdge ops l a b None g = (q, h)" by fastforce
  have ok: "props_ok None" by (simp add: props_ok_def)
  note spec = create_edge [OF inv l ok ce]
  have "g_edges h k = g_edges g k" if k: "\<not> has_prefix (''e:'' @ l @ '':'') k" for k
  proof (cases q)
    case (Ok x)
    with spec obtain f where f: "x = new_edge g l a b None" "g_edges h = (g_edges g)(e_id x \<mapsto> f)" by blast
    have "has_prefix (''e:'' @ l @ '':'') (e_id x)"
      using has_prefix_append [of "''e:'' @ l @ '':''"] by (simp add: f(1) new_edge_def)
    with k f(2) show ?thesis by auto
  qed (use spec in auto)
  with run ce spec show ?thesis
    by (cases q) (auto simp: go_ignore_def go_try_def go_bind_def go_ret_def)
qed

lemma feedback_run:
  assumes inv: "g_inv g" and S: "bs_ops S = ops"
  shows "g_nodes g (fi_cycle inp) = None \<Longrightarrow> (\<exists>e. Feedback S inp g = (Err e, g))"
    and "g_nodes g (fi_cycle inp) \<noteq> None \<Longrightarrow> g_edges g k = Some e \<Longrightarrow> e_label e = ''LINKS_TO'' \<Longrightarrow>
      e_to e = fi_cycle inp \<Longrightarrow> e_props e = None \<Longrightarrow> \<not> has_prefix ''e:HAS_FEEDBACK:'' k \<Longrightarrow>
      score_props (fi_impact inp) (fi_relevance inp) (fi_value inp) \<noteq> [] \<Longrightarrow> fi_cycle inp \<noteq> [] \<Longrightarrow>
      fst (Feedback S inp g) = Panic \<or> (\<exists>x. fst (Feedback S inp g) = Err (Wrap ''create feedback'' x))"
proof -
  show "\<exists>e. Feedback S inp g = (Err e, g)" if "g_nodes g (fi_cycle inp) = None"
    using that by (simp add: Feedback_def S go_raise_def go_bind_def try_get_node [OF inv])
  assume some: "g_nodes g (fi_cycle inp) \<noteq> None" and at: "g_edges g k = Some e"
    and e: "e_label e = ''LINKS_TO''" "e_to e = fi_cycle inp" "e_props e = None"
    and k: "\<not> has_prefix ''e:HAS_FEEDBACK:'' k" and ps: "score_props (fi_impact inp) (fi_relevance inp) (fi_value inp) \<noteq> []"
    and c: "fi_cycle inp \<noteq> []"
  let ?now = "local_now S (g_clock g (g_tick g))" let ?g1 = "g\<lparr>g_tick := Suc (g_tick g)\<rparr>"
  let ?rest = "\<lambda>fb. go_bind (go_ignore (CreateEdge ops ''HAS_FEEDBACK'' (fi_cycle inp) (n_id fb) None)) (\<lambda>_.
    go_bind (go_ignore (UpsertNode ops (fi_cycle inp) ''ReflectionCycle''
      (Some [(''humanFeedbackStatus'', VStr ''RECEIVED'')]))) (\<lambda>_.
    go_bind (brain_overrides ops inp) (\<lambda>_. go_ret (n_id fb, ''RECEIVED''))))"
  obtain q g2 where create: "CreateNode ops ''HumanFeedback'' (Some (feedback_props inp ?now)) ?g1 = (q, g2)" by fastforce
  have run: "Feedback S inp g = go_bind (go_wrap ''create feedback'' (CreateNode ops ''HumanFeedback''
      (Some (feedback_props inp ?now)))) ?rest ?g1"
    using some c by (auto simp: Feedback_def S Let_def time_now_def go_bind_def try_get_node [OF inv])
  have inv1: "g_inv ?g1" and ok: "props_ok (Some (feedback_props inp ?now))" "colon_free ''HumanFeedback''"
    using inv by (simp_all add: props_ok_def feedback_props_def)
  note spec = create_node [OF inv1 ok(2,1) create]
  show "fst (Feedback S inp g) = Panic \<or> (\<exists>x. fst (Feedback S inp g) = Err (Wrap ''create feedback'' x))"
  proof (cases q)
    case (Ok fb)
    obtain r3 g3 where link: "go_ignore (CreateEdge ops ''HAS_FEEDBACK'' (fi_cycle inp) (n_id fb) None) g2 = (r3, g3)"
      by fastforce
    have s2: "g_inv g2" "g_edges g2 k = Some e" using spec at by simp_all
    have l: "colon_free ''HAS_FEEDBACK''" by simp
    from ignore_create_edge [OF s2(1) l link] s2(2) k have s3: "g_inv g3" "g_edges g3 k = Some e" "r3 = Ok ()" by simp_all
    obtain r4 g4 where up: "UpsertNode ops (fi_cycle inp) ''ReflectionCycle''
      (Some [(''humanFeedbackStatus'', VStr ''RECEIVED'')]) g3 = (r4, g4)" by fastforce
    have "colon_free ''ReflectionCycle''" "props_ok (Some [(''humanFeedbackStatus'', VStr ''RECEIVED'')])"
      by (simp_all add: props_ok_def)
    from upsert_node [OF s3(1) this up] s3(2) have s4: "g_inv g4" "g_edges g4 k = Some e" by simp_all
    from overrides_panic [OF s4 e ps] have "fst (brain_overrides ops inp g4) = Panic"
      by (simp add: brain_overrides_as_ingest)
    then have "fst (?rest fb g2) = Panic"
      using link s3(3) up by (cases r4) (auto simp: go_bind_def go_ignore_def go_try_def go_ret_def split: prod.split)
    then show ?thesis using run create Ok by (simp add: go_bind_def go_wrap_def)
  next
    case (Err x)
    then show ?thesis using run create by (simp add: go_bind_def go_wrap_def)
  qed (use spec in simp)
qed

section \<open>Every sequence of calls\<close>

abbreviation sound_brain :: "grade \<Rightarrow> ('s, 'i) brain \<Rightarrow> bool" where
  "sound_brain M b \<equiv> sound M (br_graph b)"

lemma keeps_on_brain:
  assumes "go_keeps (sound M) m"
  shows "go_keeps (sound_brain M) (on_brain m)"
proof (rule go_keepsI)
  fix b :: "('s, 'b) brain" assume "sound_brain M b"
  from go_keepsD [OF assms this] show "sound_brain M (snd (on_brain m b))"
    by (cases "m (br_graph b)") (simp add: on_brain_def)
qed

lemma keeps_search:
  assumes "bs_ops S = ops"
  shows "go_keeps (sound M) (Search S inp idx)"
proof (rule go_keepsI)
  fix g assume g: "sound M g"
  then have inv: "g_inv g" by (simp add: sound_def)
  let ?l = "if si_limit inp \<le> 0 then 10 else si_limit inp"
  obtain out where out: "text_hits S inp ?l idx g = (Ok out, g)"
    using text_hits_run [OF inv assms, of inp ?l idx] by blast
  obtain xs where xs: "vector_hits S inp ?l idx out g = (Ok (out @ xs), g)"
    using vector_hits_run [OF inv assms, of inp ?l idx out] by blast
  have "snd (Search S inp idx g) = g"
    using out xs by (simp add: Search_def Let_def go_bind_def go_ret_def)
  with g show "sound M (snd (Search S inp idx g))" by simp
qed

lemma keeps_recall:
  assumes "bs_ops S = ops"
  shows "go_keeps (sound M) (Recall S agent depth)"
proof -
  have "go_safe (sound M) (recall_edges S k agent es c)" for k es c
    by (induction es arbitrary: c) (auto simp: assms split: sum.split intro!: safes)
  then show ?thesis
    unfolding Recall_def assms by (intro safe_keeps safes) (auto split: sum.split intro!: safes)
qed

lemma keeps_recent:
  assumes "bs_ops S = ops" and "list_all colon_free (ri_types inp)"
  shows "go_keeps (sound M) (Recent S inp)"
proof -
  have types: "list_all colon_free (recent_types inp)" using assms(2) by (simp add: recent_types_def)
  have loop: "go_safe (sound M) (go_collect ts (\<lambda>label. go_bind (or_none (graph_NodesByLabel ops label)) (\<lambda>ns.
      go_ret (map (activity_item_of F) (filter Q ns)))))" if "list_all colon_free ts" for ts F Q
    using that by (induction ts) (auto intro!: safes)
  show ?thesis
    unfolding Recent_def Let_def assms(1) by (intro safe_keeps safe_bind sound_time_now loop [OF types] safe_ret)
qed

lemma keeps_patterns:
  assumes "bs_ops S = ops"
  shows "go_keeps (sound M) (Patterns S inp)"
  unfolding Patterns_def Let_def assms
  by (intro safe_keeps safes) (auto split: sum.split intro!: safes)

lemma keeps_capture:
  assumes "bs_ops S = ops"
  shows "go_keeps (sound_brain M) (Capture S inp)"
proof -
  have idx: "go_keeps (sound_brain M) (index_node S n)" for n
    by (rule go_keepsI) (simp add: index_node_def split: option.split)
  have links: "go_keeps (sound M) (capture_links ops inp i)" for i
    unfolding capture_links_def link_to_def by (intro safe_keeps safes safe_if small_props_ok) simp_all
  have create: "go_keeps (sound M) (CreateNode ops ''LearningSignal'' (Some (capture_props inp ts now)))" for ts now
    by (intro safe_keeps safes) (simp_all add: props_ok_def capture_props_def)
  show ?thesis
    unfolding Capture_def assms
    by (auto intro!: keeps keeps_on_brain idx links create safe_keeps [OF sound_time_now])
qed

lemma keeps_reflect:
  assumes "bs_ops S = ops" and "\<And>run a h. bs_reflector S = Some run \<Longrightarrow> go_keeps (sound M) (run a h)"
  shows "go_keeps (sound M) (Reflect S inp)"
proof (cases "bs_reflector S")
  case None
  have "go_safe (sound M) (reflect_fallback S inp h)" for h
    unfolding reflect_fallback_def Let_def assms(1)
    by (intro safes safe_if small_props_ok) (simp_all add: props_ok_def reflect_props_def)
  with None show ?thesis by (simp add: Reflect_def Let_def safe_keeps)
next
  case (Some run)
  then show ?thesis unfolding Reflect_def Let_def Some option.case by (intro keeps assms(2) [OF Some])
qed

lemma keeps_overrides: "go_keeps (sound M) (brain_overrides ops inp)"
proof (rule go_keepsI)
  fix g assume g: "sound M g"
  obtain r g' where run: "applyScoreOverrides ops (fi_cycle inp) (fi_impact inp) (fi_relevance inp) (fi_value inp) g = (r, g')"
    by fastforce
  with overrides_run [OF _ run] g show "sound M (snd (brain_overrides ops inp g))"
    by (simp add: brain_overrides_as_ingest sound_def)
qed

lemma keeps_feedback:
  assumes "bs_ops S = ops"
  shows "go_keeps (sound M) (Feedback S inp)"
proof -
  have create: "go_keeps (sound M) (CreateNode ops ''HumanFeedback'' (Some (feedback_props inp now)))" for now
    by (intro safe_keeps safes) (simp_all add: props_ok_def feedback_props_def)
  show ?thesis
    unfolding Feedback_def Let_def assms
    by (auto split: sum.split simp: props_ok_def intro!: keeps create keeps_overrides safe_keeps [OF sound_time_now]
        safe_keeps [OF sound_get_node] safe_keeps [OF sound_create_edge])
qed

end

text \<open>One call of a tool, whatever it returns.\<close>

datatype brain_call =
    CallSearch search_input
  | CallRecall string string
  | CallCapture capture_input
  | CallRecent recent_input
  | CallPatterns patterns_input
  | CallReflect reflect_input
  | CallFeedback feedback_input

fun after_call :: "('s, 'i) brain_service \<Rightarrow> brain_call \<Rightarrow> ('s, 'i) brain \<Rightarrow> ('s, 'i) brain" where
  "after_call S (CallSearch inp) b = snd (on_brain (Search S inp (br_index b)) b)"
| "after_call S (CallRecall agent depth) b = snd (on_brain (Recall S agent depth) b)"
| "after_call S (CallCapture inp) b = snd (Capture S inp b)"
| "after_call S (CallRecent inp) b = snd (on_brain (Recent S inp) b)"
| "after_call S (CallPatterns inp) b = snd (on_brain (Patterns S inp) b)"
| "after_call S (CallReflect inp) b = snd (on_brain (Reflect S inp) b)"
| "after_call S (CallFeedback inp) b = snd (on_brain (Feedback S inp) b)"

fun call_ok :: "brain_call \<Rightarrow> bool" where
  "call_ok (CallRecent inp) \<longleftrightarrow> list_all colon_free (ri_types inp)"
| "call_ok _ \<longleftrightarrow> True"

context graph_storage
begin

lemma after_calls_sound:
  assumes S: "bs_ops S = ops" and run: "\<And>run a h. bs_reflector S = Some run \<Longrightarrow> go_keeps (sound M) (run a h)"
    and ok: "list_all call_ok xs" and b: "sound_brain M b"
  shows "sound_brain M (foldl (\<lambda>b x. after_call S x b) b xs)"
  using ok b
proof (induction xs arbitrary: b)
  case (Cons x xs)
  have refl: "go_keeps (sound M) (Reflect S inp)" for inp by (rule keeps_reflect [OF S]) (rule run)
  have "sound_brain M (snd (on_brain (Search S inp idx) b))" for inp idx
    by (rule go_keepsD [OF keeps_on_brain [OF keeps_search [OF S]]]) (use Cons.prems in simp)
  then have "sound_brain M (after_call S x b)"
    using Cons.prems by (cases x) (auto intro!: go_keepsD [where P = "sound_brain M"] keeps_on_brain keeps_recall [OF S]
      keeps_capture [OF S] keeps_recent [OF S] keeps_patterns [OF S] refl keeps_feedback [OF S])
  with Cons show ?case by simp
qed simp

end

end
