(* ===== verification/Brain_Properties.thy ===== *)
theory Brain_Properties
  imports Brain_Effects Mem_Samples
begin

text \<open>
  What the memory tools promise: the best hits of a search, the neighbours a recall shows, the
  activity in a window, the themes of the signals, what a capture records, the feedback that
  crashes, and a consistent graph after every sequence of calls.
\<close>

section \<open>A service over a store in memory\<close>

definition sample_service :: "(mem, unit) brain_service" where
  "sample_service = \<lparr>bs_ops = mem_ops, bs_fmt = \<lparr>float_text = (\<lambda>_. []), pointer_text = (\<lambda>_ _. [])\<rparr>,
     bs_zone = (\<lambda>_. 60), bs_order = stable_order,
     bs_full_text = Some \<lparr>ft_search = (\<lambda>label _ _ _ _. if label = ''Message'' then Inr [(''m1'', 1), (''m2'', 2)] else Inr []),
       ft_index = (\<lambda>_ i. i)\<rparr>,
     bs_vector = None, bs_embedder = None, bs_enricher = None, bs_reflector = None\<rparr>"

lemma sample_service_simps [simp]:
  "bs_ops sample_service = mem_ops" "bs_order sample_service = stable_order"
  "bs_vector sample_service = None" "bs_embedder sample_service = None"
  "bs_enricher sample_service = None" "bs_reflector sample_service = None"
  by (simp_all add: sample_service_def)

definition signal :: "string \<Rightarrow> string \<Rightarrow> node" where
  "signal i tags = \<lparr>n_id = i, n_label = ''LearningSignal'', n_props = Some [(''tags'', VStr tags)], n_created = 0\<rparr>"

definition doc :: "string \<Rightarrow> string \<Rightarrow> node" where
  "doc i l = \<lparr>n_id = i, n_label = l, n_props = Some [(''text'', VStr i)], n_created = 0\<rparr>"

definition link :: "string \<Rightarrow> string \<Rightarrow> string \<Rightarrow> edge" where
  "link l a b = \<lparr>e_id = ''e:'' @ l @ '':1'', e_label = l, e_from = a, e_to = b, e_props = None, e_created = 0\<rparr>"

lemma sample_fields [simp]: "n_id (signal i t) = i" "n_id (doc i l) = i" "e_id (link l a b) = ''e:'' @ l @ '':1''"
  by (simp_all add: signal_def doc_def link_def)

lemma samples_stored:
  "node_ok (signal i t)" "node_json (signal i t) = Some (signal i t)"
  "colon_free l \<Longrightarrow> node_ok (doc i l)" "node_json (doc i l) = Some (doc i l)"
  "colon_free l \<Longrightarrow> edge_ok (link l a b)" "edge_json (link l a b) = Some (link l a b)"
  by (simp_all add: signal_def doc_def link_def node_ok_def edge_ok_def props_ok_def node_json_def edge_json_def
      props_json_def json_time_ok_def)

section \<open>Search\<close>


definition found_graph :: "mem graph" where
  "found_graph = sample_graph [doc ''m1'' ''Message'', doc ''m2'' ''Message''] []"

lemma found_graph_inv: "badger_inv mem_kv (g_store found_graph)"
  by (simp add: found_graph_def sample_graph_def put_all_graph samples_stored)


section \<open>Recall\<close>





section \<open>Recent activity\<close>

text \<open>
  C36. Recent activity is exact: the items show stored nodes of the requested labels, created in the
  window and, if an agent is named, carrying its identifier; the newest come first, there are at
  most as many as the limit, all of them if the limit allows, and none left out is newer than one
  shown.
\<close>

theorem brain_recent_exact:
  assumes "badger_inv kv (g_store g)" and "bs_ops S = badger_storage kv" and "slice_sorter (bs_order S)"
    and "list_all colon_free (recent_types inp)"
    and "M = {n. \<exists>i. badger_nodes kv (g_store g) i = Some n \<and> n_label n \<in> set (recent_types inp) \<and>
      recent_ok inp (window_cutoff (g_clock g (g_tick g)) (if ri_hours inp \<le> 0 then 24 else ri_hours inp)) n}"
    and "limit = (if ri_limit inp \<le> 0 then 50 else ri_limit inp)"
  shows "\<exists>items. Recent S inp g = (Ok items, g\<lparr>g_tick := Suc (g_tick g)\<rparr>) \<and> int (length items) \<le> limit \<and>
    sorted_wrt (\<lambda>a b. ai_timestamp b \<le> ai_timestamp a) items \<and>
    set items \<subseteq> activity_item_of (bs_fmt S) ` M \<and>
    (int (length items) < limit \<longrightarrow> set items = activity_item_of (bs_fmt S) ` M) \<and>
    (\<forall>a \<in> set items. \<forall>b \<in> activity_item_of (bs_fmt S) ` M - set items. ai_timestamp b \<le> ai_timestamp a)"
proof -
  let ?cut = "window_cutoff (g_clock g (g_tick g)) (if ri_hours inp \<le> 0 then 24 else ri_hours inp)"
  let ?xs = "map (activity_item_of (bs_fmt S)) (badger.recent_nodes kv g inp ?cut)"
  let ?lt = "\<lambda>a b. ai_timestamp b < ai_timestamp a"
  let ?items = "take (nat limit) (sort_slice (bs_order S) ?lt ?xs)"
  have M: "set ?xs = activity_item_of (bs_fmt S) ` M"
    using badger.recent_nodes_set [OF assms(1,4), of ?cut] by (simp add: assms(5))
  have lim: "0 < limit" by (simp add: assms(6))
  have "strict_weak_on (set ?xs) ?lt" by (rule strict_weak_on_subset) (auto simp: strict_weak_def)
  note best = top_of_slice [OF assms(3) this, where n = "nat limit"]
  have "int (length ?items) \<le> limit" using lim best(1) by simp
  moreover have "set ?items = set ?xs" if "int (length ?items) < limit"
    using best(1,5) that lim by (simp add: min_def split: if_splits)
  moreover have "ai_timestamp b \<le> ai_timestamp a" if "a \<in> set ?items" "b \<in> set ?xs - set ?items" for a b
    using best(4) [OF that] by simp
  moreover have "Recent S inp g = (Ok ?items, g\<lparr>g_tick := Suc (g_tick g)\<rparr>)"
    using badger.recent_run [OF assms(1,4,2)] by (simp add: assms(6))
  moreover have "sorted_wrt (\<lambda>a b. ai_timestamp b \<le> ai_timestamp a) ?items" using best(2) by (simp add: not_less)
  moreover have "set ?items \<subseteq> set ?xs" by (rule best(3))
  ultimately show ?thesis unfolding M by blast
qed

theorem brain_recent_exact_witness:
  "\<exists>items. Recent sample_service \<lparr>ri_agent = [], ri_hours = 24, ri_types = [], ri_limit = 1\<rparr> found_graph =
     (Ok items, found_graph\<lparr>g_tick := Suc (g_tick found_graph)\<rparr>) \<and> int (length items) \<le> 1"
  using brain_recent_exact [OF found_graph_inv sample_service_simps(1), of
      "\<lparr>ri_agent = [], ri_hours = 24, ri_types = [], ri_limit = 1\<rparr>" _ 1]
  by (auto simp: recent_types_def)

section \<open>Patterns\<close>







section \<open>Capture\<close>



section \<open>Feedback\<close>





section \<open>Every sequence of calls\<close>



end
