(* ===== verification/Spec2Isabelle.thy ===== *)
theory Spec2Isabelle
  imports Storage_Properties Bolt_Properties Cluster_Properties Cypher_Properties
    Ingest_Properties Compliance_Properties Brain_Properties
begin

text \<open>
  KafGraph: a property graph for groups of software agents, in Go. Agents publish envelopes to a
  log; an ingest processor turns them into nodes and edges; clients query the graph in a subset of
  Cypher over the Bolt protocol; a cluster splits the agents over partitions and routes queries to
  their owners. This development models the parts that carry the program's own logic and proves what
  makes them correct. It is organised as a library: a prelude, one theory per component, and one
  theory of properties for each group of components.

  \<^bold>\<open>How the parts interact.\<close> Everything above the storage goes through the graph
  engine (internal/graph): its operations lock the engine, draw identifiers from a counter and times
  from the clock, and call a storage backend. The Badger backend (internal/storage) writes a
  document and its secondary index entries (internal/index) in one transaction. The query executor
  (internal/query) runs a plan on the engine and, for index scans, on the backend; the ingest
  handlers (internal/ingest) only upsert. The Bolt server (internal/server) and the query router
  (internal/cluster) call the executor through the interface \<open>QueryExecutor\<close>.

  \<^bold>\<open>Conventions.\<close> A Go call is a function from the state to an outcome and a
  state (\<open>go\<close> in KG_Prelude): a value, an error value, or a panic; effects before an
  error stay. Structs are records, enumerations datatypes, errors a datatype of texts with their
  wrapping. A Go map is an association list with distinct keys; the order in which the runtime
  ranges over a map is the order of the list, so a theorem about all lists covers every order.
  Integers of a fixed width are words, or integers with the wrap written out (the identifier
  counter). Strings are byte lists; where they reach JSON they are taken to be valid UTF-8. An
  operation that holds a lock throughout is one step. A float64 is its 64 bits and prints through a
  parameter; where the program computes with floats, they are rationals rounded to 53 bits
  (Go_Float).

  \<^bold>\<open>Theories and sources.\<close>

  \<^item> KG_Prelude, Go_Text, Go_Runes, Go_Time, Go_Clock, Go_Value, Go_Json, Go_Sha256: outcomes,
    loops, association lists, and what the program uses of Go's library: decimal texts, UTF-8,
    dates, \<open>time.Parse\<close>, \<open>any\<close> values and their JSON, SHA-256. Their
    lemmas are round trips (parsing what was printed, decoding what was encoded) and the composition
    rules \<open>keeps\<close> and \<open>safes\<close>.

  \<^item> Property_Graph, Graph_Engine: internal/graph/graph.go. \<open>node\<close>,
    \<open>edge\<close>, the interface \<open>Storage\<close> as a record of operations, its
    contract as the locale \<open>graph_storage\<close> over the abstract graph (a partial map of
    nodes and one of edges), and every operation of the engine, with its effect on the abstract
    graph proved once inside the locale. \<open>api_step\<close> is one call of the engine,
    \<open>ingest_step\<close> adds \<open>UpsertEdge\<close>; invariants are proved by rule
    induction over histories.

  \<^item> Secondary_Index, Badger_Storage, Indexed_Graph, Mem_Store: internal/index/index.go and
    internal/storage/badger.go over BadgerDB as a parameter. \<open>wf_view\<close> says that index
    entries and documents mirror each other; every transaction keeps it, and the interpretation
    \<open>badger\<close> shows that the backend meets \<open>graph_storage\<close> and its
    extension \<open>indexed_graph\<close>. Mem_Store is a store in memory that meets the hypotheses
    made of BadgerDB. Storage_Properties states the results.

  \<^item> PackStream, Bolt_Message, Bolt_Server, Bolt_Properties: internal/server/bolt_message.go
    and bolt.go: the codec, the chunked transport, the messages, the handshake and the message loop.

  \<^item> Cluster_Partition, Cluster_Membership, Query_Result, Query_Router, Cluster_Properties:
    internal/cluster: hashing and the partition map (locale \<open>partition_strategy\<close>), the
    gossip events and the rebalancing goroutine as interleaved steps, the router's fan-out and its
    frames.

  \<^item> Cypher_Lexer, Cypher_Ast, Cypher_Syntax, Cypher_Parser, Cypher_Parser_Laws,
    Cypher_Planner, Cypher_Executor, Cypher_Semantics, Cypher_Properties: internal/query, from the
    text to the rows. The laws show that the parser returns, gives no token back and builds
    statements the planner cannot crash on; the semantics that every effect of a plan is a step of
    the engine's interface.

  \<^item> Ingest_Envelope, Ingest_Handlers, Ingest_Processor: internal/ingest, in the order of its
    files. Ingest_Laws and Ingest_Semantics view a handler as a script of upserts and prove once
    what a script does; Ingest_Poll, Ingest_Log, Memory_Log and Ingest_Progress add the contracts of
    a segment reader (\<open>segment_log\<close>) and of a storage that refuses no write
    (\<open>reliable_storage\<close>), both interpreted on the code's own reader and backend;
    Ingest_Payloads and Ingest_Properties.

  \<^item> Go_Float, Compliance_Rules, Compliance_Engine, Compliance_Inspection:
    internal/compliance. A rule is a record with its evaluation over the interface
    \<open>querier\<close>; the twenty built-in rules (hardcoded.go, dataflow.go) and those read
    from YAML are definitions of that type. The engine holds the graph, the rules and the scan
    counter; scans, scores, framework nodes, the loader and the scheduler are its operations,
    inspections and the validation of data flows work on the graph alone. Compliance_Laws states
    what a querier promises as the locale \<open>rule_querier\<close> and shows in
    \<open>graph_storage\<close> that every operation is sound; Compliance_Exact interprets the
    querier on the adapter over Badger and computes what the rules report; Compliance_Score bounds
    the rounded arithmetic of the score; Compliance_Properties states the results.

  \<^item> Go_Slices, Brain_Service: internal/brain/brain.go, the tools agents call on their memory,
    one operation each (\<open>Search\<close>, \<open>Recall\<close>, \<open>Capture\<close>,
    \<open>Recent\<close>, \<open>Patterns\<close>, \<open>Reflect\<close>,
    \<open>Feedback\<close>). The record \<open>brain_service\<close> holds the storage and the
    interfaces the service is given; \<open>brain\<close> is the graph with the index of the
    searchers. Brain_Laws computes what the reading tools answer in \<open>graph_storage\<close>,
    Brain_Effects what the writing ones leave behind and that every call keeps the graph consistent,
    Brain_Properties states the results. Mem_Samples builds the stores of the witnesses.

  \<^bold>\<open>Bounds and fuel.\<close> The PackStream decoder and the Cypher parser recurse on
  input they consume; their fuel is the length of the input, shown sufficient. JSON nesting is cut
  off at 10000 levels as in \<open>encoding/json\<close>. Loops that wait for events (the message
  loop, the processor's \<open>Run\<close>, the rebalancing goroutine) are driven by the list of
  their events, and end with it. The codec's size limits (strings below 4 GiB, 65535 entries) are
  hypotheses where the code truncates.

  \<^bold>\<open>Hypotheses.\<close> Code that is not in the repository is a parameter: BadgerDB
  (\<open>kv_laws\<close>: reads see the transaction's own writes, iteration is by prefix in key
  order, a failed commit changes nothing; \<open>kv_total\<close> for the liveness results: no write
  fails), the Unicode tables and float parsing of the lexer, the searchers, the texts of floats and
  pointers, the gossip library's member list, the RPC transport and its JSON, the file system, the
  YAML parser and the quoting of \<open>%q\<close>. Each is instantiated by concrete functions in
  the witnesses. The embedder, the enricher and the runner given to the memory tools are interfaces
  of the code and parameters too. JSON errors are one text, since the program never inspects them.

  \<^bold>\<open>Choices that narrow the model.\<close> Labels are taken without a colon and edge
  identifiers with two where the key scheme of the store needs it. A poll reads one state of the
  log. \<open>sort.Slice\<close> is a stable sort where the keys are distinct, and in the
  agent-memory tools, where they need not be, any sorter (\<open>slice_order\<close>), whose choice
  among equal keys covers the order of a map as well. Writing to a socket succeeds. Two namespaces
  of checkpoints whose identifiers collide are not told apart. The compliance functions are given a
  graph that is not nil; \<open>ctx.Err()\<close> is a function of the position in a scan. Times
  that JSON cannot encode make a write fail, as in the code. Local times are UTC with an offset that
  is a parameter; input fields that a tool never reads are left out.

  \<^bold>\<open>Not modelled.\<close> the reflection cycles (internal/reflect, whose scores need
  float64 logarithms and whose schedules need time zones), the search backends (internal/search,
  wrappers of the Bleve index and float32 vectors), the HTTP routes (internal/server, net/http glue
  over the modelled operations), configuration and the main program (viper, signals, wiring), the
  demo data and the embedded browser interface. Deployment files, scripts and documents hold no Go
  code.
\<close>

end
